(* ===== verification/Prelude.thy ===== *)
theory Prelude
  imports Complex_Main "HOL-Library.Word" "HOL-Library.Monad_Syntax" "HOL-Library.Char_ord" "HOL-Library.List_Lexorder"
begin

text \<open>
  Shared vocabulary of the development: the fixed-width integers of the C and Go sources,
  memory as lists of bytes, loads of multi-byte integers in either byte order, and the
  generic lemmas on words, lists and options that the component theories use.

  \<^item> \<open>u8\<close>, \<open>u16\<close>, \<open>u32\<close>, \<open>u64\<close> are \<open>__u8\<close> to \<open>__u64\<close> of C and \<open>uint8\<close> to \<open>uint64\<close> of
    Go: addition, subtraction and multiplication wrap.
  \<^item> \<open>word_le bs\<close> is the integer whose least significant byte is the first of \<open>bs\<close>;
    \<open>word_of_mem bo bs\<close> is what a native load of the bytes \<open>bs\<close> gives on a machine of byte
    order \<open>bo\<close>.
  \<^item> A load outside the accessible bytes is \<open>None\<close>: a memory fault.
\<close>

unbundle bit_operations_syntax

named_theorems word_bit_simps
named_theorems load_simps
named_theorems egress_simps
named_theorems go_simps

type_synonym u8 = "8 word"
type_synonym u16 = "16 word"
type_synonym u32 = "32 word"
type_synonym u64 = "64 word"
type_synonym bytes = "u8 list"

datatype byte_order = Little | Big

definition byte_of :: "nat \<Rightarrow> 'a::len word \<Rightarrow> u8" where
  "byte_of i x = ucast (drop_bit (8 * i) x)"

fun word_le :: "bytes \<Rightarrow> 'a::len word" where
  "word_le [] = 0"
| "word_le (b # bs) = ucast b OR push_bit 8 (word_le bs)"

definition bytes_le :: "nat \<Rightarrow> 'a::len word \<Rightarrow> bytes" where
  "bytes_le n x = map (\<lambda>i. byte_of i x) [0..<n]"

definition word_of_mem :: "byte_order \<Rightarrow> bytes \<Rightarrow> 'a::len word" where
  "word_of_mem bo bs = (case bo of Little \<Rightarrow> word_le bs | Big \<Rightarrow> word_le (rev bs))"

definition mem_of_word :: "byte_order \<Rightarrow> nat \<Rightarrow> 'a::len word \<Rightarrow> bytes" where
  "mem_of_word bo n x = (case bo of Little \<Rightarrow> bytes_le n x | Big \<Rightarrow> rev (bytes_le n x))"

definition load_bytes :: "bytes \<Rightarrow> nat \<Rightarrow> nat \<Rightarrow> bytes option" where
  "load_bytes p off n = (if off + n \<le> length p then Some (take n (drop off p)) else None)"

definition load8 :: "bytes \<Rightarrow> nat \<Rightarrow> u8 option" where
  "load8 p off = (if off < length p then Some (p ! off) else None)"

definition load16 :: "byte_order \<Rightarrow> bytes \<Rightarrow> nat \<Rightarrow> u16 option" where
  "load16 bo p off = map_option (word_of_mem bo) (load_bytes p off 2)"

definition load32 :: "byte_order \<Rightarrow> bytes \<Rightarrow> nat \<Rightarrow> u32 option" where
  "load32 bo p off = map_option (word_of_mem bo) (load_bytes p off 4)"

text \<open>\<^verbatim>\<open>HasPrefix\<close>, \<^verbatim>\<open>Contains\<close>, \<^verbatim>\<open>ToLower\<close>, \<^verbatim>\<open>HasSuffix\<close> and \<^verbatim>\<open>TrimSuffix\<close> of Go's \<^verbatim>\<open>strings\<close>, on ASCII text.\<close>

definition HasPrefix :: "string \<Rightarrow> string \<Rightarrow> bool" where
  "HasPrefix s p \<longleftrightarrow> take (length p) s = p"

fun Contains :: "string \<Rightarrow> string \<Rightarrow> bool" where
  "Contains s sub \<longleftrightarrow> HasPrefix s sub \<or> (case s of [] \<Rightarrow> False | _ # t \<Rightarrow> Contains t sub)"

definition ToLower :: "string \<Rightarrow> string" where
  "ToLower s = map (\<lambda>c. if CHR ''A'' \<le> c \<and> c \<le> CHR ''Z'' then char_of (of_char c + 32 :: nat) else c) s"

definition HasSuffix :: "string \<Rightarrow> string \<Rightarrow> bool" where
  "HasSuffix s p \<longleftrightarrow> length p \<le> length s \<and> drop (length s - length p) s = p"

definition TrimSuffix :: "string \<Rightarrow> string \<Rightarrow> string" where
  "TrimSuffix s p = (if HasSuffix s p then take (length s - length p) s else s)"

subsection \<open>Bits of words built from bytes\<close>

lemma bit_byte_of [word_bit_simps]: "bit (byte_of i x) n \<longleftrightarrow> n < 8 \<and> bit x (8 * i + n)"
  by (auto simp: byte_of_def bit_simps)

lemma bit_word_le:
  "bit (word_le bs :: 'a::len word) k \<longleftrightarrow>
     k < LENGTH('a) \<and> k div 8 < length bs \<and> bit (bs ! (k div 8)) (k mod 8)"
proof (induction bs arbitrary: k)
  case Nil
  then show ?case by simp
next
  case (Cons b bs)
  show ?case
  proof (cases "k < 8")
    case True
    then show ?thesis by (auto simp: bit_simps)
  next
    case False
    then obtain j where k: "k = 8 + j" using le_Suc_ex not_less by blast
    have "\<not> bit b k"
      using False by (simp add: bit_word.rep_eq)
    moreover have "(8 + j) div 8 = Suc (j div 8)" and "(8 + j) mod 8 = j mod 8"
      by simp_all
    ultimately show ?thesis
      using k Cons.IH [of j] by (auto simp: bit_simps)
  qed
qed

lemma length_bytes_le [simp]: "length (bytes_le n x) = n"
  by (simp add: bytes_le_def)

lemma length_mem_of_word [simp]: "length (mem_of_word bo n x) = n"
  by (simp add: mem_of_word_def split: byte_order.split)

lemma word_le_bytes_le:
  assumes "LENGTH('a) \<le> 8 * n"
  shows "word_le (bytes_le n x) = (x :: 'a::len word)"
proof (rule bit_word_eqI)
  fix k assume "k < LENGTH('a)"
  moreover from this assms have "k div 8 < n" by auto
  ultimately show "bit (word_le (bytes_le n x) :: 'a word) k \<longleftrightarrow> bit x k"
    by (simp add: bit_word_le bytes_le_def word_bit_simps)
qed

lemma bytes_le_word_le:
  assumes "8 * length bs \<le> LENGTH('a)"
  shows "bytes_le (length bs) (word_le bs :: 'a::len word) = bs"
proof (rule nth_equalityI)
  fix i assume i: "i < length (bytes_le (length bs) (word_le bs :: 'a word))"
  show "bytes_le (length bs) (word_le bs :: 'a word) ! i = bs ! i"
  proof (rule bit_word_eqI)
    fix n assume "n < LENGTH(8)"
    then have n: "n < 8" by simp
    have "8 * i + n < LENGTH('a)" using i n assms by simp
    then show "bit (bytes_le (length bs) (word_le bs :: 'a word) ! i) n \<longleftrightarrow> bit (bs ! i) n"
      using i n by (simp add: bytes_le_def word_bit_simps bit_word_le)
  qed
qed simp

lemma word_of_mem_mem_of_word [simp]:
  "LENGTH('a) \<le> 8 * n \<Longrightarrow> word_of_mem bo (mem_of_word bo n x) = (x :: 'a::len word)"
  by (cases bo) (simp_all add: word_of_mem_def mem_of_word_def word_le_bytes_le)

lemma mem_of_word_word_of_mem:
  "8 * length bs \<le> LENGTH('a) \<Longrightarrow>
     mem_of_word bo (length bs) (word_of_mem bo bs :: 'a::len word) = bs"
  using bytes_le_word_le [of bs, where 'a = 'a] bytes_le_word_le [of "rev bs", where 'a = 'a]
  by (cases bo) (simp_all add: word_of_mem_def mem_of_word_def)

lemma word_of_mem_inj:
  assumes "length bs = length cs" and "8 * length bs \<le> LENGTH('a)"
    and "(word_of_mem bo bs :: 'a::len word) = word_of_mem bo cs"
  shows "bs = cs"
  by (metis assms mem_of_word_word_of_mem)

subsection \<open>Loads inside the bounds succeed\<close>

lemma load_bytes_ok [load_simps]: "off + n \<le> length p \<Longrightarrow> load_bytes p off n = Some (take n (drop off p))"
  by (simp add: load_bytes_def)

lemma load8_ok [load_simps]: "off < length p \<Longrightarrow> load8 p off = Some (p ! off)"
  by (simp add: load8_def)

lemma load16_ok [load_simps]:
  "off + 2 \<le> length p \<Longrightarrow> load16 bo p off = Some (word_of_mem bo (take 2 (drop off p)))"
  by (simp add: load16_def load_bytes_def)

lemma load32_ok [load_simps]:
  "off + 4 \<le> length p \<Longrightarrow> load32 bo p off = Some (word_of_mem bo (take 4 (drop off p)))"
  by (simp add: load32_def load_bytes_def)

lemma load8_None_iff: "load8 p off = None \<longleftrightarrow> length p \<le> off"
  by (auto simp: load8_def)

lemma load_bytes_None_iff: "load_bytes p off n = None \<longleftrightarrow> length p < off + n"
  by (auto simp: load_bytes_def)

declare Contains.simps [simp del]

lemma Contains_iff: "Contains s sub \<longleftrightarrow> (\<exists>a b. s = a @ sub @ b)"
proof (induction s)
  case Nil
  show ?case by (subst Contains.simps) (auto simp: HasPrefix_def)
next
  case (Cons c s)
  have "Contains (c # s) sub \<longleftrightarrow> HasPrefix (c # s) sub \<or> Contains s sub" by (subst Contains.simps) simp
  also have "HasPrefix (c # s) sub \<longleftrightarrow> (\<exists>b. c # s = sub @ b)"
    unfolding HasPrefix_def by (metis append_eq_conv_conj append_take_drop_id)
  finally show ?case using Cons by (auto simp: Cons_eq_append_conv)
qed

end
