(* ===== verification/Endian.thy ===== *)
theory Endian
  imports Prelude
begin

text \<open>
  \<^verbatim>\<open>bpf/headers/bpf/bpf_endian.h\<close>: the byte-swapping macros and the conversions between
  network and host byte order that the TC program applies to packet fields.

  \<open>bpf_mvb\<close> is \<^verbatim>\<open>___bpf_mvb(x, b, n, m)\<close>; the type of \<open>x\<close> is the type C computes the shifts
  in, so for \<^verbatim>\<open>b = 16\<close> it is \<open>u32\<close>, because C promotes a 16-bit operand before shifting it.
  The header picks a macro twice: by \<^verbatim>\<open>__BYTE_ORDER__\<close> (here the argument of type
  \<open>byte_order\<close>) and by \<^verbatim>\<open>__builtin_constant_p\<close> (here the argument \<open>const\<close>).
\<close>

definition bpf_mvb :: "nat \<Rightarrow> 'a::len word \<Rightarrow> nat \<Rightarrow> nat \<Rightarrow> 'a word" where
  "bpf_mvb b x n m = push_bit (m * 8) (drop_bit (b - 8) (push_bit (b - (n + 1) * 8) x))"

definition bpf_swab16 :: "u16 \<Rightarrow> u16" where
  "bpf_swab16 x = ucast (bpf_mvb 16 (ucast x :: u32) 0 1 OR bpf_mvb 16 (ucast x :: u32) 1 0)"

definition bpf_swab32 :: "u32 \<Rightarrow> u32" where
  "bpf_swab32 x =
     bpf_mvb 32 x 0 3 OR bpf_mvb 32 x 1 2 OR bpf_mvb 32 x 2 1 OR bpf_mvb 32 x 3 0"

definition bpf_swab64 :: "u64 \<Rightarrow> u64" where
  "bpf_swab64 x =
     bpf_mvb 64 x 0 7 OR bpf_mvb 64 x 1 6 OR bpf_mvb 64 x 2 5 OR bpf_mvb 64 x 3 4 OR
     bpf_mvb 64 x 4 3 OR bpf_mvb 64 x 5 2 OR bpf_mvb 64 x 6 1 OR bpf_mvb 64 x 7 0"

text \<open>The compiler's \<^verbatim>\<open>__builtin_bswapN\<close>: the \<open>n\<close> bytes of the operand in reverse order.\<close>

definition builtin_bswap :: "nat \<Rightarrow> 'a::len word \<Rightarrow> 'a word" where
  "builtin_bswap n x = word_le (rev (bytes_le n x))"

definition bpf_htons :: "byte_order \<Rightarrow> bool \<Rightarrow> u16 \<Rightarrow> u16" where
  "bpf_htons bo const x =
     (case bo of Little \<Rightarrow> (if const then bpf_swab16 x else builtin_bswap 2 x) | Big \<Rightarrow> x)"

definition bpf_ntohs :: "byte_order \<Rightarrow> bool \<Rightarrow> u16 \<Rightarrow> u16" where
  "bpf_ntohs bo const x =
     (case bo of Little \<Rightarrow> (if const then bpf_swab16 x else builtin_bswap 2 x) | Big \<Rightarrow> x)"

definition bpf_htonl :: "byte_order \<Rightarrow> bool \<Rightarrow> u32 \<Rightarrow> u32" where
  "bpf_htonl bo const x =
     (case bo of Little \<Rightarrow> (if const then bpf_swab32 x else builtin_bswap 4 x) | Big \<Rightarrow> x)"

definition bpf_ntohl :: "byte_order \<Rightarrow> bool \<Rightarrow> u32 \<Rightarrow> u32" where
  "bpf_ntohl bo const x =
     (case bo of Little \<Rightarrow> (if const then bpf_swab32 x else builtin_bswap 4 x) | Big \<Rightarrow> x)"

definition bpf_cpu_to_be64 :: "byte_order \<Rightarrow> bool \<Rightarrow> u64 \<Rightarrow> u64" where
  "bpf_cpu_to_be64 bo const x =
     (case bo of Little \<Rightarrow> (if const then bpf_swab64 x else builtin_bswap 8 x) | Big \<Rightarrow> x)"

definition bpf_be64_to_cpu :: "byte_order \<Rightarrow> bool \<Rightarrow> u64 \<Rightarrow> u64" where
  "bpf_be64_to_cpu bo const x =
     (case bo of Little \<Rightarrow> (if const then bpf_swab64 x else builtin_bswap 8 x) | Big \<Rightarrow> x)"

lemmas endian_defs =
  bpf_htons_def bpf_ntohs_def bpf_htonl_def bpf_ntohl_def bpf_cpu_to_be64_def bpf_be64_to_cpu_def

subsection \<open>Where each bit goes\<close>

lemma bit_bpf_mvb:
  assumes "(n + 1) * 8 \<le> LENGTH('a)"
  shows "bit (bpf_mvb LENGTH('a) (x :: 'a::len word) n m) k \<longleftrightarrow>
     k < LENGTH('a) \<and> m * 8 \<le> k \<and> k < m * 8 + 8 \<and> bit x (k - m * 8 + n * 8)"
proof -
  have "\<not> bit x j" if "LENGTH('a) \<le> j" for j
    using that by (simp add: bit_word.rep_eq)
  with assms show ?thesis
    by (auto simp: bpf_mvb_def bit_simps)
qed

text \<open>A reversal of \<open>n\<close> bytes moves bit \<open>k\<close> of byte \<open>k div 8\<close> to byte \<open>n - 1 - k div 8\<close>.\<close>

definition swap_pos :: "nat \<Rightarrow> nat \<Rightarrow> nat" where
  "swap_pos n k = 8 * (n - 1 - k div 8) + k mod 8"

lemma swap_pos_less: "k < 8 * n \<Longrightarrow> swap_pos n k < 8 * n"
  by (auto simp: swap_pos_def)

lemma swap_pos_swap_pos: "k < 8 * n \<Longrightarrow> swap_pos n (swap_pos n k) = k"
  by (auto simp: swap_pos_def)

lemma bit_builtin_bswap:
  assumes "LENGTH('a) = 8 * n"
  shows "bit (builtin_bswap n (x :: 'a::len word)) k \<longleftrightarrow> k < LENGTH('a) \<and> bit x (swap_pos n k)"
proof (cases "k < LENGTH('a)")
  case True
  with assms have k: "k div 8 < n" by auto
  then have "rev (bytes_le n x) ! (k div 8) = byte_of (n - 1 - k div 8) x"
    by (simp add: rev_nth bytes_le_def)
  with True k show ?thesis
    by (simp add: builtin_bswap_def bit_word_le word_bit_simps swap_pos_def)
qed (simp add: builtin_bswap_def bit_word_le)

lemma bit_bpf_swab16: "bit (bpf_swab16 x) k \<longleftrightarrow> k < 16 \<and> bit x (swap_pos 2 k)"
proof -
  have "\<not> bit x j" if "16 \<le> j" for j
    using that by (simp add: bit_word.rep_eq)
  moreover have "k div 8 = (if k < 8 then 0 else 1)" if "k < 16" using that by auto
  moreover have "k mod 8 = (if k < 8 then k else k - 8)" if "k < 16"
    using that by (auto simp: le_mod_geq)
  ultimately show ?thesis
    by (auto simp: bpf_swab16_def bpf_mvb_def bit_simps swap_pos_def split: if_splits)
qed

lemma byte_split: "\<exists>j r. k = 8 * j + r \<and> (r::nat) < 8"
  by (rule exI [of _ "k div 8"], rule exI [of _ "k mod 8"]) simp

lemma bit_bpf_swab32: "bit (bpf_swab32 x) k \<longleftrightarrow> k < 32 \<and> bit x (swap_pos 4 k)"
proof -
  note mvb = bit_bpf_mvb [where 'a = 32, simplified]
  obtain j r where k: "k = 8 * j + r" and r: "r < 8" using byte_split by blast
  have sp: "swap_pos 4 k = 8 * (3 - j) + r" using k r by (simp add: swap_pos_def)
  consider "j = 0" | "j = 1" | "j = 2" | "j = 3" | "3 < j" by linarith
  then show ?thesis unfolding sp
    by cases (use k r in \<open>simp_all add: bpf_swab32_def bit_or_iff mvb add.commute\<close>)
qed

lemma bit_bpf_swab64: "bit (bpf_swab64 x) k \<longleftrightarrow> k < 64 \<and> bit x (swap_pos 8 k)"
proof -
  note mvb = bit_bpf_mvb [where 'a = 64, simplified]
  obtain j r where k: "k = 8 * j + r" and r: "r < 8" using byte_split by blast
  have sp: "swap_pos 8 k = 8 * (7 - j) + r" using k r by (simp add: swap_pos_def)
  consider "j = 0" | "j = 1" | "j = 2" | "j = 3" | "j = 4" | "j = 5" | "j = 6" | "j = 7" | "7 < j"
    by linarith
  then show ?thesis unfolding sp
    by cases (use k r in \<open>simp_all add: bpf_swab64_def bit_or_iff mvb add.commute\<close>)
qed

lemma bpf_swab16_bswap: "bpf_swab16 x = builtin_bswap 2 x"
  by (rule bit_word_eqI) (simp add: bit_bpf_swab16 bit_builtin_bswap)

lemma bpf_swab32_bswap: "bpf_swab32 x = builtin_bswap 4 x"
  by (rule bit_word_eqI) (simp add: bit_bpf_swab32 bit_builtin_bswap)

lemma bpf_swab64_bswap: "bpf_swab64 x = builtin_bswap 8 x"
  by (rule bit_word_eqI) (simp add: bit_bpf_swab64 bit_builtin_bswap)

lemmas swab_bswap = bpf_swab16_bswap bpf_swab32_bswap bpf_swab64_bswap

lemma builtin_bswap_invol:
  assumes "LENGTH('a) = 8 * n"
  shows "builtin_bswap n (builtin_bswap n (x :: 'a::len word)) = x"
  by (rule bit_word_eqI)
    (simp add: bit_builtin_bswap [OF assms] assms swap_pos_less swap_pos_swap_pos)

lemma builtin_bswap_word_le:
  assumes "length bs = n" and "LENGTH('a) = 8 * n"
  shows "builtin_bswap n (word_le bs :: 'a::len word) = word_le (rev bs)"
  using assms bytes_le_word_le [of bs, where 'a = 'a] by (simp add: builtin_bswap_def)

subsection \<open>Network byte order on either host\<close>

lemma ntohs_load [load_simps]:
  "length bs = 2 \<Longrightarrow> bpf_ntohs bo const (word_of_mem bo bs) = word_le (rev bs)"
  by (cases bo) (simp_all add: bpf_ntohs_def word_of_mem_def swab_bswap builtin_bswap_word_le)

lemma ntohl_load [load_simps]:
  "length bs = 4 \<Longrightarrow> bpf_ntohl bo const (word_of_mem bo bs) = word_le (rev bs)"
  by (cases bo) (simp_all add: bpf_ntohl_def word_of_mem_def swab_bswap builtin_bswap_word_le)

lemma htons_mem:
  "mem_of_word bo 2 (bpf_htons bo const x) = rev (bytes_le 2 x)"
  by (cases bo)
    (simp_all add: bpf_htons_def mem_of_word_def swab_bswap builtin_bswap_def
      bytes_le_word_le [of "rev (bytes_le 2 x)", where 'a = 16, simplified])

lemma load_eq_htons_iff:
  assumes "length bs = 2"
  shows "word_of_mem bo bs = bpf_htons bo const x \<longleftrightarrow> bs = rev (bytes_le 2 x)"
proof
  assume "word_of_mem bo bs = bpf_htons bo const x"
  then have "mem_of_word bo 2 (word_of_mem bo bs :: u16) = rev (bytes_le 2 x)"
    by (simp add: htons_mem)
  with assms mem_of_word_word_of_mem [of bs bo, where 'a = 16] show "bs = rev (bytes_le 2 x)"
    by simp
next
  assume "bs = rev (bytes_le 2 x)"
  then show "word_of_mem bo bs = bpf_htons bo const x"
    using word_of_mem_mem_of_word [of 2 bo "bpf_htons bo const x"] by (simp add: htons_mem)
qed

text \<open>
  C30. On either byte order, and whether or not the compiler sees a constant, \<open>bpf_htons\<close> and
  \<open>bpf_ntohs\<close> (and their 32- and 64-bit forms) are inverse to each other, and reading a field
  in network order natively and converting it gives the big-endian value of its bytes.
\<close>

theorem endian_roundtrip:
  "bpf_ntohs bo c (bpf_htons bo d x) = x \<and>
   bpf_ntohl bo c (bpf_htonl bo d y) = y \<and>
   bpf_be64_to_cpu bo c (bpf_cpu_to_be64 bo d z) = z \<and>
   bpf_ntohs bo c (word_of_mem bo [a0, a1]) = word_le [a1, a0] \<and>
   bpf_ntohl bo c (word_of_mem bo [b0, b1, b2, b3]) = word_le [b3, b2, b1, b0]"
proof (intro conjI)
  show "bpf_ntohs bo c (bpf_htons bo d x) = x"
    by (simp add: endian_defs swab_bswap builtin_bswap_invol split: byte_order.split)
  show "bpf_ntohl bo c (bpf_htonl bo d y) = y"
    by (simp add: endian_defs swab_bswap builtin_bswap_invol split: byte_order.split)
  show "bpf_be64_to_cpu bo c (bpf_cpu_to_be64 bo d z) = z"
    by (simp add: endian_defs swab_bswap builtin_bswap_invol split: byte_order.split)
  show "bpf_ntohs bo c (word_of_mem bo [a0, a1]) = word_le [a1, a0]"
    using ntohs_load [of "[a0, a1]" bo c] by (simp del: word_le.simps)
  show "bpf_ntohl bo c (word_of_mem bo [b0, b1, b2, b3]) = word_le [b3, b2, b1, b0]"
    using ntohl_load [of "[b0, b1, b2, b3]" bo c] by (simp del: word_le.simps)
qed

end
