(* ===== verification/Bpf_Abi.thy ===== *)
theory Bpf_Abi
  imports Endian
begin

text \<open>
  The binary interface the TC program is written against.

  \<^item> \<^verbatim>\<open>bpf/headers/bpf/common.h\<close>: the enumerations and the structures \<open>ethhdr\<close> and \<open>iphdr\<close>.
    A structure is the list of its fields with their C types, and the offset of a field is
    computed by the rule of the C ABI (each field at the next multiple of its alignment).
  \<^item> The helpers of \<^verbatim>\<open>bpf/headers/bpf/bpf_helper_defs.h\<close> that the program calls on maps, as that
    header documents them: a map is a partial function from keys to values, a lookup of a key
    without entry is \<^verbatim>\<open>NULL\<close> (\<open>None\<close>).
  \<^item> The atomic operations \<^verbatim>\<open>__sync_val_compare_and_swap\<close>, \<^verbatim>\<open>__sync_fetch_and_or\<close> and
    \<^verbatim>\<open>__sync_fetch_and_add\<close> of the compiler.
\<close>

subsection \<open>Structure layout\<close>

datatype ctype = CU8 | CU16 | CU32 | CU64 | CArr nat ctype

fun ctype_size :: "ctype \<Rightarrow> nat" where
  "ctype_size CU8 = 1"
| "ctype_size CU16 = 2"
| "ctype_size CU32 = 4"
| "ctype_size CU64 = 8"
| "ctype_size (CArr n t) = n * ctype_size t"

fun ctype_align :: "ctype \<Rightarrow> nat" where
  "ctype_align CU8 = 1"
| "ctype_align CU16 = 2"
| "ctype_align CU32 = 4"
| "ctype_align CU64 = 8"
| "ctype_align (CArr n t) = ctype_align t"

definition align_up :: "nat \<Rightarrow> nat \<Rightarrow> nat" where
  "align_up a off = ((off + (a - 1)) div a) * a"

type_synonym cstruct = "(string \<times> ctype) list"

fun field_offset_from :: "nat \<Rightarrow> cstruct \<Rightarrow> string \<Rightarrow> nat option" where
  "field_offset_from off [] f = None"
| "field_offset_from off ((g, t) # fs) f =
     (let o1 = align_up (ctype_align t) off
      in if f = g then Some o1 else field_offset_from (o1 + ctype_size t) fs f)"

fun struct_end :: "nat \<Rightarrow> cstruct \<Rightarrow> nat" where
  "struct_end off [] = off"
| "struct_end off ((g, t) # fs) = struct_end (align_up (ctype_align t) off + ctype_size t) fs"

definition struct_align :: "cstruct \<Rightarrow> nat" where
  "struct_align fs = foldr (\<lambda>(g, t) a. max (ctype_align t) a) fs 1"

definition offsetof :: "cstruct \<Rightarrow> string \<Rightarrow> nat" where
  "offsetof fs f = (case field_offset_from 0 fs f of Some n \<Rightarrow> n | None \<Rightarrow> 0)"

definition sizeof :: "cstruct \<Rightarrow> nat" where
  "sizeof fs = align_up (struct_align fs) (struct_end 0 fs)"

text \<open>
  \<^verbatim>\<open>struct ethhdr\<close> and \<^verbatim>\<open>struct iphdr\<close>. The two 4-bit fields \<^verbatim>\<open>ihl\<close> and \<^verbatim>\<open>version\<close> share the
  first byte; \<^verbatim>\<open>ihl\<close> is its low half (a little-endian compiler puts the field declared first
  there; for the other byte order \<^verbatim>\<open>linux/ip.h\<close> swaps the declarations).
\<close>

definition ethhdr :: cstruct where
  "ethhdr = [(''h_dest'', CArr 6 CU8), (''h_source'', CArr 6 CU8), (''h_proto'', CU16)]"

definition iphdr :: cstruct where
  "iphdr =
    [(''ihl_version'', CU8), (''tos'', CU8), (''tot_len'', CU16), (''id'', CU16),
     (''frag_off'', CU16), (''ttl'', CU8), (''protocol'', CU8), (''check'', CU16),
     (''saddr'', CU32), (''daddr'', CU32)]"

definition xdp_md :: cstruct where
  "xdp_md =
    [(''data'', CU32), (''data_end'', CU32), (''data_meta'', CU32), (''ingress_ifindex'', CU32),
     (''rx_queue_index'', CU32), (''egress_ifindex'', CU32)]"

definition iphdr_ihl :: "u8 \<Rightarrow> u8" where
  "iphdr_ihl b = b AND 0xF"

definition ETH_P_IP :: u16 where
  "ETH_P_IP = 0x0800"

lemma ethhdr_layout [simp]: "sizeof ethhdr = 14" "offsetof ethhdr ''h_proto'' = 12"
  by code_simp+

lemma iphdr_layout [simp]:
  "sizeof iphdr = 20" "offsetof iphdr ''ihl_version'' = 0" "offsetof iphdr ''tot_len'' = 2"
  "offsetof iphdr ''protocol'' = 9" "offsetof iphdr ''saddr'' = 12" "offsetof iphdr ''daddr'' = 16"
  by code_simp+

subsection \<open>Enumerations\<close>

datatype tc_action =
  TC_ACT_UNSPEC | TC_ACT_OK | TC_ACT_RECLASSIFY | TC_ACT_SHOT | TC_ACT_PIPE | TC_ACT_STOLEN
  | TC_ACT_QUEUED | TC_ACT_REPEAT | TC_ACT_REDIRECT | TC_ACT_JUMP

fun tc_action_code :: "tc_action \<Rightarrow> int" where
  "tc_action_code TC_ACT_UNSPEC = -1"
| "tc_action_code TC_ACT_OK = 0"
| "tc_action_code TC_ACT_RECLASSIFY = 1"
| "tc_action_code TC_ACT_SHOT = 2"
| "tc_action_code TC_ACT_PIPE = 3"
| "tc_action_code TC_ACT_STOLEN = 4"
| "tc_action_code TC_ACT_QUEUED = 5"
| "tc_action_code TC_ACT_REPEAT = 6"
| "tc_action_code TC_ACT_REDIRECT = 7"
| "tc_action_code TC_ACT_JUMP = 0x10000000"

datatype xdp_action = XDP_ABORTED | XDP_DROP | XDP_PASS | XDP_TX | XDP_REDIRECT

fun xdp_action_code :: "xdp_action \<Rightarrow> int" where
  "xdp_action_code XDP_ABORTED = 0"
| "xdp_action_code XDP_DROP = 1"
| "xdp_action_code XDP_PASS = 2"
| "xdp_action_code XDP_TX = 3"
| "xdp_action_code XDP_REDIRECT = 4"

datatype bpf_map_type =
  BPF_MAP_TYPE_UNSPEC | BPF_MAP_TYPE_HASH | BPF_MAP_TYPE_ARRAY | BPF_MAP_TYPE_PROG_ARRAY
  | BPF_MAP_TYPE_PERF_EVENT_ARRAY | BPF_MAP_TYPE_PERCPU_HASH | BPF_MAP_TYPE_PERCPU_ARRAY
  | BPF_MAP_TYPE_STACK_TRACE | BPF_MAP_TYPE_CGROUP_ARRAY | BPF_MAP_TYPE_LRU_HASH
  | BPF_MAP_TYPE_LRU_PERCPU_HASH | BPF_MAP_TYPE_LPM_TRIE | BPF_MAP_TYPE_ARRAY_OF_MAPS
  | BPF_MAP_TYPE_HASH_OF_MAPS | BPF_MAP_TYPE_DEVMAP | BPF_MAP_TYPE_SOCKMAP
  | BPF_MAP_TYPE_CPUMAP | BPF_MAP_TYPE_XSKMAP | BPF_MAP_TYPE_SOCKHASH
  | BPF_MAP_TYPE_CGROUP_STORAGE | BPF_MAP_TYPE_REUSEPORT_SOCKARRAY
  | BPF_MAP_TYPE_PERCPU_CGROUP_STORAGE | BPF_MAP_TYPE_QUEUE | BPF_MAP_TYPE_STACK
  | BPF_MAP_TYPE_SK_STORAGE | BPF_MAP_TYPE_DEVMAP_HASH | BPF_MAP_TYPE_STRUCT_OPS
  | BPF_MAP_TYPE_RINGBUF | BPF_MAP_TYPE_INODE_STORAGE

definition bpf_map_types :: "bpf_map_type list" where
  "bpf_map_types =
    [BPF_MAP_TYPE_UNSPEC, BPF_MAP_TYPE_HASH, BPF_MAP_TYPE_ARRAY, BPF_MAP_TYPE_PROG_ARRAY,
     BPF_MAP_TYPE_PERF_EVENT_ARRAY, BPF_MAP_TYPE_PERCPU_HASH, BPF_MAP_TYPE_PERCPU_ARRAY,
     BPF_MAP_TYPE_STACK_TRACE, BPF_MAP_TYPE_CGROUP_ARRAY, BPF_MAP_TYPE_LRU_HASH,
     BPF_MAP_TYPE_LRU_PERCPU_HASH, BPF_MAP_TYPE_LPM_TRIE, BPF_MAP_TYPE_ARRAY_OF_MAPS,
     BPF_MAP_TYPE_HASH_OF_MAPS, BPF_MAP_TYPE_DEVMAP, BPF_MAP_TYPE_SOCKMAP,
     BPF_MAP_TYPE_CPUMAP, BPF_MAP_TYPE_XSKMAP, BPF_MAP_TYPE_SOCKHASH,
     BPF_MAP_TYPE_CGROUP_STORAGE, BPF_MAP_TYPE_REUSEPORT_SOCKARRAY,
     BPF_MAP_TYPE_PERCPU_CGROUP_STORAGE, BPF_MAP_TYPE_QUEUE, BPF_MAP_TYPE_STACK,
     BPF_MAP_TYPE_SK_STORAGE, BPF_MAP_TYPE_DEVMAP_HASH, BPF_MAP_TYPE_STRUCT_OPS,
     BPF_MAP_TYPE_RINGBUF, BPF_MAP_TYPE_INODE_STORAGE]"

fun index_from :: "nat \<Rightarrow> 'a list \<Rightarrow> 'a \<Rightarrow> nat option" where
  "index_from i [] x = None"
| "index_from i (y # ys) x = (if x = y then Some i else index_from (Suc i) ys x)"

definition bpf_map_type_code :: "bpf_map_type \<Rightarrow> nat option" where
  "bpf_map_type_code t = index_from 0 bpf_map_types t"

datatype map_update_flag = BPF_ANY | BPF_NOEXIST | BPF_EXIST | BPF_F_LOCK

fun map_update_flag_code :: "map_update_flag \<Rightarrow> u64" where
  "map_update_flag_code BPF_ANY = 0"
| "map_update_flag_code BPF_NOEXIST = 1"
| "map_update_flag_code BPF_EXIST = 2"
| "map_update_flag_code BPF_F_LOCK = 4"

definition BPF_F_INDEX_MASK :: u64 where
  "BPF_F_INDEX_MASK = 0xffffffff"

definition BPF_F_CURRENT_CPU :: u64 where
  "BPF_F_CURRENT_CPU = BPF_F_INDEX_MASK"

subsection \<open>Map helpers\<close>

definition bpf_map_lookup_elem :: "('k \<rightharpoonup> 'v) \<Rightarrow> 'k \<Rightarrow> 'v option" where
  "bpf_map_lookup_elem m k = m k"

text \<open>The result is 0, or a negative number when the flag's condition on the entry fails.\<close>

definition bpf_map_update_elem ::
    "('k \<rightharpoonup> 'v) \<Rightarrow> 'k \<Rightarrow> 'v \<Rightarrow> map_update_flag \<Rightarrow> int \<times> ('k \<rightharpoonup> 'v)" where
  "bpf_map_update_elem m k v fl =
     (case fl of
        BPF_NOEXIST \<Rightarrow> (if m k = None then (0, m(k \<mapsto> v)) else (-1, m))
      | BPF_EXIST \<Rightarrow> (if m k = None then (-1, m) else (0, m(k \<mapsto> v)))
      | _ \<Rightarrow> (0, m(k \<mapsto> v)))"

text \<open>
  A value stored through the pointer that a lookup returned: nothing happens when the lookup
  returned \<^verbatim>\<open>NULL\<close>.
\<close>

definition map_write :: "('k \<rightharpoonup> 'v) \<Rightarrow> 'k \<Rightarrow> ('v \<Rightarrow> 'v) \<Rightarrow> ('k \<rightharpoonup> 'v)" where
  "map_write m k f = (case m k of None \<Rightarrow> m | Some v \<Rightarrow> m(k \<mapsto> f v))"

definition array_map :: "nat \<Rightarrow> 'v \<Rightarrow> (u32 \<rightharpoonup> 'v)" where
  "array_map n v = (\<lambda>i. if unat i < n then Some v else None)"

lemma dom_map_write [simp]: "dom (map_write m k f) = dom m"
  by (auto simp: map_write_def split: option.split if_splits)

lemma map_write_other: "j \<noteq> k \<Longrightarrow> map_write m k f j = m j"
  by (simp add: map_write_def split: option.split)

lemma map_write_same: "m k = Some v \<Longrightarrow> map_write m k f k = Some (f v)"
  by (simp add: map_write_def)

lemma dom_array_map: "dom (array_map n v) = {i. unat i < n}"
  by (auto simp: array_map_def split: if_splits)

subsection \<open>Atomic operations\<close>

text \<open>
  \<open>sync_val_cas cur expected new\<close> is the value returned and the new content of the cell;
  \<open>sync_bool_cas\<close> returns whether the swap took place.
\<close>

definition sync_val_cas :: "u64 \<Rightarrow> u64 \<Rightarrow> u64 \<Rightarrow> u64 \<times> u64" where
  "sync_val_cas cur expected new = (cur, if cur = expected then new else cur)"

definition sync_bool_cas :: "u64 \<Rightarrow> u64 \<Rightarrow> u64 \<Rightarrow> bool \<times> u64" where
  "sync_bool_cas cur expected new = (cur = expected, if cur = expected then new else cur)"

definition sync_fetch_and_or :: "u64 \<Rightarrow> u64 \<Rightarrow> u64 \<times> u64" where
  "sync_fetch_and_or cur v = (cur, cur OR v)"

definition sync_fetch_and_add :: "u64 \<Rightarrow> u64 \<Rightarrow> u64 \<times> u64" where
  "sync_fetch_and_add cur v = (cur, cur + v)"

lemmas sync_defs = sync_val_cas_def sync_bool_cas_def sync_fetch_and_or_def sync_fetch_and_add_def

text \<open>The numbering of the enumerations of \<^verbatim>\<open>common.h\<close> is injective.\<close>

lemma tc_action_code_inj: "tc_action_code a = tc_action_code b \<Longrightarrow> a = b"
  by (cases a; cases b) simp_all

lemma index_from_Some: "index_from i xs x = Some j \<Longrightarrow> i \<le> j \<and> j - i < length xs \<and> xs ! (j - i) = x"
proof (induction i xs x rule: index_from.induct)
  case (2 i y ys x)
  show ?case
  proof (cases "x = y")
    case False
    with "2" have IH: "Suc i \<le> j \<and> j - Suc i < length ys \<and> ys ! (j - Suc i) = x" by simp
    then have "j - i = Suc (j - Suc i)" by arith
    with IH show ?thesis by simp
  qed (use "2.prems" in auto)
qed simp

lemma bpf_map_type_code_inj:
  "bpf_map_type_code a = Some n \<Longrightarrow> bpf_map_type_code b = Some n \<Longrightarrow> a = b"
  unfolding bpf_map_type_code_def by (metis index_from_Some)

end
