(* ===== verification/Bloom.thy ===== *)
theory Bloom
  imports Bpf_Abi
begin

text \<open>
  The generational Bloom filter of \<^verbatim>\<open>bpf/packet_loss.bpf.c\<close> (lines 12 to 28 and 166 to 265):
  two halves of \<open>BLOOM_WORDS\<close> words, the half of a generation chosen by its parity, each word
  tagged with the generation its bits belong to. Setting a bit in a word of another generation
  first clears it, and a bit counts as seen when it is set in the current or in the previous
  generation.

  The locale \<open>generation_filter\<close> states what the duplicate detection needs of the bit
  operations; it is interpreted on \<open>bloom_test_bit_gen\<close> and \<open>bloom_set_bit_gen\<close>.
  The operations here are the sequential ones (one CPU at a time); \<open>Bloom_Race\<close> splits them
  into their atomic steps.
\<close>

subsection \<open>State and operations\<close>

record bloom_word =
  bw_gen :: u64
  bw_bits :: u64

record bloom_epoch_state =
  ep_gen :: u64
  ep_start_ns :: u64

type_synonym bloom_bits_map = "u32 \<rightharpoonup> bloom_word"
type_synonym bloom_epoch_map = "u32 \<rightharpoonup> bloom_epoch_state"

definition BLOOM_WORDS :: nat where
  "BLOOM_WORDS = 32768"

definition BLOOM_BITMASK :: u32 where
  "BLOOM_BITMASK = of_nat (BLOOM_WORDS * 64 - 1)"

definition BLOOM_EPOCH_NS :: u64 where
  "BLOOM_EPOCH_NS = 1500000000"

definition bloom_hash :: "u32 \<Rightarrow> u32 \<Rightarrow> u16 \<Rightarrow> u16 \<Rightarrow> u32 \<Rightarrow> u32 \<Rightarrow> u32" where
  "bloom_hash saddr daddr sport dport seq seed =
     (let h = seed;
          h = h XOR saddr;
          h = h XOR (daddr + 0x9e3779b9 + push_bit 6 h + drop_bit 2 h);
          h = h XOR (push_bit 16 (ucast sport) OR ucast dport);
          h = h XOR (seq + 0x9e3779b9 + push_bit 6 h + drop_bit 2 h)
      in h)"

definition bloom_bit_index :: "u32 \<Rightarrow> u32 \<Rightarrow> u16 \<Rightarrow> u16 \<Rightarrow> u32 \<Rightarrow> u32 \<Rightarrow> u32" where
  "bloom_bit_index saddr daddr sport dport seq seed =
     bloom_hash saddr daddr sport dport seq seed AND BLOOM_BITMASK"

definition bloom_idx :: "u32 \<Rightarrow> u64 \<Rightarrow> u32" where
  "bloom_idx b gen = ucast ((gen AND 1) * of_nat BLOOM_WORDS + ucast (drop_bit 6 b))"

definition bloom_mask :: "u32 \<Rightarrow> u64" where
  "bloom_mask b = push_bit (unat (b AND 63)) 1"

definition bloom_test_bit_gen :: "bloom_bits_map \<Rightarrow> u32 \<Rightarrow> u64 \<Rightarrow> bool" where
  "bloom_test_bit_gen m b gen =
     (case bpf_map_lookup_elem m (bloom_idx b gen) of
        None \<Rightarrow> False
      | Some w \<Rightarrow> if bw_gen w \<noteq> gen then False else bw_bits w AND bloom_mask b \<noteq> 0)"

definition bloom_set_bit_gen :: "bloom_bits_map \<Rightarrow> u32 \<Rightarrow> u64 \<Rightarrow> bloom_bits_map" where
  "bloom_set_bit_gen m b gen =
     (case bpf_map_lookup_elem m (bloom_idx b gen) of
        None \<Rightarrow> m
      | Some w \<Rightarrow>
          let w1 = (if bw_gen w \<noteq> gen
                    then let (old, g1) = sync_val_cas (bw_gen w) (bw_gen w) gen;
                             w' = w\<lparr>bw_gen := g1\<rparr>
                         in if old \<noteq> gen then w'\<lparr>bw_bits := 0\<rparr> else w'
                    else w)
          in m(bloom_idx b gen \<mapsto>
                 w1\<lparr>bw_bits := snd (sync_fetch_and_or (bw_bits w1) (bloom_mask b))\<rparr>))"

definition bloom_maybe_roll_epoch :: "u64 \<Rightarrow> bloom_epoch_map \<Rightarrow> bloom_epoch_map" where
  "bloom_maybe_roll_epoch now em =
     (case bpf_map_lookup_elem em 0 of
        None \<Rightarrow> snd (bpf_map_update_elem em 0 \<lparr>ep_gen = 0, ep_start_ns = now\<rparr> BPF_ANY)
      | Some e \<Rightarrow>
          if now > ep_start_ns e \<and> now - ep_start_ns e > BLOOM_EPOCH_NS
          then let (swapped, st) = sync_bool_cas (ep_start_ns e) (ep_start_ns e) now;
                   e1 = e\<lparr>ep_start_ns := st\<rparr>
               in em(0 \<mapsto> (if swapped then e1\<lparr>ep_gen := snd (sync_fetch_and_add (ep_gen e1) 1)\<rparr> else e1))
          else em)"

definition bloom_test_and_set ::
    "bloom_epoch_map \<Rightarrow> bloom_bits_map \<Rightarrow> u32 \<Rightarrow> u32 \<Rightarrow> u16 \<Rightarrow> u16 \<Rightarrow> u32 \<Rightarrow> bool \<times> bloom_bits_map" where
  "bloom_test_and_set em m saddr daddr sport dport seq =
     (case bpf_map_lookup_elem em 0 of
        None \<Rightarrow> (False, m)
      | Some e \<Rightarrow>
          let cur_gen = ep_gen e;
              prev_gen = cur_gen - 1;
              bit0 = bloom_bit_index saddr daddr sport dport seq 0x12345678;
              bit1 = bloom_bit_index saddr daddr sport dport seq 0x9e3779b9;
              bit2 = bloom_bit_index saddr daddr sport dport seq 0xdeadbeef;
              seen0 = bloom_test_bit_gen m bit0 cur_gen \<or> bloom_test_bit_gen m bit0 prev_gen;
              seen1 = bloom_test_bit_gen m bit1 cur_gen \<or> bloom_test_bit_gen m bit1 prev_gen;
              seen2 = bloom_test_bit_gen m bit2 cur_gen \<or> bloom_test_bit_gen m bit2 prev_gen;
              m = bloom_set_bit_gen m bit0 cur_gen;
              m = bloom_set_bit_gen m bit1 cur_gen;
              m = bloom_set_bit_gen m bit2 cur_gen
          in (seen0 \<and> seen1 \<and> seen2, m))"

text \<open>
  What the array map type guarantees of the two maps: every one of the \<open>2 * BLOOM_WORDS\<close> words
  and the single epoch record exist.
\<close>

definition bloom_bits_wf :: "bloom_bits_map \<Rightarrow> bool" where
  "bloom_bits_wf m \<longleftrightarrow> dom m = {i. unat i < 2 * BLOOM_WORDS}"

definition bloom_bits_init :: bloom_bits_map where
  "bloom_bits_init = array_map (2 * BLOOM_WORDS) \<lparr>bw_gen = 0, bw_bits = 0\<rparr>"

definition bloom_epoch_init :: bloom_epoch_map where
  "bloom_epoch_init = array_map 1 \<lparr>ep_gen = 0, ep_start_ns = 0\<rparr>"

definition valid_bit :: "u32 \<Rightarrow> bool" where
  "valid_bit b \<longleftrightarrow> unat b < BLOOM_WORDS * 64"

subsection \<open>Words and masks\<close>

lemma bloom_bits_init_wf: "bloom_bits_wf bloom_bits_init"
  by (simp add: bloom_bits_wf_def bloom_bits_init_def dom_array_map)

lemma BLOOM_BITMASK_mask: "BLOOM_BITMASK = mask 21"
  by (simp add: BLOOM_BITMASK_def BLOOM_WORDS_def mask_eq_exp_minus_1)

lemma valid_bit_index: "valid_bit (bloom_bit_index sa da sp dp q seed)"
proof -
  have "unat (x AND BLOOM_BITMASK) < 2 ^ 21" for x :: u32
    by (simp add: BLOOM_BITMASK_mask take_bit_eq_mask [symmetric] take_bit_eq_mod unat_mod)
  then show ?thesis by (simp add: valid_bit_def bloom_bit_index_def BLOOM_WORDS_def)
qed

lemma unat_bloom_idx:
  assumes "valid_bit b"
  shows "unat (bloom_idx b g) = unat g mod 2 * BLOOM_WORDS + unat b div 64"
proof -
  have hi: "unat (drop_bit 6 b) = unat b div 64"
    by (simp add: drop_bit_eq_div unat_div)
  have lt: "unat b div 64 < 32768"
    using assms by (simp add: valid_bit_def BLOOM_WORDS_def)
  have par: "unat (g AND 1) = unat g mod 2"
    by (simp add: and_one_eq unat_mod)
  have up: "unat (ucast x :: u64) = unat x" for x :: u32
    by (simp add: unsigned_ucast_eq take_bit_nat_eq_self unsigned_less [THEN order.strict_trans])
  have "unat ((g AND 1) * of_nat BLOOM_WORDS) = unat g mod 2 * 32768"
    by (simp add: unat_word_ariths par BLOOM_WORDS_def)
  then have "unat ((g AND 1) * of_nat BLOOM_WORDS + ucast (drop_bit 6 b)) =
      unat g mod 2 * 32768 + unat b div 64"
    using lt hi by (simp add: unat_word_ariths up)
  moreover have "unat g mod 2 * 32768 + unat b div 64 < 2 ^ 32" using lt by simp
  ultimately show ?thesis by (simp add: bloom_idx_def unsigned_ucast_eq take_bit_nat_eq_self BLOOM_WORDS_def)
qed

lemma bloom_mask_nonzero: "bloom_mask b \<noteq> 0"
proof -
  have "b AND 63 = take_bit 6 b"
    by (simp add: take_bit_eq_mask mask_eq_exp_minus_1)
  moreover have "unat (take_bit 6 b) < 64"
    by (simp add: take_bit_eq_mod unat_mod)
  ultimately have "bit (bloom_mask b) (unat (b AND 63))"
    by (simp add: bloom_mask_def bit_simps)
  then show ?thesis by auto
qed

lemma or_and_zeroD: "((x :: 'a::len word) OR y) AND k = 0 \<Longrightarrow> x AND k = 0"
  by (simp add: bit.conj_disj_distrib2 or_eq_0_iff)

subsection \<open>Laws of the two bit operations\<close>

text \<open>What setting a bit does to the word it falls in.\<close>

definition bloom_word_set :: "bloom_word \<Rightarrow> u64 \<Rightarrow> u64 \<Rightarrow> bloom_word" where
  "bloom_word_set w gen msk =
     \<lparr>bw_gen = gen, bw_bits = (if bw_gen w = gen then bw_bits w else 0) OR msk\<rparr>"

lemma bloom_set_bit_gen_eq:
  "bloom_set_bit_gen m b g = map_write m (bloom_idx b g) (\<lambda>w. bloom_word_set w g (bloom_mask b))"
  by (auto simp: bloom_set_bit_gen_def bpf_map_lookup_elem_def map_write_def bloom_word_set_def
      sync_defs split: option.split)

lemma bloom_test_bit_gen_iff:
  "bloom_test_bit_gen m b g \<longleftrightarrow>
     (\<exists>w. m (bloom_idx b g) = Some w \<and> bw_gen w = g \<and> bw_bits w AND bloom_mask b \<noteq> 0)"
  by (auto simp: bloom_test_bit_gen_def bpf_map_lookup_elem_def split: option.split)

lemma bloom_set_wf: "bloom_bits_wf m \<Longrightarrow> bloom_bits_wf (bloom_set_bit_gen m b g)"
  by (simp add: bloom_bits_wf_def bloom_set_bit_gen_eq)

lemma bloom_idx_in_dom:
  assumes "bloom_bits_wf m" and "valid_bit b"
  shows "\<exists>w. m (bloom_idx b g) = Some w"
proof -
  have "unat (bloom_idx b g) < 2 * BLOOM_WORDS"
    using assms(2) mod_less_divisor [of 2 "unat g"]
    by (auto simp: unat_bloom_idx valid_bit_def BLOOM_WORDS_def)
  with assms(1) show ?thesis by (auto simp: bloom_bits_wf_def)
qed

lemma bloom_test_set:
  assumes "bloom_bits_wf m" and "valid_bit b"
  shows "bloom_test_bit_gen (bloom_set_bit_gen m b g) b g"
proof -
  obtain w where "m (bloom_idx b g) = Some w" using bloom_idx_in_dom [OF assms] by blast
  moreover have "(x OR bloom_mask b) AND bloom_mask b \<noteq> 0" for x
    using bloom_mask_nonzero [of b] by (simp add: bit.conj_disj_distrib2 or_eq_0_iff)
  ultimately show ?thesis
    by (auto simp: bloom_test_bit_gen_iff bloom_set_bit_gen_eq map_write_same bloom_word_set_def)
qed

lemma bloom_test_set_cur:
  assumes "bloom_test_bit_gen m b g"
  shows "bloom_test_bit_gen (bloom_set_bit_gen m c g) b g"
proof (cases "bloom_idx c g = bloom_idx b g")
  case True
  with assms show ?thesis
    by (auto simp: bloom_test_bit_gen_iff bloom_set_bit_gen_eq map_write_same bloom_word_set_def
        dest: or_and_zeroD)
next
  case False
  with assms show ?thesis
    by (simp add: bloom_test_bit_gen_iff bloom_set_bit_gen_eq map_write_other)
qed

lemma parity_flip: "unat (g + 1 :: u64) mod 2 \<noteq> unat g mod 2"
proof -
  have "unat (g + 1) mod 2 = (unat g + 1) mod 2"
    by (simp add: unat_word_ariths mod_mod_cancel)
  then show ?thesis by presburger
qed

lemma half_unique: "a * n + x = b * n + y \<Longrightarrow> x < n \<Longrightarrow> y < n \<Longrightarrow> a = (b::nat)"
proof -
  assume eq: "a * n + x = b * n + y" and x: "x < n" and y: "y < n"
  from x have "(a * n + x) div n = a" by simp
  moreover from y have "(b * n + y) div n = b" by simp
  ultimately show "a = b" using eq by simp
qed

lemma bloom_idx_next:
  assumes "valid_bit b" and "valid_bit c"
  shows "bloom_idx c (g + 1) \<noteq> bloom_idx b g"
proof
  assume eq: "bloom_idx c (g + 1) = bloom_idx b g"
  have "unat c div 64 < BLOOM_WORDS" and "unat b div 64 < BLOOM_WORDS"
    using assms by (auto simp: valid_bit_def BLOOM_WORDS_def)
  moreover have "unat (g + 1) mod 2 * BLOOM_WORDS + unat c div 64
      = unat g mod 2 * BLOOM_WORDS + unat b div 64"
    using eq assms unat_bloom_idx by metis
  ultimately have "unat (g + 1) mod 2 = unat g mod 2" by (blast dest: half_unique)
  with parity_flip show False by blast
qed

lemma bloom_test_set_next:
  assumes "valid_bit b" and "valid_bit c" and "bloom_test_bit_gen m b g"
  shows "bloom_test_bit_gen (bloom_set_bit_gen m c (g + 1)) b g"
  using assms bloom_idx_next [OF assms(1,2), of g]
  by (auto simp: bloom_test_bit_gen_iff bloom_set_bit_gen_eq map_write_other)

subsection \<open>The interface of a two-generation filter\<close>

locale generation_filter =
  fixes test :: "'m \<Rightarrow> 'b \<Rightarrow> u64 \<Rightarrow> bool"
    and put :: "'m \<Rightarrow> 'b \<Rightarrow> u64 \<Rightarrow> 'm"
    and valid :: "'b \<Rightarrow> bool"
    and wf :: "'m \<Rightarrow> bool"
  assumes wf_put: "wf m \<Longrightarrow> wf (put m b g)"
    and test_put: "wf m \<Longrightarrow> valid b \<Longrightarrow> test (put m b g) b g"
    and test_put_cur: "test m b g \<Longrightarrow> test (put m c g) b g"
    and test_put_next: "valid b \<Longrightarrow> valid c \<Longrightarrow> test m b g \<Longrightarrow> test (put m c (g + 1)) b g"
begin

lemma wf_puts: "wf m \<Longrightarrow> wf (foldl (\<lambda>m b. put m b g) m bs)"
  by (induction bs arbitrary: m) (auto intro: wf_put)

lemma puts_keep_cur: "test m b g \<Longrightarrow> test (foldl (\<lambda>m c. put m c g) m cs) b g"
  by (induction cs arbitrary: m) (auto intro: test_put_cur)

lemma puts_keep_prev:
  "test m b g \<Longrightarrow> valid b \<Longrightarrow> \<forall>c\<in>set cs. valid c \<Longrightarrow>
     test (foldl (\<lambda>m c. put m c (g + 1)) m cs) b g"
  by (induction cs arbitrary: m) (auto intro: test_put_next)

lemma puts_test:
  assumes "wf m" and "\<forall>b\<in>set bs. valid b" and "b \<in> set bs"
  shows "test (foldl (\<lambda>m c. put m c g) m bs) b g"
  using assms
proof (induction bs arbitrary: m)
  case (Cons c cs)
  show ?case
  proof (cases "b = c")
    case True
    with Cons.prems have "test (put m c g) b g" by (simp add: test_put)
    then show ?thesis by (simp add: puts_keep_cur)
  next
    case False
    with Cons.prems have "b \<in> set cs" by simp
    with Cons.prems Cons.IH [of "put m c g"] show ?thesis by (simp add: wf_put)
  qed
qed simp

end

interpretation bloom: generation_filter bloom_test_bit_gen bloom_set_bit_gen valid_bit bloom_bits_wf
  by unfold_locales (auto intro: bloom_set_wf bloom_test_set bloom_test_set_cur bloom_test_set_next)

subsection \<open>Remembering a key\<close>

definition bloom_key_bits :: "u32 \<Rightarrow> u32 \<Rightarrow> u16 \<Rightarrow> u16 \<Rightarrow> u32 \<Rightarrow> u32 list" where
  "bloom_key_bits sa da sp dp q = map (bloom_bit_index sa da sp dp q) [0x12345678, 0x9e3779b9, 0xdeadbeef]"

lemma bloom_key_bits_valid: "\<forall>b\<in>set (bloom_key_bits sa da sp dp q). valid_bit b"
  by (simp add: bloom_key_bits_def valid_bit_index)

lemma bloom_test_and_set_eq:
  assumes "em 0 = Some e"
  shows "bloom_test_and_set em m sa da sp dp q =
     (\<forall>b\<in>set (bloom_key_bits sa da sp dp q).
         bloom_test_bit_gen m b (ep_gen e) \<or> bloom_test_bit_gen m b (ep_gen e - 1),
      foldl (\<lambda>m b. bloom_set_bit_gen m b (ep_gen e)) m (bloom_key_bits sa da sp dp q))"
  using assms
  by (simp add: bloom_test_and_set_def bpf_map_lookup_elem_def bloom_key_bits_def Let_def)

lemma bloom_test_and_set_wf:
  "bloom_bits_wf m \<Longrightarrow> bloom_bits_wf (snd (bloom_test_and_set em m sa da sp dp q))"
  by (cases "em 0")
    (simp_all add: bloom_test_and_set_eq bloom.wf_puts,
     simp add: bloom_test_and_set_def bpf_map_lookup_elem_def)

text \<open>
  \<open>bloom_remembers bs g t0 em m\<close>: the bits \<open>bs\<close> are set in generation \<open>g\<close>, which is still
  the current one, or the previous one since a roll that took place at or after time \<open>t0\<close>.
\<close>

definition bloom_remembers :: "u32 list \<Rightarrow> u64 \<Rightarrow> u64 \<Rightarrow> bloom_epoch_map \<Rightarrow> bloom_bits_map \<Rightarrow> bool" where
  "bloom_remembers bs g t0 em m \<longleftrightarrow>
     (\<exists>e. em 0 = Some e \<and> (ep_gen e = g \<or> ep_gen e = g + 1 \<and> t0 \<le> ep_start_ns e)) \<and>
     (\<forall>b\<in>set bs. valid_bit b \<and> bloom_test_bit_gen m b g)"

lemma roll_epoch_eq:
  assumes "em 0 = Some e"
  shows "bloom_maybe_roll_epoch now em =
     (if now > ep_start_ns e \<and> now - ep_start_ns e > BLOOM_EPOCH_NS
      then em(0 \<mapsto> \<lparr>ep_gen = ep_gen e + 1, ep_start_ns = now\<rparr>) else em)"
  using assms by (cases e) (auto simp: bloom_maybe_roll_epoch_def bpf_map_lookup_elem_def sync_defs)

lemma word_diff_mono: "(a::u64) \<le> b \<Longrightarrow> b \<le> c \<Longrightarrow> c - b \<le> c - a"
  by (simp add: word_le_nat_alt unat_sub)

lemma bloom_remembers_roll:
  assumes rem: "bloom_remembers bs g t0 em m"
    and win: "t0 \<le> now" "now - t0 \<le> BLOOM_EPOCH_NS"
  shows "bloom_remembers bs g t0 (bloom_maybe_roll_epoch now em) m"
proof -
  obtain e where e: "em 0 = Some e" and age: "ep_gen e = g \<or> ep_gen e = g + 1 \<and> t0 \<le> ep_start_ns e"
    using rem by (auto simp: bloom_remembers_def)
  show ?thesis
  proof (cases "now > ep_start_ns e \<and> now - ep_start_ns e > BLOOM_EPOCH_NS")
    case True
    have "\<not> t0 \<le> ep_start_ns e"
    proof
      assume "t0 \<le> ep_start_ns e"
      then have "now - ep_start_ns e \<le> now - t0" using True by (intro word_diff_mono) auto
      with True win show False by (meson leD le_less_trans)
    qed
    with age have "ep_gen e = g" by simp
    with True rem win show ?thesis by (simp add: bloom_remembers_def roll_epoch_eq [of em e, OF e])
  next
    case False
    with rem show ?thesis by (auto simp: roll_epoch_eq [of em e, OF e])
  qed
qed

lemma bloom_remembers_test_and_set:
  assumes "bloom_remembers bs g t0 em m"
  shows "bloom_remembers bs g t0 em (snd (bloom_test_and_set em m sa da sp dp q))"
proof -
  obtain e where e: "em 0 = Some e" and age: "ep_gen e = g \<or> ep_gen e = g + 1 \<and> t0 \<le> ep_start_ns e"
    using assms by (auto simp: bloom_remembers_def)
  let ?m = "foldl (\<lambda>m b. bloom_set_bit_gen m b (ep_gen e)) m (bloom_key_bits sa da sp dp q)"
  have "bloom_test_bit_gen ?m b g" if "b \<in> set bs" for b
  proof -
    from that assms have "valid_bit b" and "bloom_test_bit_gen m b g"
      by (auto simp: bloom_remembers_def)
    with age show ?thesis
      by (auto intro: bloom.puts_keep_cur bloom.puts_keep_prev [OF _ _ bloom_key_bits_valid])
  qed
  with assms e age show ?thesis by (auto simp: bloom_remembers_def bloom_test_and_set_eq)
qed

lemma bloom_remembers_seen:
  assumes "bloom_remembers (bloom_key_bits sa da sp dp q) g t0 em m"
  shows "fst (bloom_test_and_set em m sa da sp dp q)"
  using assms by (fastforce simp: bloom_remembers_def bloom_test_and_set_eq)

lemma bloom_test_and_set_remembers:
  assumes "bloom_bits_wf m" and "em 0 = Some e"
  shows "bloom_remembers (bloom_key_bits sa da sp dp q) (ep_gen e) t0 em
     (snd (bloom_test_and_set em m sa da sp dp q))"
  using assms bloom.puts_test [OF assms(1) bloom_key_bits_valid] bloom_key_bits_valid
  by (auto simp: bloom_remembers_def bloom_test_and_set_eq)

end
