(* ===== verification/Egress.thy ===== *)
theory Egress
  imports Bloom
begin

text \<open>
  The TC egress program of \<^verbatim>\<open>bpf/packet_loss.bpf.c\<close>: \<open>debug_inc\<close>, \<open>parse_ipv4\<close> and
  \<open>path_egress\<close> over the program's maps.

  The code the program calls that is not in the repository is the record \<open>kernel\<close>, an argument
  of the definitions: the byte order of the machine, the size and the reader of
  \<^verbatim>\<open>struct tcphdr\<close> (\<^verbatim>\<open>linux/tcp.h\<close>), the number \<^verbatim>\<open>IPPROTO_TCP\<close> (\<^verbatim>\<open>linux/in.h\<close>) and the
  lookup and update of the kernel's longest-prefix-match map. What one run of the program gets from its
  environment is the record \<open>invocation\<close>: the packet, the CPU it runs on, the clock
  (\<^verbatim>\<open>bpf_ktime_get_ns\<close>) and the answer of \<^verbatim>\<open>bpf_ringbuf_reserve\<close>, \<open>None\<close> for a full ring and
  otherwise the bytes already in the reserved slot, as the kernel does not clear it.

  A read outside the packet makes the whole run \<open>None\<close>.
\<close>

subsection \<open>Data\<close>

record sk_buff =
  sk_data :: bytes
  sk_protocol :: u32
  sk_ifindex :: u32

record tcphdr =
  th_source :: u16
  th_dest :: u16
  th_seq :: u32
  th_doff :: u8
  th_fin :: bool
  th_syn :: bool
  th_rst :: bool
  th_ack :: bool

type_synonym lpm_map = "u32 \<times> u32 \<rightharpoonup> u8"

record kernel =
  k_order :: byte_order
  k_tcphdr_size :: nat
  k_tcphdr :: "bytes \<Rightarrow> tcphdr"
  k_IPPROTO_TCP :: u8
  k_lpm_lookup :: "lpm_map \<Rightarrow> u32 \<times> u32 \<Rightarrow> u8 option"
  k_lpm_update :: "lpm_map \<Rightarrow> u32 \<times> u32 \<Rightarrow> u8 \<Rightarrow> lpm_map option"

record stats_event =
  ev_ifindex :: u32
  ev_dst_zone_id :: u8
  ev_is_retrans :: u8
  ev_pad :: u16

record invocation =
  iv_skb :: sk_buff
  iv_cpu :: nat
  iv_now :: u64
  iv_reserve :: "stats_event option"

type_synonym percpu_map = "nat \<Rightarrow> u32 \<rightharpoonup> u64"

record bpf_state =
  zone_lpm :: lpm_map
  src_zone_lpm :: lpm_map
  bloom_bits :: bloom_bits_map
  bloom_epoch :: bloom_epoch_map
  stats_rb :: "stats_event list"
  debug_tcp_payload :: percpu_map
  debug_tcp_zoned :: percpu_map
  debug_seen :: percpu_map
  debug_not_ipv4 :: percpu_map
  debug_not_tcp :: percpu_map
  debug_tcp_short :: percpu_map
  debug_tcp_pure_ack :: percpu_map
  debug_no_src_zone :: percpu_map
  debug_no_dst_zone :: percpu_map

record segment =
  sg_saddr :: u32
  sg_daddr :: u32
  sg_tcp :: tcphdr
  sg_payload_len :: u32

datatype drop_reason = Not_ipv4 | Not_tcp | Tcp_short | Tcp_pure_ack

subsection \<open>Operations\<close>

definition debug_inc :: "percpu_map \<Rightarrow> nat \<Rightarrow> percpu_map" where
  "debug_inc m cpu =
     (case bpf_map_lookup_elem (m cpu) 0 of
        None \<Rightarrow> m
      | Some v \<Rightarrow> m(cpu := (m cpu)(0 \<mapsto> snd (sync_fetch_and_add v 1))))"

text \<open>The result \<open>None\<close> inside the option is the return value \<^verbatim>\<open>-1\<close>, \<open>Some iph\<close> is \<^verbatim>\<open>0\<close> with \<^verbatim>\<open>*iph\<close> set.\<close>

definition parse_ipv4 :: "byte_order \<Rightarrow> sk_buff \<Rightarrow> nat option option" where
  "parse_ipv4 bo skb =
     (let data = sk_data skb in
      do {
        eth_ip \<leftarrow> (if sizeof ethhdr \<le> length data
                   then do { p \<leftarrow> load16 bo data (offsetof ethhdr ''h_proto'');
                             Some (p = bpf_htons bo True ETH_P_IP) }
                   else Some False);
        Some (if eth_ip
              then (if sizeof ethhdr + sizeof iphdr > length data then None else Some (sizeof ethhdr))
              else if sk_protocol skb = ucast (bpf_htons bo True ETH_P_IP)
              then (if sizeof iphdr > length data then None else Some 0)
              else None)
      })"

definition load_tcphdr :: "kernel \<Rightarrow> bytes \<Rightarrow> nat \<Rightarrow> tcphdr option" where
  "load_tcphdr k data off = map_option (k_tcphdr k) (load_bytes data off (k_tcphdr_size k))"

definition parse_tcp :: "kernel \<Rightarrow> bytes \<Rightarrow> nat \<Rightarrow> (drop_reason + segment) option" where
  "parse_tcp k data iph =
     do {
       proto \<leftarrow> load8 data (iph + offsetof iphdr ''protocol'');
       if proto \<noteq> k_IPPROTO_TCP k then Some (Inl Not_tcp)
       else do {
         b0 \<leftarrow> load8 data (iph + offsetof iphdr ''ihl_version'');
         let tcph = iph + unat (iphdr_ihl b0) * 4;
         if tcph + k_tcphdr_size k > length data then Some (Inl Tcp_short)
         else do {
           th \<leftarrow> load_tcphdr k data tcph;
           let tcp_hdr_len = (ucast (th_doff th) * 4 :: u16);
           if unat tcp_hdr_len < k_tcphdr_size k then Some (Inl Tcp_short)
           else do {
             tot \<leftarrow> load16 (k_order k) data (iph + offsetof iphdr ''tot_len'');
             let ip_total = bpf_ntohs (k_order k) False tot;
             let ip_hdr_len = (ucast (iphdr_ihl b0) * 4 :: u32);
             if (ucast ip_total :: u32) < ip_hdr_len + ucast tcp_hdr_len then Some (Inl Tcp_short)
             else do {
               let payload_len = ucast ip_total - ip_hdr_len - ucast tcp_hdr_len;
               if payload_len = 0 \<and> \<not> th_syn th \<and> \<not> th_fin th \<and> \<not> th_rst th
               then Some (Inl Tcp_pure_ack)
               else do {
                 saddr \<leftarrow> load32 (k_order k) data (iph + offsetof iphdr ''saddr'');
                 daddr \<leftarrow> load32 (k_order k) data (iph + offsetof iphdr ''daddr'');
                 Some (Inr \<lparr>sg_saddr = saddr, sg_daddr = daddr, sg_tcp = th,
                            sg_payload_len = payload_len\<rparr>)
               }}}}}}"

definition parse_segment :: "kernel \<Rightarrow> sk_buff \<Rightarrow> (drop_reason + segment) option" where
  "parse_segment k skb =
     do {
       r \<leftarrow> parse_ipv4 (k_order k) skb;
       (case r of None \<Rightarrow> Some (Inl Not_ipv4) | Some iph \<Rightarrow> parse_tcp k (sk_data skb) iph)
     }"

definition retrans_check :: "kernel \<Rightarrow> segment \<Rightarrow> bpf_state \<Rightarrow> bool \<times> bloom_bits_map" where
  "retrans_check k sg s =
     (let th = sg_tcp sg; seq = bpf_ntohl (k_order k) False (th_seq th) in
      if sg_payload_len sg > 0
      then bloom_test_and_set (bloom_epoch s) (bloom_bits s) (sg_saddr sg) (sg_daddr sg)
             (th_source th) (th_dest th) (drop_bit 4 seq)
      else if th_syn th \<and> \<not> th_ack th
      then bloom_test_and_set (bloom_epoch s) (bloom_bits s) (sg_saddr sg) (sg_daddr sg)
             (th_source th) (th_dest th) seq
      else (False, bloom_bits s))"

definition account_segment :: "kernel \<Rightarrow> invocation \<Rightarrow> segment \<Rightarrow> u8 \<Rightarrow> bpf_state \<Rightarrow> bpf_state" where
  "account_segment k iv sg zone_id s =
     (let s = s\<lparr>debug_tcp_zoned := debug_inc (debug_tcp_zoned s) (iv_cpu iv)\<rparr>;
          s = s\<lparr>bloom_epoch := bloom_maybe_roll_epoch (iv_now iv) (bloom_epoch s)\<rparr>;
          (is_retrans, bits) = retrans_check k sg s;
          s = s\<lparr>bloom_bits := bits\<rparr>
      in case iv_reserve iv of
           None \<Rightarrow> s
         | Some evt \<Rightarrow>
             s\<lparr>stats_rb := stats_rb s @
                 [evt\<lparr>ev_ifindex := sk_ifindex (iv_skb iv), ev_dst_zone_id := zone_id,
                     ev_is_retrans := (if is_retrans then 1 else 0)\<rparr>]\<rparr>)"

definition path_egress :: "kernel \<Rightarrow> invocation \<Rightarrow> bpf_state \<Rightarrow> (tc_action \<times> bpf_state) option" where
  "path_egress k iv s =
     do {
       let cpu = iv_cpu iv;
       let s = s\<lparr>debug_seen := debug_inc (debug_seen s) cpu\<rparr>;
       r \<leftarrow> parse_segment k (iv_skb iv);
       Some (TC_ACT_UNSPEC,
         case r of
           Inl Not_ipv4 \<Rightarrow> s\<lparr>debug_not_ipv4 := debug_inc (debug_not_ipv4 s) cpu\<rparr>
         | Inl Not_tcp \<Rightarrow> s\<lparr>debug_not_tcp := debug_inc (debug_not_tcp s) cpu\<rparr>
         | Inl Tcp_short \<Rightarrow> s\<lparr>debug_tcp_short := debug_inc (debug_tcp_short s) cpu\<rparr>
         | Inl Tcp_pure_ack \<Rightarrow> s\<lparr>debug_tcp_pure_ack := debug_inc (debug_tcp_pure_ack s) cpu\<rparr>
         | Inr sg \<Rightarrow>
             let s = s\<lparr>debug_tcp_payload := debug_inc (debug_tcp_payload s) cpu\<rparr> in
             (case k_lpm_lookup k (src_zone_lpm s) (32, sg_saddr sg) of
                None \<Rightarrow> s\<lparr>debug_no_src_zone := debug_inc (debug_no_src_zone s) cpu\<rparr>
              | Some src_zone \<Rightarrow>
                  (case k_lpm_lookup k (zone_lpm s) (32, sg_daddr sg) of
                     None \<Rightarrow> s\<lparr>debug_no_dst_zone := debug_inc (debug_no_dst_zone s) cpu\<rparr>
                   | Some zone_id \<Rightarrow> account_segment k iv sg zone_id s)))
     }"

fun run_egress :: "kernel \<Rightarrow> invocation list \<Rightarrow> bpf_state \<Rightarrow> bpf_state option" where
  "run_egress k [] s = Some s"
| "run_egress k (iv # ivs) s =
     (case path_egress k iv s of None \<Rightarrow> None | Some (_, s') \<Rightarrow> run_egress k ivs s')"

text \<open>The maps as they are when the program is loaded: the arrays exist and hold zeroes.\<close>

definition bpf_init :: "lpm_map \<Rightarrow> lpm_map \<Rightarrow> bpf_state" where
  "bpf_init dst src =
     \<lparr>zone_lpm = dst, src_zone_lpm = src, bloom_bits = bloom_bits_init,
      bloom_epoch = bloom_epoch_init, stats_rb = [],
      debug_tcp_payload = (\<lambda>_. array_map 1 0), debug_tcp_zoned = (\<lambda>_. array_map 1 0),
      debug_seen = (\<lambda>_. array_map 1 0), debug_not_ipv4 = (\<lambda>_. array_map 1 0),
      debug_not_tcp = (\<lambda>_. array_map 1 0), debug_tcp_short = (\<lambda>_. array_map 1 0),
      debug_tcp_pure_ack = (\<lambda>_. array_map 1 0), debug_no_src_zone = (\<lambda>_. array_map 1 0),
      debug_no_dst_zone = (\<lambda>_. array_map 1 0)\<rparr>"

subsection \<open>No read leaves the packet\<close>

lemma parse_ipv4_total:
  "\<exists>r. parse_ipv4 bo skb = Some r \<and>
       (\<forall>iph. r = Some iph \<longrightarrow> iph + sizeof iphdr \<le> length (sk_data skb))"
  by (auto simp: parse_ipv4_def Let_def load_simps split: if_splits)

lemma parse_tcp_total:
  assumes "iph + sizeof iphdr \<le> length data"
  shows "\<exists>r. parse_tcp k data iph = Some r"
  using assms by (auto simp: parse_tcp_def Let_def load_tcphdr_def load_simps)

lemma parse_segment_total: "\<exists>r. parse_segment k skb = Some r"
proof -
  obtain r where r: "parse_ipv4 (k_order k) skb = Some r"
    and len: "\<forall>iph. r = Some iph \<longrightarrow> iph + sizeof iphdr \<le> length (sk_data skb)"
    using parse_ipv4_total by blast
  show ?thesis
    using r len parse_tcp_total by (cases r) (simp_all add: parse_segment_def)
qed

text \<open>
  C11. On every packet, whatever its bytes, its length and the state of the maps, the program
  reads no byte outside \<^verbatim>\<open>[data, data_end)\<close>, comes to its end and returns \<^verbatim>\<open>TC_ACT_UNSPEC\<close>:
  it never faults, drops, redirects or delays traffic.
\<close>

theorem path_egress_safe: "\<exists>s'. path_egress k iv s = Some (TC_ACT_UNSPEC, s')"
  using parse_segment_total [of k "iv_skb iv"] by (auto simp: path_egress_def Let_def)

lemma path_egress_result:
  "path_egress k iv s = Some (a, s') \<Longrightarrow> a = TC_ACT_UNSPEC"
  using parse_segment_total [of k "iv_skb iv"] by (auto simp: path_egress_def Let_def)

lemma run_egress_total: "\<exists>s'. run_egress k ivs s = Some s'"
proof (induction ivs arbitrary: s)
  case (Cons iv ivs)
  obtain a s1 where "path_egress k iv s = Some (a, s1)"
    using parse_segment_total [of k "iv_skb iv"] by (auto simp: path_egress_def Let_def)
  with Cons show ?case by simp
qed simp

subsection \<open>Invariants of the maps\<close>

definition counter :: "percpu_map \<Rightarrow> nat \<Rightarrow> u64" where
  "counter m cpu = (case m cpu 0 of None \<Rightarrow> 0 | Some v \<Rightarrow> v)"

definition present :: "percpu_map \<Rightarrow> bool" where
  "present m \<longleftrightarrow> (\<forall>cpu. m cpu 0 \<noteq> None)"

definition counters_wf :: "bpf_state \<Rightarrow> bool" where
  "counters_wf s \<longleftrightarrow>
     present (debug_seen s) \<and> present (debug_not_ipv4 s) \<and> present (debug_not_tcp s) \<and>
     present (debug_tcp_short s) \<and> present (debug_tcp_pure_ack s) \<and>
     present (debug_tcp_payload s) \<and> present (debug_no_src_zone s) \<and>
     present (debug_no_dst_zone s) \<and> present (debug_tcp_zoned s)"

definition filter_wf :: "bpf_state \<Rightarrow> bool" where
  "filter_wf s \<longleftrightarrow> bloom_bits_wf (bloom_bits s) \<and> (\<exists>e. bloom_epoch s 0 = Some e)"

definition counters_balanced :: "bpf_state \<Rightarrow> bool" where
  "counters_balanced s \<longleftrightarrow>
     (\<forall>cpu. counter (debug_seen s) cpu =
         counter (debug_not_ipv4 s) cpu + counter (debug_not_tcp s) cpu +
         counter (debug_tcp_short s) cpu + counter (debug_tcp_pure_ack s) cpu +
         counter (debug_tcp_payload s) cpu \<and>
       counter (debug_tcp_payload s) cpu =
         counter (debug_no_src_zone s) cpu + counter (debug_no_dst_zone s) cpu +
         counter (debug_tcp_zoned s) cpu)"

lemma present_inc [simp]: "present m \<Longrightarrow> present (debug_inc m c)"
  by (auto simp: present_def debug_inc_def bpf_map_lookup_elem_def split: option.split)

lemma counter_inc [simp]:
  assumes "present m"
  shows "counter (debug_inc m c) cpu = counter m cpu + (if cpu = c then 1 else 0)"
proof -
  obtain v where "m c 0 = Some v" using assms by (auto simp: present_def)
  then show ?thesis by (simp add: counter_def debug_inc_def bpf_map_lookup_elem_def sync_defs)
qed

lemma roll_epoch_present: "\<exists>e. em 0 = Some e \<Longrightarrow> \<exists>e. bloom_maybe_roll_epoch now em 0 = Some e"
  using roll_epoch_eq by fastforce

lemma retrans_check_wf: "bloom_bits_wf (bloom_bits s) \<Longrightarrow> bloom_bits_wf (snd (retrans_check k sg s))"
  by (simp add: retrans_check_def Let_def bloom_test_and_set_wf)

subsection \<open>What one run does, by the class of the packet\<close>

datatype packet_class = Dropped drop_reason | No_src_zone | No_dst_zone | Zoned segment u8

definition classify :: "kernel \<Rightarrow> bpf_state \<Rightarrow> sk_buff \<Rightarrow> packet_class" where
  "classify k s skb =
     (case parse_segment k skb of
        None \<Rightarrow> Dropped Not_ipv4
      | Some (Inl d) \<Rightarrow> Dropped d
      | Some (Inr sg) \<Rightarrow>
          (case k_lpm_lookup k (src_zone_lpm s) (32, sg_saddr sg) of
             None \<Rightarrow> No_src_zone
           | Some _ \<Rightarrow>
               (case k_lpm_lookup k (zone_lpm s) (32, sg_daddr sg) of
                  None \<Rightarrow> No_dst_zone
                | Some z \<Rightarrow> Zoned sg z)))"

definition count_class :: "nat \<Rightarrow> packet_class \<Rightarrow> bpf_state \<Rightarrow> bpf_state" where
  "count_class cpu c s =
     (let s = s\<lparr>debug_seen := debug_inc (debug_seen s) cpu\<rparr>;
          p = s\<lparr>debug_tcp_payload := debug_inc (debug_tcp_payload s) cpu\<rparr>
      in case c of
           Dropped Not_ipv4 \<Rightarrow> s\<lparr>debug_not_ipv4 := debug_inc (debug_not_ipv4 s) cpu\<rparr>
         | Dropped Not_tcp \<Rightarrow> s\<lparr>debug_not_tcp := debug_inc (debug_not_tcp s) cpu\<rparr>
         | Dropped Tcp_short \<Rightarrow> s\<lparr>debug_tcp_short := debug_inc (debug_tcp_short s) cpu\<rparr>
         | Dropped Tcp_pure_ack \<Rightarrow> s\<lparr>debug_tcp_pure_ack := debug_inc (debug_tcp_pure_ack s) cpu\<rparr>
         | No_src_zone \<Rightarrow> p\<lparr>debug_no_src_zone := debug_inc (debug_no_src_zone s) cpu\<rparr>
         | No_dst_zone \<Rightarrow> p\<lparr>debug_no_dst_zone := debug_inc (debug_no_dst_zone s) cpu\<rparr>
         | Zoned sg z \<Rightarrow> p\<lparr>debug_tcp_zoned := debug_inc (debug_tcp_zoned s) cpu\<rparr>)"

definition event_of :: "invocation \<Rightarrow> u8 \<Rightarrow> bool \<Rightarrow> stats_event list" where
  "event_of iv z r =
     (case iv_reserve iv of
        None \<Rightarrow> []
      | Some evt \<Rightarrow> [\<lparr>ev_ifindex = sk_ifindex (iv_skb iv), ev_dst_zone_id = z,
                       ev_is_retrans = (if r then 1 else 0), ev_pad = ev_pad evt\<rparr>])"

definition filter_step :: "kernel \<Rightarrow> invocation \<Rightarrow> segment \<Rightarrow> u8 \<Rightarrow> bpf_state \<Rightarrow> bpf_state" where
  "filter_step k iv sg z s =
     (let em = bloom_maybe_roll_epoch (iv_now iv) (bloom_epoch s);
          (r, m) = retrans_check k sg (s\<lparr>bloom_epoch := em\<rparr>)
      in s\<lparr>bloom_bits := m, bloom_epoch := em, stats_rb := stats_rb s @ event_of iv z r\<rparr>)"

definition egress_effect :: "kernel \<Rightarrow> invocation \<Rightarrow> bpf_state \<Rightarrow> bpf_state" where
  "egress_effect k iv s =
     (let c = classify k s (iv_skb iv); t = count_class (iv_cpu iv) c s
      in case c of Zoned sg z \<Rightarrow> filter_step k iv sg z t | _ \<Rightarrow> t)"

lemma retrans_check_cong:
  "bloom_epoch s = bloom_epoch t \<Longrightarrow> bloom_bits s = bloom_bits t \<Longrightarrow> retrans_check k sg s = retrans_check k sg t"
  by (simp add: retrans_check_def Let_def)

lemma account_segment_eq:
  "account_segment k iv sg z s =
     filter_step k iv sg z (s\<lparr>debug_tcp_zoned := debug_inc (debug_tcp_zoned s) (iv_cpu iv)\<rparr>)"
  by (cases s)
    (auto simp: account_segment_def filter_step_def event_of_def Let_def
      split: prod.split option.split)

lemma path_egress_eq: "path_egress k iv s = Some (TC_ACT_UNSPEC, egress_effect k iv s)"
proof -
  obtain r where r: "parse_segment k (iv_skb iv) = Some r"
    using parse_segment_total by blast
  show ?thesis
  proof (cases r)
    case (Inl d)
    with r show ?thesis
      by (cases d) (simp_all add: path_egress_def egress_effect_def classify_def count_class_def Let_def)
  next
    case (Inr sg)
    with r show ?thesis
      by (simp add: path_egress_def egress_effect_def classify_def count_class_def Let_def
          account_segment_eq split: option.split)
  qed
qed

lemma run_egress_eq: "run_egress k ivs s = Some (foldl (\<lambda>s iv. egress_effect k iv s) s ivs)"
  by (induction ivs arbitrary: s) (simp_all add: path_egress_eq)

text \<open>Which fields the two halves of a run change.\<close>

lemma count_class_frame [simp]:
  "zone_lpm (count_class cpu c s) = zone_lpm s"
  "src_zone_lpm (count_class cpu c s) = src_zone_lpm s"
  "bloom_bits (count_class cpu c s) = bloom_bits s"
  "bloom_epoch (count_class cpu c s) = bloom_epoch s"
  "stats_rb (count_class cpu c s) = stats_rb s"
  by (auto simp: count_class_def Let_def split: packet_class.split drop_reason.split)

lemma filter_step_frame [simp]:
  "zone_lpm (filter_step k iv sg z s) = zone_lpm s"
  "src_zone_lpm (filter_step k iv sg z s) = src_zone_lpm s"
  "bloom_epoch (filter_step k iv sg z s) = bloom_maybe_roll_epoch (iv_now iv) (bloom_epoch s)"
  by (simp_all add: filter_step_def Let_def split: prod.split)

lemma filter_step_counters [simp]:
  "debug_seen (filter_step k iv sg z s) = debug_seen s"
  "debug_not_ipv4 (filter_step k iv sg z s) = debug_not_ipv4 s"
  "debug_not_tcp (filter_step k iv sg z s) = debug_not_tcp s"
  "debug_tcp_short (filter_step k iv sg z s) = debug_tcp_short s"
  "debug_tcp_pure_ack (filter_step k iv sg z s) = debug_tcp_pure_ack s"
  "debug_tcp_payload (filter_step k iv sg z s) = debug_tcp_payload s"
  "debug_no_src_zone (filter_step k iv sg z s) = debug_no_src_zone s"
  "debug_no_dst_zone (filter_step k iv sg z s) = debug_no_dst_zone s"
  "debug_tcp_zoned (filter_step k iv sg z s) = debug_tcp_zoned s"
  by (simp_all add: filter_step_def Let_def split: prod.split)

lemma egress_effect_lpm [simp]:
  "zone_lpm (egress_effect k iv s) = zone_lpm s"
  "src_zone_lpm (egress_effect k iv s) = src_zone_lpm s"
  by (simp_all add: egress_effect_def Let_def split: packet_class.split)

lemma classify_cong:
  "zone_lpm s = zone_lpm t \<Longrightarrow> src_zone_lpm s = src_zone_lpm t \<Longrightarrow> classify k s skb = classify k t skb"
  by (simp add: classify_def split: option.split sum.split)

lemma foldl_egress_lpm [simp]:
  "zone_lpm (foldl (\<lambda>s iv. egress_effect k iv s) s ivs) = zone_lpm s"
  "src_zone_lpm (foldl (\<lambda>s iv. egress_effect k iv s) s ivs) = src_zone_lpm s"
  by (induction ivs arbitrary: s) simp_all

end
