(* ===== verification/Net.thy ===== *)
theory Net
  imports Prelude
begin

text \<open>
  What the Go sources use of the packages \<^verbatim>\<open>net\<close> and \<^verbatim>\<open>net/netip\<close>: IP addresses as 4 or 16 bytes,
  masks, \<^verbatim>\<open>IP.To4\<close>, \<^verbatim>\<open>IPMask.Size\<close> and \<^verbatim>\<open>net.ParseCIDR\<close> with the parsers of dotted IPv4 and of
  IPv6 addresses it calls. Bytes of an address are in network order.
\<close>

record ipnet =
  net_ip :: bytes
  net_mask :: bytes

subsection \<open>IP.To4, IPMask.Size, CIDRMask, IP.Mask\<close>

definition v4in6_prefix :: bytes where
  "v4in6_prefix = replicate 10 0 @ [0xff, 0xff]"

definition To4 :: "bytes \<Rightarrow> bytes option" where
  "To4 ip =
     (if length ip = 4 then Some ip
      else if length ip = 16 \<and> take 12 ip = v4in6_prefix then Some (drop 12 ip)
      else None)"

definition mask_bits :: "bytes \<Rightarrow> bool list" where
  "mask_bits m = concat (map (\<lambda>b. map (bit b) (rev [0..<8])) m)"

text \<open>\<open>(ones, bits)\<close> of a mask that is ones followed by zeroes, \<open>(0, 0)\<close> of any other.\<close>

definition Mask_Size :: "bytes \<Rightarrow> nat \<times> nat" where
  "Mask_Size m =
     (let bs = mask_bits m; n = length (takeWhile (\<lambda>b. b) bs) in
      if True \<in> set (drop n bs) then (0, 0) else (n, length bs))"

fun cidr_mask :: "nat \<Rightarrow> nat \<Rightarrow> bytes" where
  "cidr_mask 0 n = []"
| "cidr_mask (Suc l) n =
     (if 8 \<le> n then 0xff # cidr_mask l (n - 8) else NOT (mask (8 - n)) # cidr_mask l 0)"

definition Mask :: "bytes \<Rightarrow> bytes \<Rightarrow> bytes" where
  "Mask ip m =
     (let ip = (if length m = 4 \<and> length ip = 16 \<and> take 12 ip = v4in6_prefix then drop 12 ip else ip)
      in map2 (AND) ip m)"

subsection \<open>netip.ParseAddr\<close>

definition is_digit :: "char \<Rightarrow> bool" where
  "is_digit c \<longleftrightarrow> (48::nat) \<le> of_char c \<and> of_char c \<le> (57::nat)"

definition digit_val :: "char \<Rightarrow> nat" where
  "digit_val c = of_char c - 48"

definition hex_val :: "char \<Rightarrow> nat option" where
  "hex_val c =
     (let v = of_char c :: nat in
      if is_digit c then Some (digit_val c)
      else if 97 \<le> v \<and> v \<le> 102 then Some (v - 87)
      else if 65 \<le> v \<and> v \<le> 70 then Some (v - 55)
      else None)"

text \<open>
  \<open>parse_ipv4_fields s first val digLen fields\<close>: the loop of \<^verbatim>\<open>parseIPv4Fields\<close>; \<open>prev_dot\<close> holds
  at the start and right after a dot, where another dot or the end is an error.
\<close>

fun parse_ipv4_fields :: "string \<Rightarrow> bool \<Rightarrow> nat \<Rightarrow> nat \<Rightarrow> bytes \<Rightarrow> bytes option" where
  "parse_ipv4_fields [] prev_dot v dl fs =
     (if length fs < 3 then None else Some (fs @ [of_nat v]))"
| "parse_ipv4_fields (c # cs) prev_dot v dl fs =
     (if is_digit c
      then (if dl = 1 \<and> v = 0 then None
            else let v' = v * 10 + digit_val c in
                 if 255 < v' then None else parse_ipv4_fields cs False v' (Suc dl) fs)
      else if c = CHR ''.''
      then (if prev_dot \<or> cs = [] then None
            else if length fs = 3 then None
            else parse_ipv4_fields cs True 0 0 (fs @ [of_nat v]))
      else None)"

definition parse_ipv4_addr :: "string \<Rightarrow> bytes option" where
  "parse_ipv4_addr s = parse_ipv4_fields s True 0 0 []"

text \<open>The digits of one group of an IPv6 address: its value, their number and the rest.\<close>

fun parse_hex_group :: "string \<Rightarrow> nat \<Rightarrow> nat \<Rightarrow> (nat \<times> nat \<times> string) option" where
  "parse_hex_group [] acc off = Some (acc, off, [])"
| "parse_hex_group (c # cs) acc off =
     (case hex_val c of
        None \<Rightarrow> Some (acc, off, c # cs)
      | Some d \<Rightarrow> if 3 < off then None else parse_hex_group cs (acc * 16 + d) (Suc off))"

text \<open>
  The loop of \<^verbatim>\<open>parseIPv6\<close>: \<open>ip\<close> is what has been written so far, \<open>ell\<close> the position of an
  ellipsis. The fuel is the number of groups still allowed, so 8 from the start, as each round
  writes 2 of the 16 bytes.
\<close>

fun parse_ipv6_loop :: "nat \<Rightarrow> string \<Rightarrow> bytes \<Rightarrow> nat option \<Rightarrow> (bytes \<times> nat option \<times> string) option" where
  "parse_ipv6_loop 0 s ip ell = Some (ip, ell, s)"
| "parse_ipv6_loop (Suc n) s ip ell =
     (case parse_hex_group s 0 0 of
        None \<Rightarrow> None
      | Some (acc, off, rest) \<Rightarrow>
          if off = 0 then None
          else if rest \<noteq> [] \<and> hd rest = CHR ''.''
          then (if ell = None \<and> length ip \<noteq> 12 then None
                else if 16 < length ip + 4 then None
                else case parse_ipv4_addr s of
                       None \<Rightarrow> None
                     | Some v4 \<Rightarrow> Some (ip @ v4, ell, []))
          else
            let ip' = ip @ [of_nat (acc div 256), of_nat (acc mod 256)] in
            (case rest of
               [] \<Rightarrow> Some (ip', ell, [])
             | c # rest1 \<Rightarrow>
                 if c \<noteq> CHR '':'' then None
                 else (case rest1 of
                         [] \<Rightarrow> None
                       | d # rest2 \<Rightarrow>
                           if d = CHR '':''
                           then (if ell \<noteq> None then None
                                 else if rest2 = [] then Some (ip', Some (length ip'), [])
                                 else parse_ipv6_loop n rest2 ip' (Some (length ip')))
                           else parse_ipv6_loop n rest1 ip' ell)))"

definition parse_ipv6_addr :: "string \<Rightarrow> bytes option" where
  "parse_ipv6_addr s =
     (if s = ''::'' then Some (replicate 16 0)
      else
        let lead = (take 2 s = ''::'');
            s = (if lead then drop 2 s else s)
        in case parse_ipv6_loop 8 s [] (if lead then Some 0 else None) of
             None \<Rightarrow> None
           | Some (ip, ell, rest) \<Rightarrow>
               if rest \<noteq> [] then None
               else if length ip < 16
               then (case ell of
                       None \<Rightarrow> None
                     | Some e \<Rightarrow> Some (take e ip @ replicate (16 - length ip) 0 @ drop e ip))
               else (if ell \<noteq> None then None else Some ip))"

text \<open>
  \<^verbatim>\<open>ParseAddr\<close> picks the parser by the first of the characters \<^verbatim>\<open>.\<close>, \<^verbatim>\<open>:\<close> and \<^verbatim>\<open>%\<close>. \<^verbatim>\<open>ParseCIDR\<close>
  refuses an address with a zone, so a percent sign anywhere is an error here.
\<close>

fun first_sep :: "string \<Rightarrow> char option" where
  "first_sep [] = None"
| "first_sep (c # cs) = (if c = CHR ''.'' \<or> c = CHR '':'' \<or> c = CHR ''%'' then Some c else first_sep cs)"

definition ParseAddr :: "string \<Rightarrow> bytes option" where
  "ParseAddr s =
     (if CHR ''%'' \<in> set s then None
      else case first_sep s of
             None \<Rightarrow> None
           | Some c \<Rightarrow> if c = CHR ''.'' then parse_ipv4_addr s else parse_ipv6_addr s)"

subsection \<open>net.ParseCIDR\<close>

text \<open>\<^verbatim>\<open>dtoi\<close>: a non-empty run of digits below \<^verbatim>\<open>0xFFFFFF\<close>, to the end of the string.\<close>

fun dtoi_from :: "nat \<Rightarrow> string \<Rightarrow> nat option" where
  "dtoi_from n [] = Some n"
| "dtoi_from n (c # cs) =
     (if is_digit c
      then let n' = n * 10 + digit_val c in if 0xFFFFFF \<le> n' then None else dtoi_from n' cs
      else None)"

definition dtoi :: "string \<Rightarrow> nat option" where
  "dtoi s = (if s = [] then None else dtoi_from 0 s)"

definition ParseCIDR :: "string \<Rightarrow> ipnet option" where
  "ParseCIDR s =
     (let addr = takeWhile (\<lambda>c. c \<noteq> CHR ''/'') s; rest = dropWhile (\<lambda>c. c \<noteq> CHR ''/'') s in
      case rest of
        [] \<Rightarrow> None
      | _ # msk \<Rightarrow>
          (case ParseAddr addr of
             None \<Rightarrow> None
           | Some ip \<Rightarrow>
               (case dtoi msk of
                  None \<Rightarrow> None
                | Some n \<Rightarrow>
                    if 8 * length ip < n then None
                    else let m = cidr_mask (length ip) n in
                         Some \<lparr>net_ip = Mask ip m, net_mask = m\<rparr>)))"

lemma cidr_mask_4: "cidr_mask 4 = cidr_mask (Suc (Suc (Suc (Suc 0))))"
  by (simp add: eval_nat_numeral)

lemmas net_eval =
  ParseCIDR_def ParseAddr_def parse_ipv4_addr_def is_digit_def digit_val_def dtoi_def Mask_def
  mask_eq_exp_minus_1 Let_def cidr_mask_4

subsection \<open>The shape of a parsed network\<close>

lemma parse_ipv4_fields_length:
  "parse_ipv4_fields s p v d fs = Some ip \<Longrightarrow> length fs \<le> 3 \<Longrightarrow> length ip = 4"
  by (induction s p v d fs rule: parse_ipv4_fields.induct) (auto simp: Let_def split: if_splits)

lemma parse_ipv4_addr_length: "parse_ipv4_addr s = Some ip \<Longrightarrow> length ip = 4"
  by (auto simp: parse_ipv4_addr_def intro: parse_ipv4_fields_length)

text \<open>No round of the IPv6 loop writes past the 16 bytes, and an ellipsis lies within what is written.\<close>

lemma parse_ipv6_loop_length:
  assumes "parse_ipv6_loop n s ip ell = Some (ip', ell', rest)"
    and "length ip + 2 * n \<le> 16" and "\<forall>e. ell = Some e \<longrightarrow> e \<le> length ip"
  shows "length ip' \<le> 16 \<and> (\<forall>e. ell' = Some e \<longrightarrow> e \<le> length ip')"
  using assms
proof (induction n s ip ell rule: parse_ipv6_loop.induct)
  case (2 n s ip ell)
  obtain acc off r where hg: "parse_hex_group s 0 0 = Some (acc, off, r)" and off: "off \<noteq> 0"
    using "2.prems"(1) by (cases "parse_hex_group s 0 0") (auto split: if_splits)
  let ?ip = "ip @ [of_nat (acc div 256), of_nat (acc mod 256)]"
  show ?case
  proof (cases "r \<noteq> [] \<and> hd r = CHR ''.''")
    case True
    with "2.prems" hg off show ?thesis
      by (auto split: option.splits if_splits dest: parse_ipv4_addr_length)
  next
    case dot: False
    show ?thesis
    proof (cases "\<exists>d r2. r = CHR '':'' # d # r2")
      case False
      with "2.prems" hg off dot show ?thesis by (auto simp: Let_def split: list.splits if_splits)
    next
      case True
      then obtain d r2 where r: "r = CHR '':'' # d # r2" by blast
      show ?thesis
      proof (cases "d = CHR '':''")
        case True
        with "2.prems" hg off r "2.IH"(1) [OF hg refl refl off _ refl r] show ?thesis
          by (auto simp: Let_def split: if_splits)
      next
        case False
        have "\<forall>e. ell = Some e \<longrightarrow> e \<le> length ?ip" using "2.prems"(3) by auto
        with False "2.prems" hg off r "2.IH"(2) [OF hg refl refl off _ refl r] show ?thesis by (auto simp: Let_def)
      qed
    qed
  qed
qed simp

lemma parse_ipv6_addr_length: "parse_ipv6_addr s = Some ip \<Longrightarrow> length ip = 16"
  using parse_ipv6_loop_length [of 8]
  by (auto simp: parse_ipv6_addr_def Let_def split: if_splits option.splits) fastforce+

lemma ParseAddr_length: "ParseAddr s = Some ip \<Longrightarrow> length ip = 4 \<or> length ip = 16"
  by (auto simp: ParseAddr_def split: if_splits option.splits
      dest: parse_ipv4_addr_length parse_ipv6_addr_length)

lemma length_cidr_mask [simp]: "length (cidr_mask l n) = l"
  by (induction l n rule: cidr_mask.induct) auto

lemma byte_ff_bits: "map (bit (0xff :: u8)) (rev [0..<8]) = replicate 8 True"
  by code_simp

lemma byte_not_mask_bits:
  assumes "n < 8"
  shows "map (bit (NOT (mask (8 - n)) :: u8)) (rev [0..<8]) = replicate n True @ replicate (8 - n) False"
proof -
  from assms consider "n = 0" | "n = 1" | "n = 2" | "n = 3" | "n = 4" | "n = 5" | "n = 6" | "n = 7"
    by linarith
  then show ?thesis
    by cases (simp_all add: upt_rec bit_simps eval_nat_numeral)
qed

lemma mask_bits_cidr_mask:
  "n \<le> 8 * l \<Longrightarrow> mask_bits (cidr_mask l n) = replicate n True @ replicate (8 * l - n) False"
proof (induction l arbitrary: n)
  case 0
  then show ?case by (simp add: mask_bits_def)
next
  case (Suc l)
  show ?case
  proof (cases "8 \<le> n")
    case True
    with Suc.IH [of "n - 8"] Suc.prems show ?thesis
      by (simp add: mask_bits_def byte_ff_bits replicate_add [symmetric] append_assoc [symmetric]
          del: append_assoc)
  next
    case False
    with Suc.IH [of 0] byte_not_mask_bits [of n] show ?thesis
      by (simp add: mask_bits_def replicate_add [symmetric])
  qed
qed

lemma Mask_Size_cidr_mask: "n \<le> 8 * l \<Longrightarrow> Mask_Size (cidr_mask l n) = (n, 8 * l)"
proof -
  assume n: "n \<le> 8 * l"
  have tw: "takeWhile (\<lambda>b. b) (replicate k True @ replicate m False) = replicate k True" for k m
    by (cases m) (induction k; simp)+
  show ?thesis using n by (simp add: Mask_Size_def mask_bits_cidr_mask Let_def tw)
qed

lemma ParseCIDR_shape:
  assumes "ParseCIDR s = Some n"
  shows "length (net_ip n) = length (net_mask n) \<and> (length (net_ip n) = 4 \<or> length (net_ip n) = 16)"
    and "fst (Mask_Size (net_mask n)) \<le> 8 * length (net_ip n)"
proof -
  obtain ip k where ip: "length ip = 4 \<or> length ip = 16" and k: "k \<le> 8 * length ip"
    and n: "n = \<lparr>net_ip = Mask ip (cidr_mask (length ip) k), net_mask = cidr_mask (length ip) k\<rparr>"
  proof -
    obtain ip k where "ParseAddr (takeWhile (\<lambda>c. c \<noteq> CHR ''/'') s) = Some ip" and k: "k \<le> 8 * length ip"
      and n: "n = \<lparr>net_ip = Mask ip (cidr_mask (length ip) k), net_mask = cidr_mask (length ip) k\<rparr>"
      using assms by (auto simp: ParseCIDR_def Let_def split: list.splits option.splits if_splits)
        (metis leI)
    with that ParseAddr_length show ?thesis by blast
  qed
  from ip n show "length (net_ip n) = length (net_mask n) \<and> (length (net_ip n) = 4 \<or> length (net_ip n) = 16)"
    by (auto simp: Mask_def Let_def)
  with n k show "fst (Mask_Size (net_mask n)) \<le> 8 * length (net_ip n)"
    by (simp add: Mask_Size_cidr_mask)
qed

end
