(* ===== verification/Config.thy ===== *)
theory Config
  imports Net
begin

text \<open>
  \<^verbatim>\<open>internal/config/config.go\<close>: the configuration, its defaults and validation, the numbering of
  the zones, and the lists of prefixes and of remote zones the rest of the program is built
  from.

  The Go map \<open>Zones\<close> is an association list with distinct keys. A Go loop over a map visits its
  keys in an order that changes from loop to loop, so every operation with such a loop takes
  the order as an argument \<open>ord\<close>, a list of the keys (\<open>range_order\<close>). Reading the file and
  decoding the YAML are parameters of \<open>Load\<close>. Durations are nanoseconds.
\<close>

subsection \<open>Data\<close>

record config =
  SourceZone :: string
  Listen :: string
  PollInterval :: int
  InstantWindow :: int
  Interfaces :: "string list"
  Zones :: "(string \<times> string list) list"
  EMAHalfLife :: int
  zoneIDs :: "string \<rightharpoonup> u8"

record zone_entry =
  ZoneID :: u8
  Prefix :: ipnet

record resolved_zone =
  DstZone :: string
  rz_ZoneID :: u8
  rz_SourceZone :: string

datatype config_error =
  Read_config | Parse_config | Source_zone_required | Zones_required
  | Source_zone_not_in_zones string | Subnet_required string | Invalid_subnet string string
  | Remote_zone_required | Too_many_zones nat | Poll_interval_positive
  | Instant_window_negative | Source_zone_not_found string | Zone_without_id string
  | Entry_subnet string string

definition second :: int where
  "second = 1000000000"

definition range_order :: "config \<Rightarrow> string list \<Rightarrow> bool" where
  "range_order c ord \<longleftrightarrow> distinct ord \<and> set ord = fst ` set (Zones c)"

definition config_wf :: "config \<Rightarrow> bool" where
  "config_wf c \<longleftrightarrow> distinct (map fst (Zones c))"

subsection \<open>Defaults and validation\<close>

definition default_config :: config where
  "default_config =
     \<lparr>SourceZone = '''', Listen = '':9435'', PollInterval = 1 * second, InstantWindow = 10 * second,
      Interfaces = [], Zones = [], EMAHalfLife = 5 * 60 * second, zoneIDs = Map.empty\<rparr>"

definition applyDefaults :: "config \<Rightarrow> config" where
  "applyDefaults c =
     (let c = (if Listen c = '''' then c\<lparr>Listen := '':9435''\<rparr> else c);
          c = (if PollInterval c \<le> 0 then c\<lparr>PollInterval := second\<rparr> else c);
          c = (if InstantWindow c \<le> 0 then c\<lparr>InstantWindow := 10 * second\<rparr> else c);
          c = (if EMAHalfLife c \<le> 0 then c\<lparr>EMAHalfLife := 5 * 60 * second\<rparr> else c)
      in c)"

fun first_bad_subnet :: "string list \<Rightarrow> string option" where
  "first_bad_subnet [] = None"
| "first_bad_subnet (s # ss) = (if ParseCIDR s = None then Some s else first_bad_subnet ss)"

text \<open>The loop over the zones: the number of remote zones, or the error of the first bad zone.\<close>

fun check_zones :: "config \<Rightarrow> string list \<Rightarrow> nat \<Rightarrow> config_error + nat" where
  "check_zones c [] n = Inr n"
| "check_zones c (name # ord) n =
     (let subnets = (case map_of (Zones c) name of None \<Rightarrow> [] | Some ss \<Rightarrow> ss) in
      if subnets = [] then Inl (Subnet_required name)
      else case first_bad_subnet subnets of
             Some s \<Rightarrow> Inl (Invalid_subnet name s)
           | None \<Rightarrow> check_zones c ord (if name \<noteq> SourceZone c then Suc n else n))"

definition number_zones :: "string list \<Rightarrow> (string \<rightharpoonup> u8)" where
  "number_zones names =
     foldl (\<lambda>m (i, name). m(name \<mapsto> of_nat (i + 1))) Map.empty (enumerate 0 names)"

definition assignZoneIDs :: "string list \<Rightarrow> config \<Rightarrow> config_error + config" where
  "assignZoneIDs ord c =
     (let names = sort ord in
      if length names > 255 then Inl (Too_many_zones (length names))
      else Inr (c\<lparr>zoneIDs := number_zones names\<rparr>))"

definition Validate :: "string list \<Rightarrow> string list \<Rightarrow> config \<Rightarrow> config_error + config" where
  "Validate ord1 ord2 c =
     (if SourceZone c = '''' then Inl Source_zone_required
      else if length (Zones c) = 0 then Inl Zones_required
      else if map_of (Zones c) (SourceZone c) = None then Inl (Source_zone_not_in_zones (SourceZone c))
      else case check_zones c ord1 0 of
             Inl e \<Rightarrow> Inl e
           | Inr remoteZones \<Rightarrow>
               if remoteZones = 0 then Inl Remote_zone_required
               else case assignZoneIDs ord2 c of
                      Inl e \<Rightarrow> Inl e
                    | Inr c' \<Rightarrow>
                        if PollInterval c' \<le> 0 then Inl Poll_interval_positive
                        else if InstantWindow c' < 0 then Inl Instant_window_negative
                        else Inr c')"

text \<open>
  \<^verbatim>\<open>config.Load\<close>: \<open>data\<close> is the result of \<^verbatim>\<open>os.ReadFile\<close> and \<open>unmarshal\<close> that of \<^verbatim>\<open>yaml.Unmarshal\<close>
  into the configuration with the defaults filled in.
\<close>

definition Load_config ::
    "(config \<Rightarrow> string \<Rightarrow> config option) \<Rightarrow> string option \<Rightarrow> string list \<Rightarrow> string list \<Rightarrow> config_error + config" where
  "Load_config unmarshal data ord1 ord2 =
     (case data of
        None \<Rightarrow> Inl Read_config
      | Some d \<Rightarrow>
          (case unmarshal default_config d of
             None \<Rightarrow> Inl Parse_config
           | Some c \<Rightarrow> Validate ord1 ord2 (applyDefaults c)))"

subsection \<open>Zone tables\<close>

fun subnet_entries :: "u8 \<Rightarrow> string \<Rightarrow> string list \<Rightarrow> config_error + zone_entry list" where
  "subnet_entries z name [] = Inr []"
| "subnet_entries z name (s # ss) =
     (case ParseCIDR s of
        None \<Rightarrow> Inl (Entry_subnet name s)
      | Some n \<Rightarrow>
          (case subnet_entries z name ss of
             Inl e \<Rightarrow> Inl e
           | Inr es \<Rightarrow> Inr (\<lparr>ZoneID = z, Prefix = n\<rparr> # es)))"

definition SourceZoneLPMEntries :: "config \<Rightarrow> config_error + zone_entry list" where
  "SourceZoneLPMEntries c =
     (case map_of (Zones c) (SourceZone c) of
        None \<Rightarrow> Inl (Source_zone_not_found (SourceZone c))
      | Some subnets \<Rightarrow>
          (case zoneIDs c (SourceZone c) of
             None \<Rightarrow> Inl (Zone_without_id (SourceZone c))
           | Some z \<Rightarrow> subnet_entries z (SourceZone c) subnets))"

fun ZoneLPMEntries :: "string list \<Rightarrow> config \<Rightarrow> config_error + zone_entry list" where
  "ZoneLPMEntries [] c = Inr []"
| "ZoneLPMEntries (name # ord) c =
     (if name = SourceZone c then ZoneLPMEntries ord c
      else case zoneIDs c name of
             None \<Rightarrow> Inl (Zone_without_id name)
           | Some z \<Rightarrow>
               (case subnet_entries z name
                       (case map_of (Zones c) name of None \<Rightarrow> [] | Some ss \<Rightarrow> ss) of
                  Inl e \<Rightarrow> Inl e
                | Inr es \<Rightarrow>
                    (case ZoneLPMEntries ord c of Inl e \<Rightarrow> Inl e | Inr fs \<Rightarrow> Inr (es @ fs))))"

definition RemoteZones :: "string list \<Rightarrow> config \<Rightarrow> resolved_zone list" where
  "RemoteZones ord c =
     map (\<lambda>name. \<lparr>DstZone = name,
                   rz_ZoneID = (case zoneIDs c name of None \<Rightarrow> 0 | Some z \<Rightarrow> z),
                   rz_SourceZone = SourceZone c\<rparr>)
       (sort (filter (\<lambda>name. name \<noteq> SourceZone c) ord))"

subsection \<open>Ignored interfaces, smoothing factor\<close>

fun ShouldIgnore :: "string \<Rightarrow> string list \<Rightarrow> bool" where
  "ShouldIgnore name [] = False"
| "ShouldIgnore name (pattern # ps) =
     (if pattern = name then True
      else if HasSuffix pattern ''*'' \<and> HasPrefix name (TrimSuffix pattern ''*'') then True
      else ShouldIgnore name ps)"

subsection \<open>The numbering of the zones\<close>

lemma number_zones_snoc:
  "number_zones (xs @ [x]) = (number_zones xs)(x \<mapsto> of_nat (length xs + 1))"
  by (simp add: number_zones_def enumerate_append_eq)

lemma number_zones_eq:
  "distinct names \<Longrightarrow>
     number_zones names = map_of (zip names (map (\<lambda>i. of_nat (i + 1)) [0..<length names]))"
proof (induction names rule: rev_induct)
  case Nil
  then show ?case by (simp add: number_zones_def)
next
  case (snoc x xs)
  then have x: "x \<notin> dom (map_of (zip xs (map (\<lambda>i. of_nat (i + 1) :: u8) [0..<length xs])))"
    by (auto dest: map_of_SomeD set_zip_leftD)
  from snoc show ?case
    using map_add_comm [of "map_of (zip xs (map (\<lambda>i. of_nat (i + 1) :: u8) [0..<length xs]))"
        "[x \<mapsto> of_nat (length xs + 1)]"] x
    by (simp add: number_zones_snoc map_add_upd)
qed

lemma number_zones_nth:
  assumes "distinct names" and "i < length names"
  shows "number_zones names (names ! i) = Some (of_nat (i + 1))"
  using assms by (simp add: number_zones_eq map_of_zip_nth)

lemma dom_number_zones: "distinct names \<Longrightarrow> dom (number_zones names) = set names"
  by (simp add: number_zones_eq dom_map_of_zip)

lemma number_zones_SomeE:
  assumes "distinct names" and "number_zones names name = Some z"
  obtains i where "i < length names" and "names ! i = name" and "z = of_nat (i + 1)"
proof -
  from assms have "name \<in> set names" using dom_number_zones by blast
  then obtain i where "i < length names" "names ! i = name" by (auto simp: in_set_conv_nth)
  with assms number_zones_nth [of names i] that show ?thesis by simp
qed

lemma unat_zone_id: "i < 255 \<Longrightarrow> unat (of_nat (i + 1) :: u8) = i + 1"
  by (simp add: unat_of_nat del: of_nat_add of_nat_Suc)

lemma range_order_unique:
  assumes "range_order c ord" and "range_order c ord'"
  shows "sort ord = sort ord'"
  using assms by (auto simp: range_order_def intro: sorted_distinct_set_unique)

lemma assignZoneIDs_order:
  "range_order c ord \<Longrightarrow> range_order c ord' \<Longrightarrow> assignZoneIDs ord c = assignZoneIDs ord' c"
  using range_order_unique [of c ord ord'] by (simp add: assignZoneIDs_def)

definition numbered :: "config \<Rightarrow> bool" where
  "numbered c \<longleftrightarrow> dom (zoneIDs c) = fst ` set (Zones c) \<and> inj_on (zoneIDs c) (dom (zoneIDs c)) \<and>
     (\<forall>n. zoneIDs c n \<noteq> Some 0)"

lemma assignZoneIDs_numbered:
  assumes ord: "range_order c ord" and res: "assignZoneIDs ord c = Inr c'"
  shows "numbered c'" and "Zones c' = Zones c"
proof -
  let ?ns = "sort ord"
  have d: "distinct ?ns" and set: "set ?ns = fst ` set (Zones c)"
    using ord by (auto simp: range_order_def)
  have len: "length ?ns \<le> 255" and c': "c' = c\<lparr>zoneIDs := number_zones ?ns\<rparr>"
    using res by (auto simp: assignZoneIDs_def Let_def split: if_splits)
  show "Zones c' = Zones c" using c' by simp
  have "zoneIDs c' n \<noteq> Some 0" for n
  proof
    assume "zoneIDs c' n = Some 0"
    then have "number_zones ?ns n = Some 0" using c' by simp
    then obtain i where "i < length ?ns" and "(0::u8) = of_nat (i + 1)"
      using number_zones_SomeE [OF d] by metis
    with len unat_zone_id [of i] show False by simp
  qed
  moreover have "inj_on (zoneIDs c') (dom (zoneIDs c'))"
  proof (rule inj_onI)
    fix a b assume "a \<in> dom (zoneIDs c')" and "zoneIDs c' a = zoneIDs c' b"
    then obtain z where "number_zones ?ns a = Some z" and "number_zones ?ns b = Some z"
      using c' by (auto dest: sym)
    then obtain i j where "i < length ?ns" "?ns ! i = a" "j < length ?ns" "?ns ! j = b"
      and "(of_nat (i + 1) :: u8) = of_nat (j + 1)"
      using number_zones_SomeE [OF d] by metis
    moreover from this have "unat (of_nat (i + 1) :: u8) = unat (of_nat (j + 1) :: u8)" by simp
    ultimately show "a = b" using len unat_zone_id [of i] unat_zone_id [of j] by simp
  qed
  moreover have "dom (zoneIDs c') = fst ` set (Zones c')"
    using c' dom_number_zones [OF d] set by simp
  ultimately show "numbered c'" by (simp add: numbered_def)
qed

text \<open>
  C14. Whatever order Go visits the map of zones in, the numbering of at most 255 zones is the
  same; it gives an id to every zone and to nothing else, distinct ids to distinct zones, and
  never the id 0, so no id wraps around the 8 bits of \<^verbatim>\<open>uint8\<close>.
\<close>

theorem zone_ids_injective:
  assumes "range_order c ord" and "range_order c ord'" and "assignZoneIDs ord c = Inr c'"
  shows "assignZoneIDs ord' c = Inr c' \<and>
    dom (zoneIDs c') = fst ` set (Zones c) \<and>
    inj_on (zoneIDs c') (fst ` set (Zones c)) \<and>
    (\<forall>name. zoneIDs c' name \<noteq> Some 0)"
  using assms(3) assignZoneIDs_numbered [OF assms(1,3)] assignZoneIDs_order [OF assms(1,2)]
  unfolding numbered_def by metis

theorem zone_ids_injective_witness:
  "\<exists>c'. assignZoneIDs [''f'', ''c'', ''e''] (default_config\<lparr>Zones := [(''c'', []), (''e'', []), (''f'', [])]\<rparr>) = Inr c' \<and>
     inj_on (zoneIDs c') {''c'', ''e'', ''f''} \<and> zoneIDs c' ''c'' \<noteq> Some 0"
proof -
  let ?c = "default_config\<lparr>Zones := [(''c'', []), (''e'', []), (''f'', [])]\<rparr>"
  have o1: "range_order ?c [''e'', ''c'', ''f'']" and o2: "range_order ?c [''f'', ''c'', ''e'']"
    by (auto simp: range_order_def)
  obtain c' where c': "assignZoneIDs [''e'', ''c'', ''f''] ?c = Inr c'"
    by (simp add: assignZoneIDs_def)
  show ?thesis using zone_ids_injective [OF o1 o2 c'] by (intro exI [of _ c']) simp
qed

subsection \<open>Validation\<close>

lemma first_bad_subnet_None: "first_bad_subnet ss = None \<longleftrightarrow> (\<forall>s\<in>set ss. ParseCIDR s \<noteq> None)"
  by (induction ss) auto

lemma check_zones_Inr:
  "check_zones c ord n = Inr m \<Longrightarrow> name \<in> set ord \<Longrightarrow>
     \<exists>ss. map_of (Zones c) name = Some ss \<and> ss \<noteq> [] \<and> (\<forall>s\<in>set ss. ParseCIDR s \<noteq> None)"
proof (induction c ord n rule: check_zones.induct)
  case (2 c a ord n)
  then show ?case
    by (cases "map_of (Zones c) a")
      (auto simp: Let_def first_bad_subnet_None split: if_splits option.splits)
qed simp

lemma check_zones_count:
  "check_zones c ord n = Inr m \<Longrightarrow> m = n + length (filter (\<lambda>name. name \<noteq> SourceZone c) ord)"
  by (induction c ord n rule: check_zones.induct) (auto simp: Let_def split: if_splits option.splits)

definition subnets_parse :: "config \<Rightarrow> bool" where
  "subnets_parse c \<longleftrightarrow> (\<forall>(name, ss)\<in>set (Zones c). ss \<noteq> [] \<and> (\<forall>s\<in>set ss. ParseCIDR s \<noteq> None))"

lemma Validate_InrD:
  assumes wf: "config_wf c" and o1: "range_order c ord1" and o2: "range_order c ord2"
    and res: "Validate ord1 ord2 c = Inr c'"
  shows "numbered c'" "Zones c' = Zones c" "SourceZone c' = SourceZone c" "subnets_parse c'"
    "0 < PollInterval c'" "0 \<le> InstantWindow c'" "SourceZone c \<in> fst ` set (Zones c)"
    "\<exists>name\<in>fst ` set (Zones c). name \<noteq> SourceZone c"
proof -
  obtain n where n: "check_zones c ord1 0 = Inr n" "n \<noteq> 0" and a: "assignZoneIDs ord2 c = Inr c'"
    and src: "map_of (Zones c) (SourceZone c) \<noteq> None"
    and pos: "\<not> PollInterval c' \<le> 0" "\<not> InstantWindow c' < 0"
    using res by (auto simp: Validate_def split: if_splits sum.splits)
  show "numbered c'" "Zones c' = Zones c" using assignZoneIDs_numbered [OF o2 a] by auto
  show "SourceZone c' = SourceZone c"
    using a by (auto simp: assignZoneIDs_def Let_def split: if_splits)
  show "0 < PollInterval c'" "0 \<le> InstantWindow c'" using pos by auto
  show "SourceZone c \<in> fst ` set (Zones c)" using src by (force dest: map_of_SomeD)
  have "filter (\<lambda>name. name \<noteq> SourceZone c) ord1 \<noteq> []"
    using n check_zones_count [OF n(1)] by auto
  then show "\<exists>name\<in>fst ` set (Zones c). name \<noteq> SourceZone c"
    using o1 by (auto simp: range_order_def filter_empty_conv)
  have "ss \<noteq> [] \<and> (\<forall>s\<in>set ss. ParseCIDR s \<noteq> None)" if "(name, ss) \<in> set (Zones c)" for name ss
  proof -
    from that o1 have "name \<in> set ord1" by (force simp: range_order_def)
    moreover from that wf have "map_of (Zones c) name = Some ss" by (simp add: config_wf_def)
    ultimately show ?thesis using check_zones_Inr [OF n(1)] by force
  qed
  then show "subnets_parse c'" using \<open>Zones c' = Zones c\<close> by (auto simp: subnets_parse_def)
qed

lemma subnet_entries_ok:
  assumes "\<forall>s\<in>set ss. ParseCIDR s \<noteq> None"
  shows "subnet_entries z name ss = Inr (map (\<lambda>s. \<lparr>ZoneID = z, Prefix = the (ParseCIDR s)\<rparr>) ss)"
  using assms by (induction ss) auto

definition zone_entries :: "config \<Rightarrow> string \<Rightarrow> zone_entry list" where
  "zone_entries c name =
     map (\<lambda>s. \<lparr>ZoneID = the (zoneIDs c name), Prefix = the (ParseCIDR s)\<rparr>) (the (map_of (Zones c) name))"

lemma zone_entries_ok:
  assumes "subnets_parse c" and "numbered c" and "name \<in> fst ` set (Zones c)"
  shows "\<exists>z ss. zoneIDs c name = Some z \<and> map_of (Zones c) name = Some ss \<and>
    subnet_entries z name ss = Inr (zone_entries c name)"
proof -
  obtain ss where ss: "map_of (Zones c) name = Some ss"
    using assms(3) by (metis map_of_eq_None_iff not_Some_eq)
  then have "(name, ss) \<in> set (Zones c)" by (rule map_of_SomeD)
  with assms(1) have "\<forall>s\<in>set ss. ParseCIDR s \<noteq> None" by (auto simp: subnets_parse_def)
  moreover obtain z where "zoneIDs c name = Some z" using assms(2,3) by (auto simp: numbered_def)
  ultimately show ?thesis using ss by (simp add: subnet_entries_ok zone_entries_def)
qed

lemma zone_entries_mem:
  assumes "config_wf c" and "subnets_parse c" and "numbered c" and n: "(name, subnets) \<in> set (Zones c)"
  shows "e \<in> set (zone_entries c name) \<longleftrightarrow>
      (\<exists>s\<in>set subnets. zoneIDs c name = Some (ZoneID e) \<and> ParseCIDR s = Some (Prefix e))"
proof -
  have m: "map_of (Zones c) name = Some subnets" using n assms(1) by (simp add: config_wf_def)
  obtain z where z: "zoneIDs c name = Some z" using assms(3) n by (force simp: numbered_def)
  have p: "\<forall>s\<in>set subnets. ParseCIDR s \<noteq> None" using assms(2) n by (auto simp: subnets_parse_def)
  show ?thesis using m z p by (cases e) (force simp: zone_entries_def)
qed

lemma zone_entries_nonempty:
  assumes "config_wf c" and "subnets_parse c" and "name \<in> fst ` set (Zones c)"
  shows "zone_entries c name \<noteq> []"
proof -
  from assms(3) obtain subnets where "(name, subnets) \<in> set (Zones c)" by auto
  then have "map_of (Zones c) name = Some subnets" and "subnets \<noteq> []"
    using assms(1,2) by (auto simp: config_wf_def subnets_parse_def)
  then show ?thesis by (simp add: zone_entries_def)
qed

lemma ZoneLPMEntries_ok:
  assumes "subnets_parse c" and "numbered c" and "set ord \<subseteq> fst ` set (Zones c)"
  shows "ZoneLPMEntries ord c =
    Inr (concat (map (zone_entries c) (filter (\<lambda>name. name \<noteq> SourceZone c) ord)))"
  using assms(3)
proof (induction ord)
  case (Cons name ord)
  then show ?case using zone_entries_ok [OF assms(1,2), of name] by auto
qed simp

lemma SourceZoneLPMEntries_ok:
  assumes "subnets_parse c" and "numbered c" and "SourceZone c \<in> fst ` set (Zones c)"
  shows "SourceZoneLPMEntries c = Inr (zone_entries c (SourceZone c))"
  using zone_entries_ok [OF assms] by (auto simp: SourceZoneLPMEntries_def)

text \<open>The subnets of a zone, one entry each, found by walking over the zones of the configuration.\<close>

lemma concat_no_key:
  "name \<notin> fst ` set zs \<Longrightarrow> concat (map (\<lambda>(n, ss). if n = name then f ss else []) zs) = []"
  by (induction zs) auto

lemma concat_only_key:
  "distinct (map fst zs) \<Longrightarrow> map_of zs name = Some ss \<Longrightarrow>
     concat (map (\<lambda>(n, ss). if n = name then f ss else []) zs) = f ss"
  by (induction zs) (auto simp del: concat_eq_Nil_conv simp: concat_no_key split: if_splits)

lemma zone_entries_listed:
  assumes "config_wf c" and "subnets_parse c" and "numbered c" and "name \<in> fst ` set (Zones c)"
  shows "map (\<lambda>e. (Some (ZoneID e), Some (Prefix e))) (zone_entries c name) =
     [(zoneIDs c name, ParseCIDR s). (n, subnets) \<leftarrow> Zones c, n = name, s \<leftarrow> subnets]"
proof -
  obtain subnets where n: "(name, subnets) \<in> set (Zones c)" using assms(4) by auto
  have m: "map_of (Zones c) name = Some subnets" and d: "distinct (map fst (Zones c))"
    using n assms(1) by (simp_all add: config_wf_def)
  obtain z where z: "zoneIDs c name = Some z" using assms(3) n by (force simp: numbered_def)
  have p: "\<forall>s\<in>set subnets. ParseCIDR s = Some (the (ParseCIDR s))" using assms(2) n by (auto simp: subnets_parse_def)
  have "map (\<lambda>e. (Some (ZoneID e), Some (Prefix e))) (zone_entries c name) = map (\<lambda>s. (zoneIDs c name, ParseCIDR s)) subnets"
    using m z p by (simp add: zone_entries_def)
  also have "\<dots> = [(zoneIDs c name, ParseCIDR s). (n, subnets) \<leftarrow> Zones c, n = name, s \<leftarrow> subnets]"
    using concat_only_key [OF d m, of "map (\<lambda>s. (zoneIDs c name, ParseCIDR s))"] by simp
  finally show ?thesis .
qed

text \<open>
  C15. On a configuration that passed validation, building the two prefix lists cannot fail, in
  any iteration order, and neither is empty. Both hold exactly one entry per subnet, in the order of
  the configuration: the destination list runs over the remote zones as they are visited and over the
  subnets of each, the source list over the subnets of the source zone; the entry of a subnet carries
  the number of its zone and the network that its text denotes.
\<close>

theorem validated_tables_total:
  assumes "config_wf c" and "range_order c ord1" and "range_order c ord2" and "range_order c ord3"
    and "Validate ord1 ord2 c = Inr c'"
  shows "\<exists>ds ss. ZoneLPMEntries ord3 c' = Inr ds \<and> SourceZoneLPMEntries c' = Inr ss \<and> ds \<noteq> [] \<and> ss \<noteq> [] \<and>
    map (\<lambda>e. (Some (ZoneID e), Some (Prefix e))) ds =
      [(zoneIDs c' name, ParseCIDR s). name \<leftarrow> ord3, name \<noteq> SourceZone c, (n, subnets) \<leftarrow> Zones c, n = name, s \<leftarrow> subnets] \<and>
    map (\<lambda>e. (Some (ZoneID e), Some (Prefix e))) ss =
      [(zoneIDs c' (SourceZone c), ParseCIDR s). (n, subnets) \<leftarrow> Zones c, n = SourceZone c, s \<leftarrow> subnets]"
proof -
  note v = Validate_InrD [OF assms(1,2,3,5)]
  have o3: "set ord3 = fst ` set (Zones c')" using assms(4) v(2) by (simp add: range_order_def)
  let ?ds = "concat (map (zone_entries c') (filter (\<lambda>name. name \<noteq> SourceZone c') ord3))"
  have wf: "config_wf c'" using assms(1) v(2) by (simp add: config_wf_def)
  note ne = zone_entries_nonempty [OF wf v(4)] and listed = zone_entries_listed [OF wf v(4,1)]
  have walk: "map (\<lambda>e. (Some (ZoneID e), Some (Prefix e))) (concat (map (zone_entries c') (filter (\<lambda>name. name \<noteq> SourceZone c) ord))) =
      [(zoneIDs c' name, ParseCIDR s). name \<leftarrow> ord, name \<noteq> SourceZone c, (n, subnets) \<leftarrow> Zones c, n = name, s \<leftarrow> subnets]"
    if "set ord \<subseteq> fst ` set (Zones c')" for ord
    using that listed v(2) by (induction ord) auto
  have "?ds \<noteq> []"
    using v(2,3,8) o3 ne by (auto simp: filter_empty_conv)
  then show ?thesis
    using ZoneLPMEntries_ok [OF v(4,1), of ord3] SourceZoneLPMEntries_ok [OF v(4,1)] o3 v(2,3,7) ne walk [of ord3] listed [of "SourceZone c"]
    by auto
qed

subsection \<open>A sample configuration\<close>

definition sample_config :: config where
  "sample_config =
     default_config\<lparr>SourceZone := ''f'', Zones := [(''c'', [''10.0.0.0/8'', ''10.1.0.0/16'']), (''f'', [''192.168.0.0/16''])]\<rparr>"


lemma ParseCIDR_10_0: "ParseCIDR ''10.0.0.0/8'' = Some \<lparr>net_ip = [10, 0, 0, 0], net_mask = cidr_mask 4 8\<rparr>"
  by (simp add: net_eval)

lemma ParseCIDR_10_1: "ParseCIDR ''10.1.0.0/16'' = Some \<lparr>net_ip = [10, 1, 0, 0], net_mask = cidr_mask 4 16\<rparr>"
  by (simp add: net_eval)

lemma ParseCIDR_192: "ParseCIDR ''192.168.0.0/16'' = Some \<lparr>net_ip = [192, 168, 0, 0], net_mask = cidr_mask 4 16\<rparr>"
  by (simp add: net_eval)

lemma sample_config_valid: "\<exists>c'. Validate [''c'', ''f''] [''f'', ''c''] sample_config = Inr c'"
  by (simp add: Validate_def sample_config_def default_config_def ParseCIDR_10_0 ParseCIDR_10_1 ParseCIDR_192 assignZoneIDs_def Let_def second_def)

theorem validated_tables_total_witness:
  "\<exists>c' ds ss. Validate [''c'', ''f''] [''f'', ''c''] sample_config = Inr c' \<and>
     ZoneLPMEntries [''f'', ''c''] c' = Inr ds \<and> SourceZoneLPMEntries c' = Inr ss \<and> ds \<noteq> [] \<and> ss \<noteq> []"
proof -
  obtain c' where c': "Validate [''c'', ''f''] [''f'', ''c''] sample_config = Inr c'" using sample_config_valid by blast
  have wf: "config_wf sample_config" and o1: "range_order sample_config [''c'', ''f'']"
    and o2: "range_order sample_config [''f'', ''c'']"
    by (auto simp: config_wf_def range_order_def sample_config_def)
  from validated_tables_total [OF wf o1 o2 o2 c'] c' show ?thesis by blast
qed

end
