(* ===== verification/Loader.thy ===== *)
theory Loader
  imports Egress Config
begin

text \<open>
  \<^verbatim>\<open>internal/bpf/load.go\<close>: filling the two prefix maps of the TC program from the entries of the
  configuration, and reading the per-CPU debug counters.

  The kernel's map of type \<^verbatim>\<open>BPF_MAP_TYPE_LPM_TRIE\<close> is the interface \<open>lpm_trie\<close>: a lookup with
  the full prefix length gives the value of a longest stored prefix that covers the address,
  an update that succeeds stores the value under the prefix. \<open>lpm_ref_lookup\<close> and
  \<open>lpm_ref_update\<close> implement it, so its laws can be met. Loading the object file
  (\<^verbatim>\<open>LoadPacketLossObjects\<close>, generated code) is a parameter of \<open>Load_bpf\<close>.
\<close>

subsection \<open>Longest prefix match\<close>

definition lpm_bits :: "byte_order \<Rightarrow> nat \<Rightarrow> u32 \<Rightarrow> u32" where
  "lpm_bits bo n a = drop_bit (32 - n) (bpf_ntohl bo False a)"

definition lpm_covers :: "byte_order \<Rightarrow> u32 \<times> u32 \<Rightarrow> u32 \<Rightarrow> bool" where
  "lpm_covers bo q a \<longleftrightarrow>
     unat (fst q) \<le> 32 \<and> lpm_bits bo (unat (fst q)) (snd q) = lpm_bits bo (unat (fst q)) a"

definition lpm_canon :: "byte_order \<Rightarrow> u32 \<times> u32 \<Rightarrow> u32 \<times> u32" where
  "lpm_canon bo q =
     (fst q, bpf_htonl bo False (push_bit (32 - unat (fst q)) (lpm_bits bo (unat (fst q)) (snd q))))"

definition lpm_canonical :: "byte_order \<Rightarrow> lpm_map \<Rightarrow> bool" where
  "lpm_canonical bo m \<longleftrightarrow> (\<forall>q\<in>dom m. unat (fst q) \<le> 32 \<and> lpm_canon bo q = q)"

locale lpm_trie =
  fixes bo :: byte_order
    and lookup :: "lpm_map \<Rightarrow> u32 \<times> u32 \<Rightarrow> u8 option"
    and update :: "lpm_map \<Rightarrow> u32 \<times> u32 \<Rightarrow> u8 \<Rightarrow> lpm_map option"
  assumes lookup_Some: "lpm_canonical bo m \<Longrightarrow> lookup m (32, a) = Some v \<Longrightarrow>
      \<exists>q. m q = Some v \<and> lpm_covers bo q a \<and> (\<forall>r\<in>dom m. lpm_covers bo r a \<longrightarrow> fst r \<le> fst q)"
    and lookup_None: "lpm_canonical bo m \<Longrightarrow> lookup m (32, a) = None \<Longrightarrow> q \<in> dom m \<Longrightarrow> \<not> lpm_covers bo q a"
    and update_Some: "update m q v = Some m' \<Longrightarrow> unat (fst q) \<le> 32 \<and> m' = m(lpm_canon bo q \<mapsto> v)"

text \<open>The reference implementation: from the longest prefix of the address down to the empty one.\<close>

fun lpm_search :: "byte_order \<Rightarrow> lpm_map \<Rightarrow> u32 \<Rightarrow> nat \<Rightarrow> u8 option" where
  "lpm_search bo m a 0 = m (lpm_canon bo (0, a))"
| "lpm_search bo m a (Suc n) =
     (case m (lpm_canon bo (of_nat (Suc n), a)) of Some v \<Rightarrow> Some v | None \<Rightarrow> lpm_search bo m a n)"

definition lpm_ref_lookup :: "byte_order \<Rightarrow> lpm_map \<Rightarrow> u32 \<times> u32 \<Rightarrow> u8 option" where
  "lpm_ref_lookup bo m q = lpm_search bo m (snd q) (unat (fst q))"

definition lpm_ref_update :: "byte_order \<Rightarrow> lpm_map \<Rightarrow> u32 \<times> u32 \<Rightarrow> u8 \<Rightarrow> lpm_map option" where
  "lpm_ref_update bo m q v = (if unat (fst q) \<le> 32 then Some (m(lpm_canon bo q \<mapsto> v)) else None)"

subsection \<open>load.go\<close>

definition lpmKeyFromNet :: "byte_order \<Rightarrow> ipnet \<Rightarrow> u32 \<times> u32" where
  "lpmKeyFromNet bo n =
     (case To4 (net_ip n) of
        None \<Rightarrow> (0, 0)
      | Some ip \<Rightarrow> let (ones, _) = Mask_Size (net_mask n) in (of_nat ones, word_of_mem bo ip))"

fun put_entries :: "kernel \<Rightarrow> lpm_map \<Rightarrow> zone_entry list \<Rightarrow> ipnet + lpm_map" where
  "put_entries k m [] = Inr m"
| "put_entries k m (e # es) =
     (case k_lpm_update k m (lpmKeyFromNet (k_order k) (Prefix e)) (ZoneID e) of
        None \<Rightarrow> Inl (Prefix e)
      | Some m' \<Rightarrow> put_entries k m' es)"

datatype load_error = Load_objects | Populate_zone_lpm ipnet | Populate_src_zone_lpm ipnet

definition Load_bpf ::
    "kernel \<Rightarrow> bpf_state option \<Rightarrow> zone_entry list \<Rightarrow> zone_entry list \<Rightarrow> load_error + bpf_state" where
  "Load_bpf k objs dstEntries srcEntries =
     (case objs of
        None \<Rightarrow> Inl Load_objects
      | Some s \<Rightarrow>
          (case put_entries k (zone_lpm s) dstEntries of
             Inl n \<Rightarrow> Inl (Populate_zone_lpm n)
           | Inr dm \<Rightarrow>
               (case put_entries k (src_zone_lpm s) srcEntries of
                  Inl n \<Rightarrow> Inl (Populate_src_zone_lpm n)
                | Inr sm \<Rightarrow> Inr (s\<lparr>zone_lpm := dm, src_zone_lpm := sm\<rparr>))))"

text \<open>Reading a per-CPU counter: the sum over the possible CPUs, modulo the 64-bit width.\<close>

fun sumPerCPU :: "percpu_map \<Rightarrow> nat list \<Rightarrow> u64 option" where
  "sumPerCPU m [] = Some 0"
| "sumPerCPU m (cpu # cpus) =
     (case m cpu 0 of None \<Rightarrow> None | Some v \<Rightarrow> map_option ((+) v) (sumPerCPU m cpus))"

record debug_counters =
  dc_Seen :: u64
  dc_NotIPv4 :: u64
  dc_NotTCP :: u64
  dc_TCPShort :: u64
  dc_TCPPureAck :: u64
  dc_TCPPackets :: u64
  dc_NoSrcZone :: u64
  dc_NoDstZone :: u64
  dc_TCPZoned :: u64

definition ReadDebugCounters :: "nat list \<Rightarrow> bpf_state \<Rightarrow> debug_counters option" where
  "ReadDebugCounters cpus s =
     do {
       seen \<leftarrow> sumPerCPU (debug_seen s) cpus;
       not_ipv4 \<leftarrow> sumPerCPU (debug_not_ipv4 s) cpus;
       not_tcp \<leftarrow> sumPerCPU (debug_not_tcp s) cpus;
       tcp_short \<leftarrow> sumPerCPU (debug_tcp_short s) cpus;
       pure_ack \<leftarrow> sumPerCPU (debug_tcp_pure_ack s) cpus;
       payload \<leftarrow> sumPerCPU (debug_tcp_payload s) cpus;
       no_src \<leftarrow> sumPerCPU (debug_no_src_zone s) cpus;
       no_dst \<leftarrow> sumPerCPU (debug_no_dst_zone s) cpus;
       zoned \<leftarrow> sumPerCPU (debug_tcp_zoned s) cpus;
       Some \<lparr>dc_Seen = seen, dc_NotIPv4 = not_ipv4, dc_NotTCP = not_tcp, dc_TCPShort = tcp_short,
             dc_TCPPureAck = pure_ack, dc_TCPPackets = payload, dc_NoSrcZone = no_src,
             dc_NoDstZone = no_dst, dc_TCPZoned = zoned\<rparr>
     }"

subsection \<open>The reference implementation meets the interface\<close>

lemma ntohl_htonl [simp]: "bpf_ntohl bo c (bpf_htonl bo d x) = x"
  by (simp add: endian_defs swab_bswap builtin_bswap_invol split: byte_order.split)

lemma htonl_ntohl [simp]: "bpf_htonl bo c (bpf_ntohl bo d x) = x"
  by (simp add: endian_defs swab_bswap builtin_bswap_invol split: byte_order.split)

lemma drop_push_drop: "drop_bit n (push_bit n (drop_bit n (x :: u32))) = drop_bit n x"
  by (rule bit_word_eqI) (auto simp: bit_simps dest: bit_imp_le_length)

lemma lpm_bits_canon: "lpm_bits bo (unat (fst q)) (snd (lpm_canon bo q)) = lpm_bits bo (unat (fst q)) (snd q)"
  by (simp add: lpm_canon_def lpm_bits_def drop_push_drop)

lemma fst_lpm_canon [simp]: "fst (lpm_canon bo q) = fst q"
  by (simp add: lpm_canon_def)

lemma lpm_canon_idem [simp]: "lpm_canon bo (lpm_canon bo q) = lpm_canon bo q"
  using lpm_bits_canon [of bo q] by (simp add: lpm_canon_def)

lemma lpm_covers_canon [simp]: "lpm_covers bo (lpm_canon bo q) a \<longleftrightarrow> lpm_covers bo q a"
  using lpm_bits_canon [of bo q] by (simp add: lpm_covers_def)

lemma lpm_covers_iff_canon:
  assumes "unat (fst q) \<le> 32" and "lpm_canon bo q = q"
  shows "lpm_covers bo q a \<longleftrightarrow> q = lpm_canon bo (fst q, a)"
proof
  assume "lpm_covers bo q a"
  then have "lpm_canon bo q = lpm_canon bo (fst q, a)" by (simp add: lpm_covers_def lpm_canon_def)
  with assms show "q = lpm_canon bo (fst q, a)" by simp
next
  assume q: "q = lpm_canon bo (fst q, a)"
  have "lpm_covers bo (fst q, a) a" using assms(1) by (simp add: lpm_covers_def)
  then show "lpm_covers bo q a" using q lpm_covers_canon by metis
qed

lemma lpm_search_Some:
  assumes "lpm_search bo m a n = Some v" and "n \<le> 32"
  shows "\<exists>k\<le>n. m (lpm_canon bo (of_nat k, a)) = Some v \<and>
      (\<forall>j. k < j \<longrightarrow> j \<le> n \<longrightarrow> m (lpm_canon bo (of_nat j, a)) = None)"
  using assms
proof (induction n)
  case (Suc n)
  show ?case
  proof (cases "m (lpm_canon bo (of_nat (Suc n), a))")
    case None
    with Suc obtain k where "k \<le> n" "m (lpm_canon bo (of_nat k, a)) = Some v"
      and *: "\<forall>j. k < j \<longrightarrow> j \<le> n \<longrightarrow> m (lpm_canon bo (of_nat j, a)) = None" by auto
    with None show ?thesis by (intro exI [of _ k]) (auto simp: le_Suc_eq)
  next
    case (Some w)
    with Suc.prems show ?thesis by (intro exI [of _ "Suc n"]) auto
  qed
qed auto

lemma lpm_search_None:
  "lpm_search bo m a n = None \<Longrightarrow> k \<le> n \<Longrightarrow> m (lpm_canon bo (of_nat k, a)) = None"
  by (induction n) (auto simp: le_Suc_eq split: option.splits)

interpretation lpm_ref: lpm_trie bo "lpm_ref_lookup bo" "lpm_ref_update bo"
proof
  fix m a v
  assume can: "lpm_canonical bo m" and "lpm_ref_lookup bo m (32, a) = Some v"
  then obtain k where k: "k \<le> 32" "m (lpm_canon bo (of_nat k, a)) = Some v"
    and top: "\<forall>j. k < j \<longrightarrow> j \<le> 32 \<longrightarrow> m (lpm_canon bo (of_nat j, a)) = None"
    using lpm_search_Some [of bo m a 32 v] by (auto simp: lpm_ref_lookup_def)
  let ?q = "lpm_canon bo (of_nat k :: u32, a)"
  have uk: "unat (of_nat k :: u32) = k" using k(1) by (simp add: unat_of_nat)
  have "lpm_covers bo ?q a" using k(1) uk by (simp add: lpm_covers_def [of bo "(of_nat k, a)"])
  moreover have "fst r \<le> fst ?q" if r: "r \<in> dom m" "lpm_covers bo r a" for r
  proof (rule ccontr)
    assume "\<not> fst r \<le> fst ?q"
    then have lt: "k < unat (fst r)" using uk by (simp add: word_le_nat_alt)
    have "unat (fst r) \<le> 32" and "lpm_canon bo r = r" using can r(1) by (auto simp: lpm_canonical_def)
    then have "r = lpm_canon bo (of_nat (unat (fst r)), a)" using r(2) lpm_covers_iff_canon by simp
    with top lt \<open>unat (fst r) \<le> 32\<close> have "m r = None" by metis
    with r(1) show False by auto
  qed
  ultimately show "\<exists>q. m q = Some v \<and> lpm_covers bo q a \<and> (\<forall>r\<in>dom m. lpm_covers bo r a \<longrightarrow> fst r \<le> fst q)"
    using k(2) by blast
next
  fix m a q
  assume can: "lpm_canonical bo m" and none: "lpm_ref_lookup bo m (32, a) = None" and q: "q \<in> dom m"
  then have le: "unat (fst q) \<le> 32" "lpm_canon bo q = q" by (auto simp: lpm_canonical_def)
  have "m (lpm_canon bo (of_nat (unat (fst q)), a)) = None"
    using none le(1) lpm_search_None [of bo m a 32 "unat (fst q)"] by (simp add: lpm_ref_lookup_def)
  then show "\<not> lpm_covers bo q a" using q le lpm_covers_iff_canon [OF le, of a] by auto
next
  fix m q v m'
  assume "lpm_ref_update bo m q v = Some m'"
  then show "unat (fst q) \<le> 32 \<and> m' = m(lpm_canon bo q \<mapsto> v)"
    by (auto simp: lpm_ref_update_def split: if_splits)
qed

subsection \<open>What the filled maps answer\<close>

text \<open>The keys under which the entries are stored, in canonical form.\<close>

definition entry_key :: "byte_order \<Rightarrow> zone_entry \<Rightarrow> u32 \<times> u32" where
  "entry_key bo e = lpm_canon bo (lpmKeyFromNet bo (Prefix e))"

definition store_entry :: "byte_order \<Rightarrow> lpm_map \<Rightarrow> zone_entry \<Rightarrow> lpm_map" where
  "store_entry bo m e = m(entry_key bo e \<mapsto> ZoneID e)"

lemma put_entries_result:
  assumes upd: "\<And>m q v m'. k_lpm_update k m q v = Some m' \<Longrightarrow>
      unat (fst q) \<le> 32 \<and> m' = m(lpm_canon (k_order k) q \<mapsto> v)"
    and "put_entries k m es = Inr m'"
  shows "m' = foldl (store_entry (k_order k)) m es \<and>
    (\<forall>e\<in>set es. unat (fst (entry_key (k_order k) e)) \<le> 32)"
  using assms(2)
proof (induction es arbitrary: m)
  case (Cons e es)
  then obtain m1 where up: "k_lpm_update k m (lpmKeyFromNet (k_order k) (Prefix e)) (ZoneID e) = Some m1"
    and put: "put_entries k m1 es = Inr m'" by (auto split: option.splits)
  have "m1 = store_entry (k_order k) m e" and "unat (fst (entry_key (k_order k) e)) \<le> 32"
    using upd [OF up] by (simp_all add: entry_key_def store_entry_def)
  with Cons.IH [OF put] show ?case by simp
qed simp

lemma stored_dom: "dom (foldl (store_entry bo) m es) = dom m \<union> entry_key bo ` set es"
  by (induction es arbitrary: m) (auto simp: store_entry_def)

lemma stored_value:
  "foldl (store_entry bo) m es q = Some v \<Longrightarrow>
     m q = Some v \<or> (\<exists>e\<in>set es. q = entry_key bo e \<and> v = ZoneID e)"
proof (induction es arbitrary: m)
  case (Cons e es)
  then have "store_entry bo m e q = Some v \<or> (\<exists>e\<in>set es. q = entry_key bo e \<and> v = ZoneID e)" by simp
  then show ?case by (auto simp: store_entry_def split: if_splits)
qed simp

lemma lpm_canonical_foldl:
  assumes "\<forall>e\<in>set es. unat (fst (entry_key bo e)) \<le> 32"
  shows "lpm_canonical bo (foldl (store_entry bo) Map.empty es)"
  using assms by (auto simp: lpm_canonical_def stored_dom entry_key_def)

text \<open>
  A lookup after loading: the value is the number of an entry whose prefix covers the address
  and is at least as long as every other entry's that covers it; there is none only when no
  entry covers the address.
\<close>

lemma put_entries_lookup:
  assumes trie: "lpm_trie (k_order k) (k_lpm_lookup k) (k_lpm_update k)"
    and put: "put_entries k Map.empty es = Inr m"
  shows "k_lpm_lookup k m (32, a) = Some z \<Longrightarrow>
      \<exists>e\<in>set es. ZoneID e = z \<and> lpm_covers (k_order k) (entry_key (k_order k) e) a \<and>
        (\<forall>f\<in>set es. lpm_covers (k_order k) (entry_key (k_order k) f) a \<longrightarrow>
           fst (entry_key (k_order k) f) \<le> fst (entry_key (k_order k) e))"
    and "k_lpm_lookup k m (32, a) = None \<Longrightarrow>
      \<forall>e\<in>set es. \<not> lpm_covers (k_order k) (entry_key (k_order k) e) a"
proof -
  let ?bo = "k_order k"
  have m: "m = foldl (store_entry ?bo) Map.empty es"
    and le: "\<forall>e\<in>set es. unat (fst (entry_key ?bo e)) \<le> 32"
    using put_entries_result [OF lpm_trie.update_Some [OF trie] put] by auto
  have can: "lpm_canonical ?bo m" using lpm_canonical_foldl [OF le] m by simp
  have dom: "dom m = entry_key ?bo ` set es" using m by (simp add: stored_dom)
  { assume "k_lpm_lookup k m (32, a) = Some z"
    then obtain q where q: "m q = Some z" "lpm_covers ?bo q a"
      and top: "\<forall>r\<in>dom m. lpm_covers ?bo r a \<longrightarrow> fst r \<le> fst q"
      using lpm_trie.lookup_Some [OF trie can] by blast
    from q(1) obtain e where "e \<in> set es" "q = entry_key ?bo e" "z = ZoneID e"
      using stored_value [of ?bo Map.empty es q z] m by auto
    with q(2) top dom show "\<exists>e\<in>set es. ZoneID e = z \<and> lpm_covers ?bo (entry_key ?bo e) a \<and>
        (\<forall>f\<in>set es. lpm_covers ?bo (entry_key ?bo f) a \<longrightarrow> fst (entry_key ?bo f) \<le> fst (entry_key ?bo e))"
      by blast }
  assume "k_lpm_lookup k m (32, a) = None"
  then show "\<forall>e\<in>set es. \<not> lpm_covers ?bo (entry_key ?bo e) a"
    using lpm_trie.lookup_None [OF trie can] dom by blast
qed

lemma Load_bpf_InrD:
  assumes "Load_bpf k (Some (bpf_init Map.empty Map.empty)) ds ss = Inr s"
  shows "put_entries k Map.empty ds = Inr (zone_lpm s)" and "put_entries k Map.empty ss = Inr (src_zone_lpm s)"
    and "s = bpf_init (zone_lpm s) (src_zone_lpm s)"
  using assms by (auto simp: Load_bpf_def bpf_init_def split: sum.splits)

subsection \<open>Prefixes as bit strings\<close>

lemma mask_bits_Cons: "mask_bits (b # bs) = map (bit b) (rev [0..<8]) @ mask_bits bs"
  by (simp add: mask_bits_def)

lemma length_mask_bits [simp]: "length (mask_bits bs) = 8 * length bs"
  by (induction bs) (simp_all add: mask_bits_def)

lemma mask_bits_nth:
  "i < 8 * length bs \<Longrightarrow> mask_bits bs ! i = bit (bs ! (i div 8)) (7 - i mod 8)"
proof (induction bs arbitrary: i)
  case (Cons b bs)
  show ?case
  proof (cases "i < 8")
    case True
    then have "rev [0..<8] ! i = 7 - i" by (simp add: rev_nth)
    with True show ?thesis by (simp add: mask_bits_Cons nth_append)
  next
    case False
    then obtain j where "i = 8 + j" using le_Suc_ex not_less by blast
    with Cons show ?thesis by (simp add: mask_bits_Cons nth_append)
  qed
qed simp

lemma bit_be32:
  assumes "length bs = 4" and "i < 32"
  shows "bit (word_le (rev bs) :: u32) i = mask_bits bs ! (31 - i)"
proof -
  have i: "i div 8 < 4" using assms(2) by auto
  have "i div 8 * 8 + i mod 8 = i" and r: "i mod 8 < 8" by simp_all
  then have eq: "31 - i = (7 - i mod 8) + 8 * (3 - i div 8)" using i by arith
  have dm: "((7 - r) + 8 * q) div 8 = q" "((7 - r) + 8 * q) mod 8 = 7 - r" for r q :: nat by simp_all
  have d: "(31 - i) div 8 = 3 - i div 8" unfolding eq by (rule dm)
  have "(31 - i) mod 8 = 7 - i mod 8" unfolding eq by (rule dm)
  with r have "7 - (31 - i) mod 8 = i mod 8" by simp
  moreover have "31 - i < 8 * length bs" using assms(1) by simp
  ultimately show ?thesis using assms i d mask_bits_nth [of "31 - i" bs] by (simp add: bit_word_le rev_nth)
qed

lemma all_less_rev: "(\<forall>i<n. P (n - 1 - i)) \<longleftrightarrow> (\<forall>j<n. P (j::nat))"
proof (intro iffI allI impI)
  fix j assume "\<forall>i<n. P (n - 1 - i)" and "j < n"
  moreover from this(2) have "n - 1 - j < n" and "n - 1 - (n - 1 - j) = j" by auto
  ultimately show "P j" by metis
qed auto

lemma be32_prefix_eq:
  assumes "length xs = 4" and "length ys = 4" and "n \<le> 32"
  shows "drop_bit (32 - n) (word_le (rev xs) :: u32) = drop_bit (32 - n) (word_le (rev ys)) \<longleftrightarrow>
     take n (mask_bits xs) = take n (mask_bits ys)"
proof -
  have "drop_bit (32 - n) x = drop_bit (32 - n) y \<longleftrightarrow> (\<forall>i<n. bit x (32 - n + i) = bit y (32 - n + i))" for x y :: u32
  proof
    assume R: "\<forall>i<n. bit x (32 - n + i) = bit y (32 - n + i)"
    show "drop_bit (32 - n) x = drop_bit (32 - n) y"
    proof (rule bit_eqI)
      fix i
      have "\<not> bit z (32 - n + i)" if "\<not> i < n" for z :: u32
        using that assms(3) bit_imp_le_length [of z "32 - n + i"] by auto
      with R show "bit (drop_bit (32 - n) x) i = bit (drop_bit (32 - n) y) i"
        by (cases "i < n") (simp_all add: bit_drop_bit_eq)
    qed
  next
    assume "drop_bit (32 - n) x = drop_bit (32 - n) y"
    then have "bit (drop_bit (32 - n) x) i = bit (drop_bit (32 - n) y) i" for i by simp
    then show "\<forall>i<n. bit x (32 - n + i) = bit y (32 - n + i)" by (simp add: bit_drop_bit_eq)
  qed
  then have "drop_bit (32 - n) (word_le (rev xs) :: u32) = drop_bit (32 - n) (word_le (rev ys)) \<longleftrightarrow>
      (\<forall>i<n. bit (word_le (rev xs) :: u32) (32 - n + i) = bit (word_le (rev ys) :: u32) (32 - n + i))" .
  also have "\<dots> \<longleftrightarrow> (\<forall>i<n. mask_bits xs ! (n - 1 - i) = mask_bits ys ! (n - 1 - i))"
  proof -
    have "31 - (32 - n + i) = n - 1 - i" if "i < n" for i using that assms(3) by arith
    with assms show ?thesis by (simp add: bit_be32)
  qed
  also have "\<dots> \<longleftrightarrow> (\<forall>j<n. mask_bits xs ! j = mask_bits ys ! j)"
    by (rule all_less_rev)
  also have "\<dots> \<longleftrightarrow> take n (mask_bits xs) = take n (mask_bits ys)"
    using assms by (auto simp: list_eq_iff_nth_eq)
  finally show ?thesis .
qed


text \<open>
  \<open>net_covers n a\<close>: the address bytes \<open>a\<close> agree with the network address on the bits of the
  mask. \<open>net_v4 n\<close>: an IPv4 network, the only kind a key of the prefix maps can express.
\<close>

definition net_len :: "ipnet \<Rightarrow> nat" where
  "net_len n = fst (Mask_Size (net_mask n))"

definition net_covers :: "ipnet \<Rightarrow> bytes \<Rightarrow> bool" where
  "net_covers n a \<longleftrightarrow> take (net_len n) (mask_bits (net_ip n)) = take (net_len n) (mask_bits a)"

definition net_v4 :: "ipnet \<Rightarrow> bool" where
  "net_v4 n \<longleftrightarrow> length (net_ip n) = 4 \<and> net_len n \<le> 32"

lemma entry_key_v4:
  assumes "net_v4 (Prefix e)"
  shows "unat (fst (entry_key bo e)) = net_len (Prefix e)"
    and "length a = 4 \<Longrightarrow> lpm_covers bo (entry_key bo e) (word_of_mem bo a) \<longleftrightarrow> net_covers (Prefix e) a"
proof -
  have key: "lpmKeyFromNet bo (Prefix e) = (of_nat (net_len (Prefix e)), word_of_mem bo (net_ip (Prefix e)))"
    using assms by (simp add: lpmKeyFromNet_def To4_def net_v4_def net_len_def split: prod.split)
  have len: "unat (of_nat (net_len (Prefix e)) :: u32) = net_len (Prefix e)"
    using assms by (simp add: net_v4_def unat_of_nat)
  with key show "unat (fst (entry_key bo e)) = net_len (Prefix e)" by (simp add: entry_key_def)
  show "lpm_covers bo (entry_key bo e) (word_of_mem bo a) \<longleftrightarrow> net_covers (Prefix e) a" if a: "length a = 4"
    using assms key len a
    by (simp add: entry_key_def lpm_covers_def [of _ "(x, y)" for x y] lpm_bits_def load_simps net_v4_def
        net_covers_def be32_prefix_eq)
qed

lemma loaded_lookup_v4:
  assumes trie: "lpm_trie (k_order k) (k_lpm_lookup k) (k_lpm_update k)"
    and put: "put_entries k Map.empty es = Inr m"
    and v4: "\<forall>e\<in>set es. net_v4 (Prefix e)" and a: "length a = 4"
  shows "case k_lpm_lookup k m (32, word_of_mem (k_order k) a) of
      None \<Rightarrow> \<forall>e\<in>set es. \<not> net_covers (Prefix e) a
    | Some z \<Rightarrow> \<exists>e\<in>set es. ZoneID e = z \<and> net_covers (Prefix e) a \<and>
        (\<forall>f\<in>set es. net_covers (Prefix f) a \<longrightarrow> net_len (Prefix f) \<le> net_len (Prefix e))"
proof (cases "k_lpm_lookup k m (32, word_of_mem (k_order k) a)")
  case None
  from put_entries_lookup(2) [OF trie put this] v4 a None show ?thesis by (simp add: entry_key_v4)
next
  case (Some z)
  from put_entries_lookup(1) [OF trie put Some] obtain e where e: "e \<in> set es" "ZoneID e = z"
    and cov: "lpm_covers (k_order k) (entry_key (k_order k) e) (word_of_mem (k_order k) a)"
    and top: "\<forall>f\<in>set es. lpm_covers (k_order k) (entry_key (k_order k) f) (word_of_mem (k_order k) a) \<longrightarrow>
           fst (entry_key (k_order k) f) \<le> fst (entry_key (k_order k) e)" by blast
  have "net_len (Prefix f) \<le> net_len (Prefix e)" if f: "f \<in> set es" "net_covers (Prefix f) a" for f
  proof -
    have "fst (entry_key (k_order k) f) \<le> fst (entry_key (k_order k) e)"
      using top f v4 a by (simp add: entry_key_v4)
    then show ?thesis using v4 e(1) f(1) by (simp add: word_le_nat_alt entry_key_v4)
  qed
  moreover have "net_covers (Prefix e) a" using cov v4 a e(1) by (simp add: entry_key_v4)
  ultimately show ?thesis using e Some by auto
qed

text \<open>
  C12. After loading IPv4 prefixes, a lookup of an address in the destination map (and likewise
  in the source map) gives the zone number of an entry whose network contains the address and
  whose prefix is longest among those that do, and no answer only when no entry contains it.
\<close>

theorem loaded_maps_longest_match:
  assumes "lpm_trie (k_order k) (k_lpm_lookup k) (k_lpm_update k)"
    and "Load_bpf k (Some (bpf_init Map.empty Map.empty)) ds ss = Inr s"
    and "\<forall>e\<in>set (ds @ ss). net_v4 (Prefix e)" and "length a = 4"
    and "(m, es) = (zone_lpm s, ds) \<or> (m, es) = (src_zone_lpm s, ss)"
  shows "case k_lpm_lookup k m (32, word_of_mem (k_order k) a) of
      None \<Rightarrow> \<forall>e\<in>set es. \<not> net_covers (Prefix e) a
    | Some z \<Rightarrow> \<exists>e\<in>set es. ZoneID e = z \<and> net_covers (Prefix e) a \<and>
        (\<forall>f\<in>set es. net_covers (Prefix f) a \<longrightarrow> net_len (Prefix f) \<le> net_len (Prefix e))"
  using assms(5) loaded_lookup_v4 [OF assms(1) Load_bpf_InrD(1) [OF assms(2)] _ assms(4)]
    loaded_lookup_v4 [OF assms(1) Load_bpf_InrD(2) [OF assms(2)] _ assms(4)] assms(3)
  by auto

text \<open>
  C32. A subnet that is not IPv4 turns into the key of length 0: after loading it, the map
  answers for every IPv4 address.
\<close>

theorem ipv6_subnet_matches_every_ipv4:
  assumes "lpm_trie (k_order k) (k_lpm_lookup k) (k_lpm_update k)"
    and "Load_bpf k (Some (bpf_init Map.empty Map.empty)) ds ss = Inr s"
    and "e \<in> set ds" and "To4 (net_ip (Prefix e)) = None"
  shows "\<exists>z. k_lpm_lookup k (zone_lpm s) (32, a) = Some z"
proof (rule ccontr)
  assume "\<nexists>z. k_lpm_lookup k (zone_lpm s) (32, a) = Some z"
  then have "k_lpm_lookup k (zone_lpm s) (32, a) = None" by simp
  from put_entries_lookup(2) [OF assms(1) Load_bpf_InrD(1) [OF assms(2)] this]
  have "\<not> lpm_covers (k_order k) (entry_key (k_order k) e) a" using assms(3) by blast
  moreover have "drop_bit 32 (x :: u32) = 0" for x
    by (rule bit_word_eqI) (auto simp: bit_simps dest: bit_imp_le_length)
  ultimately show False
    using assms(4) by (simp add: entry_key_def lpmKeyFromNet_def lpm_covers_def lpm_bits_def)
qed

subsection \<open>A reference kernel\<close>

text \<open>
  An instance of the kernel's side: the TCP header of RFC 793 and the prefix map above. The
  witnesses of the properties that assume something of the kernel use it.
\<close>

definition tcphdr_rfc793 :: "byte_order \<Rightarrow> bytes \<Rightarrow> tcphdr" where
  "tcphdr_rfc793 bo bs =
     \<lparr>th_source = word_of_mem bo (take 2 bs), th_dest = word_of_mem bo (take 2 (drop 2 bs)),
      th_seq = word_of_mem bo (take 4 (drop 4 bs)), th_doff = drop_bit 4 (bs ! 12),
      th_fin = bit (bs ! 13) 0, th_syn = bit (bs ! 13) 1, th_rst = bit (bs ! 13) 2,
      th_ack = bit (bs ! 13) 4\<rparr>"

definition ref_kernel :: "byte_order \<Rightarrow> kernel" where
  "ref_kernel bo =
     \<lparr>k_order = bo, k_tcphdr_size = 20, k_tcphdr = tcphdr_rfc793 bo, k_IPPROTO_TCP = 6,
      k_lpm_lookup = lpm_ref_lookup bo, k_lpm_update = lpm_ref_update bo\<rparr>"

lemma ref_kernel_sel [simp]:
  "k_order (ref_kernel bo) = bo" "k_tcphdr_size (ref_kernel bo) = 20"
  "k_tcphdr (ref_kernel bo) = tcphdr_rfc793 bo" "k_IPPROTO_TCP (ref_kernel bo) = 6"
  "k_lpm_lookup (ref_kernel bo) = lpm_ref_lookup bo" "k_lpm_update (ref_kernel bo) = lpm_ref_update bo"
  by (simp_all add: ref_kernel_def)

lemma ref_kernel_trie: "lpm_trie (k_order (ref_kernel bo)) (k_lpm_lookup (ref_kernel bo)) (k_lpm_update (ref_kernel bo))"
  using lpm_ref.lpm_trie_axioms by simp

lemma put_entries_ref:
  "\<forall>e\<in>set es. unat (fst (lpmKeyFromNet bo (Prefix e))) \<le> 32 \<Longrightarrow>
     put_entries (ref_kernel bo) m es = Inr (foldl (store_entry bo) m es)"
  by (induction es arbitrary: m) (simp_all add: lpm_ref_update_def store_entry_def entry_key_def)

lemma Load_bpf_ref:
  "\<forall>e\<in>set (ds @ ss). unat (fst (lpmKeyFromNet bo (Prefix e))) \<le> 32 \<Longrightarrow>
     \<exists>s. Load_bpf (ref_kernel bo) (Some (bpf_init Map.empty Map.empty)) ds ss = Inr s"
  by (simp add: Load_bpf_def put_entries_ref)

definition sample_dst :: "zone_entry list" where
  "sample_dst =
     [\<lparr>ZoneID = 1, Prefix = \<lparr>net_ip = [10, 0, 0, 0], net_mask = cidr_mask 4 8\<rparr>\<rparr>,
      \<lparr>ZoneID = 2, Prefix = \<lparr>net_ip = [10, 1, 0, 0], net_mask = cidr_mask 4 16\<rparr>\<rparr>]"

definition sample_src :: "zone_entry list" where
  "sample_src = [\<lparr>ZoneID = 3, Prefix = \<lparr>net_ip = [192, 168, 0, 0], net_mask = cidr_mask 4 16\<rparr>\<rparr>]"

lemma sample_v4: "\<forall>e\<in>set (sample_dst @ sample_src). net_v4 (Prefix e)"
  by (simp add: sample_dst_def sample_src_def net_v4_def net_len_def Mask_Size_cidr_mask)

lemma lpmKey_v4: "net_v4 n \<Longrightarrow> unat (fst (lpmKeyFromNet bo n)) \<le> 32"
  by (auto simp: lpmKeyFromNet_def To4_def net_v4_def net_len_def unat_of_nat split: prod.split)

theorem loaded_maps_longest_match_witness:
  "\<exists>s. Load_bpf (ref_kernel Little) (Some (bpf_init Map.empty Map.empty)) sample_dst sample_src = Inr s \<and>
     lpm_ref_lookup Little (zone_lpm s) (32, word_of_mem Little [10, 1, 2, 3]) = Some 2"
proof -
  let ?k = "ref_kernel Little"
  obtain s where s: "Load_bpf ?k (Some (bpf_init Map.empty Map.empty)) sample_dst sample_src = Inr s"
    using Load_bpf_ref sample_v4 lpmKey_v4 by meson
  have bits: "net_covers (Prefix e) [10, 1, 2, 3]" if "e \<in> set sample_dst" for e
    using that by (auto simp: sample_dst_def net_covers_def net_len_def Mask_Size_cidr_mask mask_bits_def upt_rec)
  have "case k_lpm_lookup ?k (zone_lpm s) (32, word_of_mem (k_order ?k) [10, 1, 2, 3]) of
      None \<Rightarrow> \<forall>e\<in>set sample_dst. \<not> net_covers (Prefix e) [10, 1, 2, 3]
    | Some z \<Rightarrow> \<exists>e\<in>set sample_dst. ZoneID e = z \<and> net_covers (Prefix e) [10, 1, 2, 3] \<and>
        (\<forall>f\<in>set sample_dst. net_covers (Prefix f) [10, 1, 2, 3] \<longrightarrow> net_len (Prefix f) \<le> net_len (Prefix e))"
    by (rule loaded_maps_longest_match [OF ref_kernel_trie s sample_v4]) simp_all
  then have "lpm_ref_lookup Little (zone_lpm s) (32, word_of_mem Little [10, 1, 2, 3]) = Some 2"
    using bits
    by (auto simp: sample_dst_def net_len_def Mask_Size_cidr_mask split: option.splits)
  with s show ?thesis by blast
qed

text \<open>\<^verbatim>\<open>fd00::/8\<close>.\<close>

definition sample_v6 :: "zone_entry list" where
  "sample_v6 = [\<lparr>ZoneID = 1, Prefix = \<lparr>net_ip = 0xfd # replicate 15 0, net_mask = cidr_mask 16 8\<rparr>\<rparr>]"

lemma fd00_group: "parse_hex_group ''fd00::'' 0 0 = Some (0xfd00, 4, ''::'')"
  by (simp add: hex_val_def is_digit_def digit_val_def Let_def)

lemma fd00_loop: "parse_ipv6_loop (Suc n) ''fd00::'' [] None = Some ([0xfd,0], Some 2, [])"
  by (simp add: fd00_group del: parse_hex_group.simps)

lemma fd00_ipv6: "parse_ipv6_addr ''fd00::'' = Some (0xfd # replicate 15 0)"
  using fd00_loop [of 7] by (simp add: parse_ipv6_addr_def Let_def eval_nat_numeral(2,3) del: parse_hex_group.simps parse_ipv6_loop.simps)

lemma fd00_addr: "ParseAddr ''fd00::'' = Some (0xfd # replicate 15 0)"
  by (simp add: ParseAddr_def fd00_ipv6)

lemma fd00_mask: "cidr_mask 16 8 = 0xff # replicate 15 0"
proof -
  have z: "cidr_mask l 0 = replicate l 0" for l
    by (induction l) (simp_all add: mask_eq_exp_minus_1)
  have "cidr_mask (Suc 15) 8 = 0xff # replicate 15 0" by (simp only: cidr_mask.simps) (simp add: z)
  then show ?thesis by simp
qed

lemma fd00_cidr: "ParseCIDR ''fd00::/8'' = Some \<lparr>net_ip = 0xfd # replicate 15 0, net_mask = cidr_mask 16 8\<rparr>"
  by (simp add: ParseCIDR_def fd00_addr dtoi_def Let_def is_digit_def digit_val_def Mask_def fd00_mask zip_replicate)

theorem ipv6_subnet_matches_every_ipv4_witness:
  "ParseCIDR ''fd00::/8'' = Some \<lparr>net_ip = 0xfd # replicate 15 0, net_mask = cidr_mask 16 8\<rparr> \<and>
   (\<exists>s z. Load_bpf (ref_kernel Little) (Some (bpf_init Map.empty Map.empty)) sample_v6 [] = Inr s \<and>
     lpm_ref_lookup Little (zone_lpm s) (32, 0x04030201) = Some z)"
proof -
  have "hd (take 12 (0xfd # replicate 15 0 :: bytes)) \<noteq> hd v4in6_prefix" by (simp add: v4in6_prefix_def)
  then have t4: "To4 (0xfd # replicate 15 0) = None" by (simp add: To4_def) (metis list.sel(1))
  have "ParseCIDR ''fd00::/8'' = Some \<lparr>net_ip = 0xfd # replicate 15 0, net_mask = cidr_mask 16 8\<rparr>"
    by (rule fd00_cidr)
  moreover obtain s where s: "Load_bpf (ref_kernel Little) (Some (bpf_init Map.empty Map.empty)) sample_v6 [] = Inr s"
    using Load_bpf_ref [of sample_v6 "[]" Little] t4 by (auto simp: sample_v6_def lpmKeyFromNet_def)
  moreover have "\<exists>z. k_lpm_lookup (ref_kernel Little) (zone_lpm s) (32, 0x04030201) = Some z"
    by (rule ipv6_subnet_matches_every_ipv4 [OF ref_kernel_trie s, of "hd sample_v6"])
      (simp_all add: sample_v6_def t4)
  ultimately show ?thesis by auto
qed

end
