(* ===== verification/Detection.thy ===== *)
theory Detection
  imports Loader
begin

text \<open>
  Properties of the TC program over whole runs: the debug counters stay balanced, the maps stay well formed, and the duplicate filter recognises a segment that is seen
  a second time within one epoch, whatever traffic lies between. A flag needs earlier segments
  that set the same bits, and two data segments of one 16-byte block are the same to the filter.
  The sample packets at the end serve the witnesses.
\<close>

subsection \<open>The key of a segment\<close>

text \<open>
  The arguments of \<^verbatim>\<open>bloom_test_and_set\<close> for a segment, \<open>None\<close> for one that is not looked up:
  the addresses and ports, and the sequence number in units of 16 bytes for a segment with
  payload and exact for a connection request.
\<close>

definition segment_key :: "kernel \<Rightarrow> segment \<Rightarrow> (u32 \<times> u32 \<times> u16 \<times> u16 \<times> u32) option" where
  "segment_key k sg =
     (let th = sg_tcp sg; seq = bpf_ntohl (k_order k) False (th_seq th) in
      if sg_payload_len sg > 0
      then Some (sg_saddr sg, sg_daddr sg, th_source th, th_dest th, drop_bit 4 seq)
      else if th_syn th \<and> \<not> th_ack th
      then Some (sg_saddr sg, sg_daddr sg, th_source th, th_dest th, seq)
      else None)"

fun key_bits :: "u32 \<times> u32 \<times> u16 \<times> u16 \<times> u32 \<Rightarrow> u32 list" where
  "key_bits (sa, da, sp, dp, q) = bloom_key_bits sa da sp dp q"

lemma retrans_check_Some:
  assumes "segment_key k sg = Some (sa, da, sp, dp, q)"
  shows "retrans_check k sg s = bloom_test_and_set (bloom_epoch s) (bloom_bits s) sa da sp dp q"
  using assms by (auto simp: retrans_check_def segment_key_def Let_def split: if_splits)

lemma retrans_check_None:
  "segment_key k sg = None \<Longrightarrow> retrans_check k sg s = (False, bloom_bits s)"
  by (auto simp: retrans_check_def segment_key_def Let_def split: if_splits)

subsection \<open>Invariants of a run\<close>

lemma filter_wf_effect: "filter_wf s \<Longrightarrow> filter_wf (egress_effect k iv s)"
proof -
  assume wf: "filter_wf s"
  have step: "filter_wf (filter_step k iv sg z t)" if "filter_wf t" for sg z t
    using that roll_epoch_present [of "bloom_epoch t" "iv_now iv"] retrans_check_wf
      [of "t\<lparr>bloom_epoch := bloom_maybe_roll_epoch (iv_now iv) (bloom_epoch t)\<rparr>" k sg]
    by (auto simp: filter_wf_def filter_step_def Let_def split: prod.split)
  from wf have "filter_wf (count_class (iv_cpu iv) c s)" for c
    by (simp add: filter_wf_def)
  then show ?thesis
    using step by (simp add: egress_effect_def Let_def split: packet_class.split)
qed

lemma counters_wf_effect: "counters_wf s \<Longrightarrow> counters_wf (egress_effect k iv s)"
  by (auto simp: counters_wf_def egress_effect_def count_class_def Let_def
      split: packet_class.split drop_reason.split)

lemma counters_balanced_effect:
  assumes "counters_wf s" and "counters_balanced s"
  shows "counters_balanced (egress_effect k iv s)"
proof -
  have "counters_balanced (count_class cpu c s)" for cpu c
    using assms unfolding counters_wf_def counters_balanced_def
    by (auto simp: count_class_def Let_def algebra_simps split: packet_class.split drop_reason.split)
  then show ?thesis
    by (auto simp: egress_effect_def counters_balanced_def Let_def split: packet_class.split)
qed

lemma counters_run:
  "counters_wf s \<Longrightarrow> counters_balanced s \<Longrightarrow>
     counters_wf (foldl (\<lambda>s iv. egress_effect k iv s) s ivs) \<and>
     counters_balanced (foldl (\<lambda>s iv. egress_effect k iv s) s ivs)"
  by (induction ivs arbitrary: s) (simp_all add: counters_wf_effect counters_balanced_effect)

lemma bpf_init_wf: "counters_wf (bpf_init d s)" "counters_balanced (bpf_init d s)" "filter_wf (bpf_init d s)"
  by (simp_all add: counters_wf_def counters_balanced_def filter_wf_def present_def counter_def
      bpf_init_def array_map_def bloom_bits_init_wf bloom_epoch_init_def)

text \<open>
  After any sequence of packets on any CPUs, the debug counters of every CPU account for
  every packet: the packets seen are those dropped by the four parsing checks plus those with
  payload or a control flag, and the latter are those without source zone, without destination
  zone or with both (all modulo the 64-bit width of the counters).
\<close>

lemma debug_counters_conservation:
  "\<exists>s. run_egress k ivs (bpf_init dst src) = Some s \<and>
     counter (debug_seen s) cpu =
       counter (debug_not_ipv4 s) cpu + counter (debug_not_tcp s) cpu +
       counter (debug_tcp_short s) cpu + counter (debug_tcp_pure_ack s) cpu +
       counter (debug_tcp_payload s) cpu \<and>
     counter (debug_tcp_payload s) cpu =
       counter (debug_no_src_zone s) cpu + counter (debug_no_dst_zone s) cpu +
       counter (debug_tcp_zoned s) cpu"
  using counters_run [OF bpf_init_wf(1,2)] by (simp add: run_egress_eq counters_balanced_def)

subsection \<open>Detection\<close>

lemma filter_step_bits:
  "bloom_bits (filter_step k iv sg z s) =
     snd (retrans_check k sg (s\<lparr>bloom_epoch := bloom_maybe_roll_epoch (iv_now iv) (bloom_epoch s)\<rparr>))"
  "stats_rb (filter_step k iv sg z s) = stats_rb s @ event_of iv z
     (fst (retrans_check k sg (s\<lparr>bloom_epoch := bloom_maybe_roll_epoch (iv_now iv) (bloom_epoch s)\<rparr>)))"
  by (simp_all add: filter_step_def Let_def split: prod.split)

definition in_window :: "u64 \<Rightarrow> u64 \<Rightarrow> bool" where
  "in_window t0 now \<longleftrightarrow> t0 \<le> now \<and> now - t0 \<le> BLOOM_EPOCH_NS"

lemma remembers_effect:
  assumes "bloom_remembers bs g t0 (bloom_epoch s) (bloom_bits s)" and "in_window t0 (iv_now iv)"
  shows "bloom_remembers bs g t0 (bloom_epoch (egress_effect k iv s)) (bloom_bits (egress_effect k iv s))"
proof -
  have step: "bloom_remembers bs g t0 (bloom_epoch (filter_step k iv sg z t)) (bloom_bits (filter_step k iv sg z t))"
    if t: "bloom_remembers bs g t0 (bloom_epoch t) (bloom_bits t)" for sg z t
  proof -
    have rolled: "bloom_remembers bs g t0 (bloom_maybe_roll_epoch (iv_now iv) (bloom_epoch t)) (bloom_bits t)"
      using t assms(2) by (auto simp: in_window_def intro: bloom_remembers_roll)
    show ?thesis
    proof (cases "segment_key k sg")
      case None
      with rolled show ?thesis by (simp add: filter_step_bits retrans_check_None)
    next
      case (Some key)
      then obtain sa da sp dp q where "segment_key k sg = Some (sa, da, sp, dp, q)"
        by (cases key) auto
      with rolled show ?thesis
        by (simp add: filter_step_bits retrans_check_Some bloom_remembers_test_and_set)
    qed
  qed
  have "bloom_remembers bs g t0 (bloom_epoch (count_class n c s)) (bloom_bits (count_class n c s))" for n c
    using assms(1) by simp
  from this step [OF this] show ?thesis
    unfolding egress_effect_def Let_def by (simp only: split: packet_class.split) simp
qed

lemma remembers_run:
  assumes "bloom_remembers bs g t0 (bloom_epoch s) (bloom_bits s)"
    and "\<forall>iv\<in>set ivs. in_window t0 (iv_now iv)"
  shows "bloom_remembers bs g t0 (bloom_epoch (foldl (\<lambda>s iv. egress_effect k iv s) s ivs))
     (bloom_bits (foldl (\<lambda>s iv. egress_effect k iv s) s ivs))"
  using assms by (induction ivs arbitrary: s) (simp_all add: remembers_effect)

lemma remembers_first:
  assumes "filter_wf s" and "classify k s (iv_skb iv) = Zoned sg z" and "segment_key k sg = Some key"
  shows "\<exists>g. bloom_remembers (key_bits key) g t0 (bloom_epoch (egress_effect k iv s))
     (bloom_bits (egress_effect k iv s))"
proof -
  obtain sa da sp dp q where key: "key = (sa, da, sp, dp, q)" by (cases key)
  obtain e where "bloom_maybe_roll_epoch (iv_now iv) (bloom_epoch s) 0 = Some e"
    using assms(1) roll_epoch_present by (auto simp: filter_wf_def)
  then have "bloom_remembers (key_bits key) (ep_gen e) t0
      (bloom_maybe_roll_epoch (iv_now iv) (bloom_epoch s))
      (snd (bloom_test_and_set (bloom_maybe_roll_epoch (iv_now iv) (bloom_epoch s)) (bloom_bits s) sa da sp dp q))"
    using assms(1) key by (simp add: filter_wf_def bloom_test_and_set_remembers)
  with assms key show ?thesis
    by (auto simp: egress_effect_def filter_step_bits retrans_check_Some)
qed

lemma remembers_flagged:
  assumes "bloom_remembers (key_bits key) g t0 (bloom_epoch s) (bloom_bits s)"
    and "in_window t0 (iv_now iv)"
    and "classify k s (iv_skb iv) = Zoned sg z" and "segment_key k sg = Some key"
  shows "stats_rb (egress_effect k iv s) = stats_rb s @ event_of iv z True"
proof -
  obtain sa da sp dp q where key: "key = (sa, da, sp, dp, q)" by (cases key)
  have "bloom_remembers (key_bits key) g t0 (bloom_maybe_roll_epoch (iv_now iv) (bloom_epoch s)) (bloom_bits s)"
    using assms(1,2) by (auto simp: in_window_def intro: bloom_remembers_roll)
  then have "fst (bloom_test_and_set (bloom_maybe_roll_epoch (iv_now iv) (bloom_epoch s)) (bloom_bits s) sa da sp dp q)"
    using key by (auto intro: bloom_remembers_seen)
  with assms key show ?thesis
    by (simp add: egress_effect_def filter_step_bits retrans_check_Some)
qed

lemma retransmission_flagged:
  assumes "filter_wf s" and "classify k s (iv_skb iv1) = Zoned sg1 z1" and "segment_key k sg1 = Some key"
    and "run_egress k (iv1 # ivs) s = Some s1"
    and "\<forall>iv\<in>set (ivs @ [iv2]). in_window (iv_now iv1) (iv_now iv)"
    and "classify k s (iv_skb iv2) = Zoned sg2 z2" and "segment_key k sg2 = Some key"
    and "iv_reserve iv2 = Some slot"
  shows "\<exists>s2. path_egress k iv2 s1 = Some (TC_ACT_UNSPEC, s2) \<and>
     stats_rb s2 = stats_rb s1 @ [\<lparr>ev_ifindex = sk_ifindex (iv_skb iv2), ev_dst_zone_id = z2,
                                    ev_is_retrans = 1, ev_pad = ev_pad slot\<rparr>]"
proof -
  let ?s0 = "egress_effect k iv1 s"
  have s1: "s1 = foldl (\<lambda>s iv. egress_effect k iv s) ?s0 ivs"
    using assms(4) by (simp add: run_egress_eq path_egress_eq)
  obtain g where "bloom_remembers (key_bits key) g (iv_now iv1) (bloom_epoch ?s0) (bloom_bits ?s0)"
    using remembers_first [OF assms(1-3)] by blast
  then have mem: "bloom_remembers (key_bits key) g (iv_now iv1) (bloom_epoch s1) (bloom_bits s1)"
    unfolding s1 by (rule remembers_run) (use assms(5) in simp)
  have "classify k s1 (iv_skb iv2) = Zoned sg2 z2"
    using assms(6) classify_cong [of s1 s] s1 by simp
  from remembers_flagged [OF mem _ this assms(7)] assms(5,8) show ?thesis
    by (simp add: path_egress_eq event_of_def)
qed

text \<open>
  C1. A segment that is looked up in the filter and seen again within one epoch (1.5 seconds)
  is reported as a retransmission: whatever packets lie between, when the ring buffer has room
  the second run submits one event, for the second packet's interface and destination zone,
  with the retransmission flag set.
\<close>

theorem retransmission_detected:
  assumes "filter_wf s" and "classify k s (iv_skb iv1) = Zoned sg1 z1" and "segment_key k sg1 = Some key"
    and "run_egress k (iv1 # ivs) s = Some s1"
    and "\<forall>iv\<in>set (ivs @ [iv2]). in_window (iv_now iv1) (iv_now iv)"
    and "classify k s (iv_skb iv2) = Zoned sg2 z2" and "segment_key k sg2 = Some key"
    and "iv_reserve iv2 = Some slot"
  shows "\<exists>s2. path_egress k iv2 s1 = Some (TC_ACT_UNSPEC, s2) \<and>
     stats_rb s2 = stats_rb s1 @ [\<lparr>ev_ifindex = sk_ifindex (iv_skb iv2), ev_dst_zone_id = z2,
                                    ev_is_retrans = 1, ev_pad = ev_pad slot\<rparr>]"
  by (rule retransmission_flagged [OF assms])

text \<open>
  A segment without payload that is not a connection request (a bare FIN, RST or SYN-ACK)
  is counted but never reported as a retransmission, and leaves the bits of the filter alone.
\<close>

theorem control_segments_never_flagged:
  assumes "classify k s (iv_skb iv) = Zoned sg z" and "sg_payload_len sg = 0"
    and "th_ack (sg_tcp sg) \<or> \<not> th_syn (sg_tcp sg)"
  shows "\<exists>s'. path_egress k iv s = Some (TC_ACT_UNSPEC, s') \<and> bloom_bits s' = bloom_bits s \<and>
     stats_rb s' = stats_rb s @ event_of iv z False"
proof -
  have "segment_key k sg = None" using assms(2,3) by (auto simp: segment_key_def)
  with assms(1) show ?thesis
    by (simp add: path_egress_eq egress_effect_def filter_step_bits retrans_check_None)
qed

subsection \<open>A flag needs earlier segments\<close>

text \<open>\<open>bits_from B m\<close>: whatever bit tests as set, in any generation, is one of \<open>B\<close>.\<close>

definition bits_from :: "u32 set \<Rightarrow> bloom_bits_map \<Rightarrow> bool" where
  "bits_from B m \<longleftrightarrow> (\<forall>b g. valid_bit b \<longrightarrow> bloom_test_bit_gen m b g \<longrightarrow> b \<in> B)"

lemma unat_bloom_mask_pos: "unat (b AND 63) = unat b mod 64" for b :: u32
proof -
  have "b AND 63 = take_bit 6 b" by (simp add: take_bit_eq_mask mask_eq_exp_minus_1)
  then show ?thesis by (simp add: take_bit_eq_mod unat_mod)
qed

lemma same_word_same_bit:
  assumes "valid_bit b" and "valid_bit c" and "bloom_idx b g = bloom_idx c g"
    and "bloom_mask c AND bloom_mask b \<noteq> 0"
  shows "b = c"
proof -
  have "unat b div 64 = unat c div 64"
    using assms(1-3) unat_bloom_idx by (metis add_left_cancel)
  moreover have "unat b mod 64 = unat c mod 64"
  proof (rule ccontr)
    assume ne: "unat b mod 64 \<noteq> unat c mod 64"
    have "bloom_mask c AND bloom_mask b = 0"
      by (rule bit_word_eqI) (use ne in \<open>auto simp: bloom_mask_def bit_simps unat_bloom_mask_pos\<close>)
    with assms(4) show False by simp
  qed
  ultimately have "unat b = unat c" by (metis div_mult_mod_eq)
  then show ?thesis by (simp add: word_unat_eq_iff)
qed

lemma bits_from_set:
  assumes "bits_from B m" and "valid_bit c"
  shows "bits_from (insert c B) (bloom_set_bit_gen m c g)"
  unfolding bits_from_def
proof (intro allI impI)
  fix b h assume b: "valid_bit b" "bloom_test_bit_gen (bloom_set_bit_gen m c g) b h"
  show "b \<in> insert c B"
  proof (cases "bloom_idx b h = bloom_idx c g")
    case False
    with b(2) have "bloom_test_bit_gen m b h"
      by (simp add: bloom_test_bit_gen_iff bloom_set_bit_gen_eq map_write_other)
    with assms(1) b(1) show ?thesis by (auto simp: bits_from_def)
  next
    case True
    from b(2) True obtain w where w: "m (bloom_idx c g) = Some w" and "h = g"
      and bits: "((if bw_gen w = g then bw_bits w else 0) OR bloom_mask c) AND bloom_mask b \<noteq> 0"
      by (auto simp: bloom_test_bit_gen_iff bloom_set_bit_gen_eq map_write_def bloom_word_set_def
          split: option.splits if_splits)
    show ?thesis
    proof (cases "bloom_mask c AND bloom_mask b = 0")
      case False
      with same_word_same_bit [OF b(1) assms(2)] True \<open>h = g\<close> show ?thesis by simp
    next
      case mask: True
      with bits have "bw_gen w = g" and "bw_bits w AND bloom_mask b \<noteq> 0"
        by (auto simp: bit.conj_disj_distrib2 split: if_splits)
      with w True \<open>h = g\<close> have "bloom_test_bit_gen m b h" by (auto simp: bloom_test_bit_gen_iff)
      with assms(1) b(1) show ?thesis by (auto simp: bits_from_def)
    qed
  qed
qed

lemma bits_from_sets:
  "bits_from B m \<Longrightarrow> \<forall>b\<in>set bs. valid_bit b \<Longrightarrow> bits_from (set bs \<union> B) (foldl (\<lambda>m b. bloom_set_bit_gen m b g) m bs)"
proof (induction bs arbitrary: m B)
  case (Cons b bs)
  then have "bits_from (set bs \<union> insert b B) (foldl (\<lambda>m b. bloom_set_bit_gen m b g) (bloom_set_bit_gen m b g) bs)"
    by (intro Cons.IH bits_from_set) auto
  then show ?case by simp
qed simp

text \<open>The bits of the keys of the zoned packets of a run.\<close>

definition packet_bits :: "kernel \<Rightarrow> bpf_state \<Rightarrow> invocation \<Rightarrow> u32 set" where
  "packet_bits k s iv =
     (case classify k s (iv_skb iv) of
        Zoned sg z \<Rightarrow> (case segment_key k sg of None \<Rightarrow> {} | Some key \<Rightarrow> set (key_bits key))
      | _ \<Rightarrow> {})"

lemma key_bits_valid: "\<forall>b\<in>set (key_bits key). valid_bit b"
  by (cases key) (simp add: bloom_key_bits_valid)

lemma bits_from_effect:
  assumes "bits_from B (bloom_bits s)" and "filter_wf s"
  shows "bits_from (packet_bits k s iv \<union> B) (bloom_bits (egress_effect k iv s))"
proof (cases "classify k s (iv_skb iv)")
  case (Zoned sg z)
  show ?thesis
  proof (cases "segment_key k sg")
    case None
    with assms Zoned show ?thesis
      by (simp add: egress_effect_def filter_step_bits retrans_check_None packet_bits_def)
  next
    case (Some key)
    obtain sa da sp dp q where key: "key = (sa, da, sp, dp, q)" by (cases key)
    obtain e where e: "bloom_maybe_roll_epoch (iv_now iv) (bloom_epoch s) 0 = Some e"
      using assms(2) roll_epoch_present by (auto simp: filter_wf_def)
    have "bits_from (set (bloom_key_bits sa da sp dp q) \<union> B)
        (foldl (\<lambda>m b. bloom_set_bit_gen m b (ep_gen e)) (bloom_bits s) (bloom_key_bits sa da sp dp q))"
      by (rule bits_from_sets [OF assms(1) bloom_key_bits_valid])
    with Zoned Some key e show ?thesis
      by (simp add: egress_effect_def filter_step_bits retrans_check_Some packet_bits_def bloom_test_and_set_eq)
  qed
qed (use assms in \<open>simp_all add: egress_effect_def packet_bits_def\<close>)

lemma bits_from_run:
  assumes "bits_from B (bloom_bits s)" and "filter_wf s"
  shows "bits_from (\<Union>(packet_bits k s ` set ivs) \<union> B) (bloom_bits (foldl (\<lambda>s iv. egress_effect k iv s) s ivs))"
  using assms
proof (induction ivs arbitrary: s B)
  case (Cons iv ivs)
  have same: "packet_bits k (egress_effect k iv s) = packet_bits k s"
    using classify_cong [of "egress_effect k iv s" s] by (auto simp: packet_bits_def)
  from Cons.IH [OF bits_from_effect [OF Cons.prems, of k iv] filter_wf_effect [OF Cons.prems(2), of k iv]] same
  show ?case by (simp add: Un_ac)
qed simp

lemma bloom_seen_bit:
  assumes "fst (bloom_test_and_set em m sa da sp dp q)" and "b \<in> set (bloom_key_bits sa da sp dp q)"
  shows "\<exists>g. bloom_test_bit_gen m b g"
proof (cases "em 0")
  case None
  with assms(1) show ?thesis by (simp add: bloom_test_and_set_def bpf_map_lookup_elem_def)
next
  case (Some e)
  with assms show ?thesis by (auto simp: bloom_test_and_set_eq)
qed

lemma bits_from_init: "bits_from {} bloom_bits_init"
  by (auto simp: bits_from_def bloom_test_bit_gen_iff bloom_bits_init_def array_map_def split: if_splits)

text \<open>
  C4. Starting from the maps as loaded, a packet is reported as a retransmission only when each
  of the three filter bits of its key was set by an earlier packet of the run: in particular
  the first looked-up segment is never reported, and a wrong report needs a collision of all
  three bits with the keys of earlier segments.
\<close>

theorem flag_needs_earlier_bits:
  assumes "run_egress k ivs (bpf_init dst src) = Some s"
    and "path_egress k iv s = Some (act, s')" and "stats_rb s' = stats_rb s @ [ev]" and "ev_is_retrans ev \<noteq> 0"
  shows "\<exists>sg z key. classify k (bpf_init dst src) (iv_skb iv) = Zoned sg z \<and> segment_key k sg = Some key \<and>
     (\<forall>b\<in>set (key_bits key). \<exists>iv0\<in>set ivs. b \<in> packet_bits k (bpf_init dst src) iv0)"
proof -
  let ?i = "bpf_init dst src"
  have s: "s = foldl (\<lambda>s iv. egress_effect k iv s) ?i ivs" using assms(1) by (simp add: run_egress_eq)
  have from_run: "bits_from (\<Union>(packet_bits k ?i ` set ivs)) (bloom_bits s)"
    using bits_from_run [of "{}" ?i k ivs] bits_from_init bpf_init_wf(3) s by (simp add: bpf_init_def)
  have s': "s' = egress_effect k iv s" using assms(2) by (simp add: path_egress_eq)
  obtain sg z where c: "classify k s (iv_skb iv) = Zoned sg z"
    using assms(3) s' by (cases "classify k s (iv_skb iv)") (simp_all add: egress_effect_def)
  let ?r = "retrans_check k sg (s\<lparr>bloom_epoch := bloom_maybe_roll_epoch (iv_now iv) (bloom_epoch s)\<rparr>)"
  have cong: "retrans_check k sg (count_class n c s\<lparr>bloom_epoch := em\<rparr>) = retrans_check k sg (s\<lparr>bloom_epoch := em\<rparr>)" for n c em
    by (rule retrans_check_cong) simp_all
  have "event_of iv z (fst ?r) = [ev]"
    using assms(3) s' c cong by (simp add: egress_effect_def filter_step_bits)
  with assms(4) have r: "fst ?r" by (auto simp: event_of_def split: option.splits if_splits)
  then obtain key where key: "segment_key k sg = Some key"
    by (cases "segment_key k sg") (simp_all add: retrans_check_None)
  obtain sa da sp dp q where kk: "key = (sa, da, sp, dp, q)" by (cases key)
  have "b \<in> \<Union>(packet_bits k ?i ` set ivs)" if b: "b \<in> set (key_bits key)" for b
  proof -
    obtain g where "bloom_test_bit_gen (bloom_bits s) b g"
      using r b key kk by (auto simp: retrans_check_Some dest!: bloom_seen_bit)
    moreover have "valid_bit b" using b key_bits_valid by blast
    ultimately show ?thesis using from_run by (auto simp: bits_from_def)
  qed
  moreover have "classify k ?i (iv_skb iv) = Zoned sg z" using c classify_cong [of ?i s] s by simp
  ultimately show ?thesis using key by blast
qed

subsection \<open>Sample packets\<close>

text \<open>
  An Ethernet frame with a TCP segment of 8 bytes from 192.168.0.1:40000 to 10.1.2.3:443, with
  the last byte of the sequence number and the flags as arguments.
\<close>

definition sample_tcp :: "u8 \<Rightarrow> u8 \<Rightarrow> bytes" where
  "sample_tcp q flags = [0x9c, 0x40, 0x01, 0xbb, 0, 0, 0, q, 0, 0, 0, 0, 0x50, flags, 0, 0, 0, 0, 0, 0]"

definition sample_frame :: "u8 \<Rightarrow> u8 \<Rightarrow> u8 \<Rightarrow> bytes" where
  "sample_frame tot q flags =
     [2, 0, 0, 0, 0, 2, 2, 0, 0, 0, 0, 1, 0x08, 0x00] @
     [0x45, 0, 0, tot, 0, 0, 0, 0, 64, 6, 0, 0, 192, 168, 0, 1, 10, 1, 2, 3] @
     sample_tcp q flags @ [1, 2, 3, 4, 5, 6, 7, 8]"

definition sample_skb :: "u8 \<Rightarrow> u8 \<Rightarrow> u8 \<Rightarrow> sk_buff" where
  "sample_skb tot q flags = \<lparr>sk_data = sample_frame tot q flags, sk_protocol = 8, sk_ifindex = 2\<rparr>"

definition sample_segment :: "u8 \<Rightarrow> u8 \<Rightarrow> u32 \<Rightarrow> segment" where
  "sample_segment q flags n =
     \<lparr>sg_saddr = word_of_mem Little [192, 168, 0, 1], sg_daddr = word_of_mem Little [10, 1, 2, 3],
      sg_tcp = tcphdr_rfc793 Little (sample_tcp q flags), sg_payload_len = n\<rparr>"

definition sample_invocation :: "u8 \<Rightarrow> u8 \<Rightarrow> u8 \<Rightarrow> u64 \<Rightarrow> invocation" where
  "sample_invocation tot q flags now =
     \<lparr>iv_skb = sample_skb tot q flags, iv_cpu = 0, iv_now = now,
      iv_reserve = Some \<lparr>ev_ifindex = 0, ev_dst_zone_id = 0, ev_is_retrans = 0, ev_pad = 7\<rparr>\<rparr>"

definition sample_state :: bpf_state where
  "sample_state =
     bpf_init [lpm_canon Little (32, word_of_mem Little [10, 1, 2, 3]) \<mapsto> 1]
              [lpm_canon Little (32, word_of_mem Little [192, 168, 0, 1]) \<mapsto> 3]"

lemma lpm_ref_lookup_exact:
  "lpm_ref_lookup bo [lpm_canon bo (32, a) \<mapsto> v] (32, a) = Some v"
proof -
  have "lpm_search bo [lpm_canon bo (32, a) \<mapsto> v] a (Suc 31) = Some v"
    by (simp only: lpm_search.simps) simp
  then show ?thesis by (simp add: lpm_ref_lookup_def)
qed

lemma parse_ipv4_sample: "parse_ipv4 Little (sample_skb tot q flags) = Some (Some 14)"
proof -
  have "rev (bytes_le 2 ETH_P_IP) = [8, 0]" by code_simp
  then show ?thesis
    by (simp add: parse_ipv4_def sample_skb_def sample_frame_def sample_tcp_def Let_def load16_def
        load_bytes_def load_eq_htons_iff)
qed

lemma parse_sample_data:
  "parse_segment (ref_kernel Little) (sample_skb 48 q 0x18) = Some (Inr (sample_segment q 0x18 8))"
  by (simp add: parse_segment_def parse_ipv4_sample, simp add: parse_tcp_def sample_skb_def load8_def
      load_bytes_def sample_frame_def sample_tcp_def Let_def load_tcphdr_def iphdr_ihl_def load16_def
      load32_def load_simps sample_segment_def tcphdr_rfc793_def)

lemma parse_sample_fin:
  "parse_segment (ref_kernel Little) (sample_skb 40 q 0x11) = Some (Inr (sample_segment q 0x11 0))"
  by (simp add: parse_segment_def parse_ipv4_sample, simp add: parse_tcp_def sample_skb_def load8_def
      load_bytes_def sample_frame_def sample_tcp_def Let_def load_tcphdr_def iphdr_ihl_def load16_def
      load32_def load_simps sample_segment_def tcphdr_rfc793_def bit_simps)

lemma classify_sample:
  "parse_segment (ref_kernel Little) skb = Some (Inr (sample_segment q f n)) \<Longrightarrow>
     classify (ref_kernel Little) sample_state skb = Zoned (sample_segment q f n) 1"
  by (simp add: classify_def sample_segment_def sample_state_def bpf_init_def lpm_ref_lookup_exact)


lemma segment_key_sample:
  "segment_key (ref_kernel Little) (sample_segment q f 8) =
     Some (word_of_mem Little [192, 168, 0, 1], word_of_mem Little [10, 1, 2, 3],
       word_of_mem Little [0x9c, 0x40], word_of_mem Little [0x01, 0xbb], drop_bit 4 (ucast q))"
  by (simp add: segment_key_def sample_segment_def tcphdr_rfc793_def sample_tcp_def load_simps word_gt_0)

lemma sample_state_wf: "filter_wf sample_state"
  by (simp add: sample_state_def bpf_init_wf)

lemmas sample_data = classify_sample [OF parse_sample_data]

theorem retransmission_detected_witness:
  "\<exists>s1 s2. run_egress (ref_kernel Little) [sample_invocation 48 16 0x18 5, sample_invocation 48 200 0x18 1000] sample_state = Some s1 \<and>
     path_egress (ref_kernel Little) (sample_invocation 48 16 0x18 1500000005) s1 = Some (TC_ACT_UNSPEC, s2) \<and>
     stats_rb s2 = stats_rb s1 @ [\<lparr>ev_ifindex = 2, ev_dst_zone_id = 1, ev_is_retrans = 1, ev_pad = 7\<rparr>]"
proof -
  let ?k = "ref_kernel Little" and ?iv = "\<lambda>q. sample_invocation 48 q 0x18"
  obtain s1 where s1: "run_egress ?k [?iv 16 5, ?iv 200 1000] sample_state = Some s1"
    using run_egress_total by blast
  have "\<exists>s2. path_egress ?k (?iv 16 1500000005) s1 = Some (TC_ACT_UNSPEC, s2) \<and>
     stats_rb s2 = stats_rb s1 @ [\<lparr>ev_ifindex = sk_ifindex (iv_skb (?iv 16 1500000005)), ev_dst_zone_id = 1,
        ev_is_retrans = 1, ev_pad = ev_pad \<lparr>ev_ifindex = 0, ev_dst_zone_id = 0, ev_is_retrans = 0, ev_pad = 7\<rparr>\<rparr>]"
    by (rule retransmission_detected [OF sample_state_wf _ segment_key_sample s1 _ _ segment_key_sample])
      (simp_all add: sample_invocation_def sample_data in_window_def BLOOM_EPOCH_NS_def)
  with s1 show ?thesis by (auto simp: sample_invocation_def sample_skb_def)
qed

theorem control_segments_never_flagged_witness:
  "\<exists>s'. path_egress (ref_kernel Little) (sample_invocation 40 16 0x11 5) sample_state = Some (TC_ACT_UNSPEC, s') \<and>
     bloom_bits s' = bloom_bits sample_state \<and>
     stats_rb s' = [\<lparr>ev_ifindex = 2, ev_dst_zone_id = 1, ev_is_retrans = 0, ev_pad = 7\<rparr>]"
proof -
  have "\<exists>s'. path_egress (ref_kernel Little) (sample_invocation 40 16 0x11 5) sample_state = Some (TC_ACT_UNSPEC, s') \<and>
     bloom_bits s' = bloom_bits sample_state \<and>
     stats_rb s' = stats_rb sample_state @ event_of (sample_invocation 40 16 0x11 5) 1 False"
    by (rule control_segments_never_flagged [of _ _ _ "sample_segment 16 0x11 0"])
      (simp_all add: sample_invocation_def classify_sample parse_sample_fin,
       simp_all add: sample_segment_def tcphdr_rfc793_def sample_tcp_def bit_simps)
  then show ?thesis
    by (simp add: sample_invocation_def sample_skb_def event_of_def sample_state_def bpf_init_def)
qed

theorem flag_needs_earlier_bits_witness:
  "\<exists>sg z key. classify (ref_kernel Little) sample_state (sample_skb 48 16 0x18) = Zoned sg z \<and>
     segment_key (ref_kernel Little) sg = Some key \<and>
     (\<forall>b\<in>set (key_bits key). b \<in> packet_bits (ref_kernel Little) sample_state (sample_invocation 48 16 0x18 5))"
proof -
  let ?k = "ref_kernel Little" and ?iv = "\<lambda>t. sample_invocation 48 16 0x18 t"
  let ?d = "[lpm_canon Little (32 :: u32, word_of_mem Little [10, 1, 2, 3]) \<mapsto> 1 :: u8]"
  let ?s = "[lpm_canon Little (32 :: u32, word_of_mem Little [192, 168, 0, 1]) \<mapsto> 3 :: u8]"
  obtain s1 where s1: "run_egress ?k [?iv 5] sample_state = Some s1"
    using run_egress_total by blast
  have "\<exists>s2. path_egress ?k (?iv 9) s1 = Some (TC_ACT_UNSPEC, s2) \<and>
     stats_rb s2 = stats_rb s1 @ [\<lparr>ev_ifindex = sk_ifindex (iv_skb (?iv 9)), ev_dst_zone_id = 1,
        ev_is_retrans = 1, ev_pad = ev_pad \<lparr>ev_ifindex = 0, ev_dst_zone_id = 0, ev_is_retrans = 0, ev_pad = 7\<rparr>\<rparr>]"
    by (rule retransmission_flagged [OF sample_state_wf _ segment_key_sample s1 _ _ segment_key_sample])
      (simp_all add: sample_invocation_def sample_data in_window_def BLOOM_EPOCH_NS_def)
  then obtain s2 where s2: "path_egress ?k (?iv 9) s1 = Some (TC_ACT_UNSPEC, s2)"
    and ev: "stats_rb s2 = stats_rb s1 @ [\<lparr>ev_ifindex = sk_ifindex (iv_skb (?iv 9)), ev_dst_zone_id = 1,
        ev_is_retrans = 1, ev_pad = ev_pad \<lparr>ev_ifindex = 0, ev_dst_zone_id = 0, ev_is_retrans = 0, ev_pad = 7\<rparr>\<rparr>]"
    by blast
  from flag_needs_earlier_bits [OF s1 [unfolded sample_state_def] s2 ev] show ?thesis
    by (simp add: sample_state_def sample_invocation_def)
qed


text \<open>
  C31. The filter keeps the sequence number of a data segment in units of 16 bytes: a segment is
  reported as a retransmission when one with the same addresses and ports whose sequence number
  lies in the same 16-byte block was seen within the epoch, even if the two numbers differ.
\<close>

theorem same_block_reported_as_retransmission:
  assumes "filter_wf s" and "classify k s (iv_skb iv1) = Zoned sg1 z1" and "classify k s (iv_skb iv2) = Zoned sg2 z2"
    and "(sg_saddr sg1, sg_daddr sg1, th_source (sg_tcp sg1), th_dest (sg_tcp sg1)) =
         (sg_saddr sg2, sg_daddr sg2, th_source (sg_tcp sg2), th_dest (sg_tcp sg2))"
    and "0 < sg_payload_len sg1" and "0 < sg_payload_len sg2"
    and "drop_bit 4 (bpf_ntohl (k_order k) False (th_seq (sg_tcp sg1))) =
         drop_bit 4 (bpf_ntohl (k_order k) False (th_seq (sg_tcp sg2)))"
    and "in_window (iv_now iv1) (iv_now iv2)" and "iv_reserve iv2 = Some slot"
  shows "\<exists>s2 ev. run_egress k [iv1, iv2] s = Some s2 \<and> last (stats_rb s2) = ev \<and>
     ev_is_retrans ev = 1 \<and> ev_dst_zone_id ev = z2"
proof -
  obtain s1 where s1: "run_egress k [iv1] s = Some s1" using run_egress_total by blast
  have key: "segment_key k sg1 = segment_key k sg2" and "segment_key k sg1 \<noteq> None"
    using assms(4-7) by (auto simp: segment_key_def Let_def)
  then obtain key where k1: "segment_key k sg1 = Some key" and k2: "segment_key k sg2 = Some key"
    by (metis option.exhaust)
  from retransmission_flagged [OF assms(1,2) k1 s1 _ assms(3) k2 assms(9)] assms(8)
  obtain s2 where "path_egress k iv2 s1 = Some (TC_ACT_UNSPEC, s2)"
    and "stats_rb s2 = stats_rb s1 @ [\<lparr>ev_ifindex = sk_ifindex (iv_skb iv2), ev_dst_zone_id = z2,
                                    ev_is_retrans = 1, ev_pad = ev_pad slot\<rparr>]" by auto
  with s1 show ?thesis by (auto split: option.splits)
qed

text \<open>Two segments of 8 bytes with the sequence numbers 16 and 24: new data, reported as a retransmission.\<close>

theorem same_block_reported_as_retransmission_witness:
  "\<exists>s2 ev. run_egress (ref_kernel Little) [sample_invocation 48 16 0x18 5, sample_invocation 48 24 0x18 6] sample_state = Some s2 \<and>
     last (stats_rb s2) = ev \<and> ev_is_retrans ev = 1 \<and> ev_dst_zone_id ev = 1"
proof -
  show ?thesis
    by (rule same_block_reported_as_retransmission
        [OF sample_state_wf, of _ _ "sample_segment 16 0x18 8" 1 _ "sample_segment 24 0x18 8"])
      (simp_all add: sample_invocation_def sample_data in_window_def BLOOM_EPOCH_NS_def sample_segment_def
        tcphdr_rfc793_def sample_tcp_def load_simps word_gt_0)
qed

subsection \<open>The counters as the exporter reads them\<close>

lemma sumPerCPU_eq: "present m \<Longrightarrow> sumPerCPU m cpus = Some (\<Sum>cpu\<leftarrow>cpus. counter m cpu)"
  by (induction cpus) (auto simp: present_def counter_def split: option.splits)

end
