(* ===== verification/Parsing.thy ===== *)
theory Parsing
  imports Detection
begin

text \<open>
  What the parser of \<^verbatim>\<open>path_egress\<close> finds in a packet: which bytes \<^verbatim>\<open>parse_ipv4\<close> takes for the
  IPv4 header, a class of packets without Ethernet header it misreads, and the lengths of an
  accepted segment.
\<close>

subsection \<open>The parser\<close>

lemma eth_proto_iff:
  assumes "14 \<le> length data"
  shows "word_of_mem bo (take 2 (drop 12 data)) = bpf_htons bo True ETH_P_IP \<longleftrightarrow> data ! 12 = 8 \<and> data ! 13 = 0"
proof -
  have "rev (bytes_le 2 ETH_P_IP) = [8, 0]" by code_simp
  moreover have "take 2 (drop 12 data) = [data ! 12, data ! 13]"
    using assms by (intro nth_equalityI) (auto simp: less_Suc_eq numeral_2_eq_2)
  ultimately show ?thesis by (simp add: load_eq_htons_iff)
qed

lemma parse_ipv4_eq:
  "parse_ipv4 bo skb = Some
     (let data = sk_data skb; n = length data in
      if 14 \<le> n \<and> data ! 12 = 8 \<and> data ! 13 = 0 then (if 34 \<le> n then Some 14 else None)
      else if sk_protocol skb = ucast (bpf_htons bo True ETH_P_IP) \<and> 20 \<le> n then Some 0 else None)"
  by (auto simp: parse_ipv4_def Let_def load16_def load_bytes_def eth_proto_iff)

text \<open>
  Which header \<^verbatim>\<open>parse_ipv4\<close> finds, on either byte order: the one behind an Ethernet header
  whose type field, bytes 12 and 13, is 0x0800, provided both headers are in the packet;
  otherwise the one at the start of the packet when the socket buffer says the protocol is IPv4
  and 20 bytes are there; otherwise none.
\<close>

theorem parse_ipv4_finds:
  "parse_ipv4 bo skb = Some
     (let data = sk_data skb; n = length data in
      if 14 \<le> n \<and> data ! 12 = 8 \<and> data ! 13 = 0 then (if 34 \<le> n then Some 14 else None)
      else if sk_protocol skb = ucast (bpf_htons bo True ETH_P_IP) \<and> 20 \<le> n then Some 0 else None)"
  by (rule parse_ipv4_eq)

text \<open>
  C33. A packet without Ethernet header (as on a WireGuard interface) whose IPv4 source address
  starts with 8.0 is misread when it is 34 bytes or longer: bytes 12 and 13 of its IPv4 header
  pass for the type field, and the header is taken 14 bytes too late, whatever the socket buffer
  says.
\<close>

theorem l3_packet_from_8_0_misread:
  assumes "sk_data skb = [v, tos, l1, l0, i1, i0, f1, f0, ttl, proto, c1, c0, 8, 0, s1, s0] @ rest"
    and "18 \<le> length rest"
  shows "parse_ipv4 bo skb = Some (Some 14)"
  using assms by (simp add: parse_ipv4_eq Let_def)

theorem l3_packet_from_8_0_misread_witness:
  "parse_ipv4 Little \<lparr>sk_data = [0x45, 0, 0, 40, 0, 0, 0, 0, 64, 6, 0, 0, 8, 0, 0, 1, 10, 1, 2, 3] @
      sample_tcp 16 0x18, sk_protocol = ucast (bpf_htons Little True ETH_P_IP), sk_ifindex = 2\<rparr> = Some (Some 14)"
  (is "parse_ipv4 Little ?skb = _")
proof -
  have "sk_data ?skb = [0x45, 0, 0, 40, 0, 0, 0, 0, 64, 6, 0, 0, 8, 0, 0, 1] @ [10, 1, 2, 3] @ sample_tcp 16 0x18"
    by simp
  then show ?thesis by (rule l3_packet_from_8_0_misread) (simp add: sample_tcp_def)
qed

text \<open>
  C29. The lengths of an accepted segment: the TCP header lies in the packet, its declared length
  is at least that of the fixed header, and the payload length is the exact difference of the
  declared lengths, with no wrap-around in the 16-bit and 32-bit arithmetic. A segment without
  payload carries SYN, FIN or RST.
\<close>

theorem parsed_segment_lengths:
  assumes "parse_tcp k data iph = Some (Inr sg)"
  shows "iph + 4 * unat (iphdr_ihl (data ! iph)) + k_tcphdr_size k \<le> length data \<and>
    k_tcphdr_size k \<le> 4 * unat (th_doff (sg_tcp sg)) \<and>
    unat (sg_payload_len sg) + 4 * unat (iphdr_ihl (data ! iph)) + 4 * unat (th_doff (sg_tcp sg)) =
      unat (word_le (rev (take 2 (drop (iph + 2) data))) :: u16) \<and>
    (sg_payload_len sg \<noteq> 0 \<or> th_syn (sg_tcp sg) \<or> th_fin (sg_tcp sg) \<or> th_rst (sg_tcp sg))"
proof -
  let ?ihl = "iphdr_ihl (data ! iph)" and ?tot = "word_le (rev (take 2 (drop (iph + 2) data))) :: u16"
  let ?doff = "th_doff (sg_tcp sg)"
  have thl: "unat (ucast d * 4 :: u16) = 4 * unat d" "unat (ucast (ucast d * 4 :: u16) :: u32) = 4 * unat d"
    "unat (ucast d * 4 :: u32) = 4 * unat d" for d :: u8
  proof -
    have lt: "unat d < 256" using unsigned_less [of d, where 'a = nat] by simp
    show 1: "unat (ucast d * 4 :: u16) = 4 * unat d" and "unat (ucast d * 4 :: u32) = 4 * unat d"
      using lt by (simp_all add: unat_word_ariths unsigned_ucast_eq take_bit_nat_eq_self)
    with lt show "unat (ucast (ucast d * 4 :: u16) :: u32) = 4 * unat d"
      by (simp add: unsigned_ucast_eq take_bit_nat_eq_self)
  qed
  have tot: "unat (ucast w :: u32) = unat w" for w :: u16
    using unsigned_less [of w, where 'a = nat] by (simp add: unsigned_ucast_eq take_bit_nat_eq_self)
  have base: "iph + 9 < length data"
    using assms by (auto simp: parse_tcp_def load8_def split: if_splits)
  have "iph + 4 * unat ?ihl + k_tcphdr_size k \<le> length data \<and> k_tcphdr_size k \<le> unat (ucast ?doff * 4 :: u16) \<and>
     \<not> (ucast ?tot :: u32) < ucast ?ihl * 4 + ucast (ucast ?doff * 4 :: u16) \<and>
     sg_payload_len sg = ucast ?tot - ucast ?ihl * 4 - ucast (ucast ?doff * 4 :: u16) \<and>
     (sg_payload_len sg \<noteq> 0 \<or> th_syn (sg_tcp sg) \<or> th_fin (sg_tcp sg) \<or> th_rst (sg_tcp sg))"
    using assms base
    by (auto simp: parse_tcp_def Let_def load_simps load_tcphdr_def mult.commute not_less
        Option.bind_eq_Some_conv split: if_splits)
  then have le: "iph + 4 * unat ?ihl + k_tcphdr_size k \<le> length data" "k_tcphdr_size k \<le> 4 * unat ?doff"
    and ok: "\<not> (ucast ?tot :: u32) < ucast ?ihl * 4 + ucast (ucast ?doff * 4 :: u16)"
    and pay: "sg_payload_len sg = ucast ?tot - ucast ?ihl * 4 - ucast (ucast ?doff * 4 :: u16)"
    and flags: "sg_payload_len sg \<noteq> 0 \<or> th_syn (sg_tcp sg) \<or> th_fin (sg_tcp sg) \<or> th_rst (sg_tcp sg)"
    unfolding thl by blast+
  have "4 * unat ?ihl + 4 * unat ?doff < 2 ^ 32"
    using unsigned_less [of ?doff, where 'a = nat] unsigned_less [of ?ihl, where 'a = nat] by simp
  then have sum: "unat (ucast ?ihl * 4 + ucast (ucast ?doff * 4 :: u16) :: u32) = 4 * unat ?ihl + 4 * unat ?doff"
    by (simp only: unat_word_ariths(1) thl) simp
  then have fit: "4 * unat ?ihl + 4 * unat ?doff \<le> unat ?tot"
    using ok by (simp only: not_less word_le_nat_alt tot)
  have "unat (sg_payload_len sg) = unat ?tot - (4 * unat ?ihl + 4 * unat ?doff)"
    using fit sum unat_sub [of "ucast ?ihl * 4 + ucast (ucast ?doff * 4 :: u16)" "ucast ?tot :: u32"]
    by (simp only: pay diff_diff_eq word_le_nat_alt tot)
  with fit le flags show ?thesis by simp
qed

theorem parsed_segment_lengths_witness:
  "parse_tcp (ref_kernel Little) (sample_frame 48 16 0x18) 14 = Some (Inr (sample_segment 16 0x18 8)) \<and>
   14 + 4 * unat (iphdr_ihl (sample_frame 48 16 0x18 ! 14)) + 20 \<le> length (sample_frame 48 16 0x18)"
proof -
  have p: "parse_tcp (ref_kernel Little) (sample_frame 48 16 0x18) 14 = Some (Inr (sample_segment 16 0x18 8))"
    using parse_sample_data [of 16] by (simp add: parse_segment_def parse_ipv4_sample) (simp add: sample_skb_def)
  with parsed_segment_lengths [OF p] show ?thesis by simp
qed

end
