(* ===== verification/Reader.thy ===== *)
theory Reader
  imports Loader
begin

text \<open>
  The user-space end of the ring buffer in \<^verbatim>\<open>cmd/ebpf-packet-loss-exporter/main.go\<close>: decoding a
  record (\<^verbatim>\<open>parseStatsEvent\<close>), the per-zone counters (\<^verbatim>\<open>accumulator\<close>), the index of the zones and
  the loop of \<^verbatim>\<open>startRingbufReader\<close>.

  An index outside the counter slices, where Go panics, is \<open>None\<close>. The loop is a function of the
  results that \<^verbatim>\<open>rd.ReadInto\<close> returns one after the other, each with the state of the context at
  that moment. \<open>Accumulator_Race\<close> splits \<^verbatim>\<open>record\<close> and \<^verbatim>\<open>snapshotAndReset\<close> into their atomic
  operations and lets them interleave.
\<close>

subsection \<open>Events\<close>

text \<open>The bytes of a \<^verbatim>\<open>struct stats_event\<close> as the TC program writes them.\<close>

definition stats_event_layout :: cstruct where
  "stats_event_layout =
     [(''ifindex'', CU32), (''dst_zone_id'', CU8), (''is_retrans'', CU8), (''pad'', CU16)]"

definition encode_event :: "byte_order \<Rightarrow> stats_event \<Rightarrow> bytes" where
  "encode_event bo ev =
     mem_of_word bo 4 (ev_ifindex ev) @ [ev_dst_zone_id ev, ev_is_retrans ev] @ mem_of_word bo 2 (ev_pad ev)"

record StatsEvent =
  IfIndex :: u32
  DstZoneID :: u8
  IsRetrans :: u8
  Pad :: u16

definition statsEventSize :: nat where
  "statsEventSize = 8"

definition parseStatsEvent :: "byte_order \<Rightarrow> bytes \<Rightarrow> StatsEvent option" where
  "parseStatsEvent bo raw =
     (if length raw < statsEventSize then None
      else Some \<lparr>IfIndex = word_of_mem bo (take 4 raw), DstZoneID = raw ! 4, IsRetrans = raw ! 5, Pad = 0\<rparr>)"

subsection \<open>Counters\<close>

record accumulator =
  acc_segs :: "u64 list"
  acc_rets :: "u64 list"
  acc_zoneNames :: "string list"
  acc_unknown :: u64

record counter_snapshot =
  Segments :: u64
  Retrans :: u64

definition newAccumulator :: "resolved_zone list \<Rightarrow> accumulator" where
  "newAccumulator zones =
     \<lparr>acc_segs = replicate (length zones) 0, acc_rets = replicate (length zones) 0,
      acc_zoneNames = map DstZone zones, acc_unknown = 0\<rparr>"

definition record_event :: "nat \<Rightarrow> bool \<Rightarrow> accumulator \<Rightarrow> accumulator option" where
  "record_event idx isRetrans acc =
     (if idx < length (acc_segs acc) \<and> idx < length (acc_rets acc)
      then Some (acc\<lparr>acc_segs := (acc_segs acc)[idx := acc_segs acc ! idx + 1],
                    acc_rets := (if isRetrans then (acc_rets acc)[idx := acc_rets acc ! idx + 1] else acc_rets acc)\<rparr>)
      else None)"

fun snapshot_from ::
    "nat \<Rightarrow> string list \<Rightarrow> accumulator \<Rightarrow> (string \<rightharpoonup> counter_snapshot) \<Rightarrow>
     ((string \<rightharpoonup> counter_snapshot) \<times> accumulator)" where
  "snapshot_from i [] acc counters = (counters, acc)"
| "snapshot_from i (name # names) acc counters =
     snapshot_from (Suc i) names
       (acc\<lparr>acc_segs := (acc_segs acc)[i := 0], acc_rets := (acc_rets acc)[i := 0]\<rparr>)
       (counters(name \<mapsto> \<lparr>Segments = acc_segs acc ! i, Retrans = acc_rets acc ! i\<rparr>))"

definition snapshotAndReset :: "accumulator \<Rightarrow> (string \<rightharpoonup> counter_snapshot) \<times> accumulator" where
  "snapshotAndReset acc = snapshot_from 0 (acc_zoneNames acc) acc Map.empty"

definition buildZoneIndex :: "resolved_zone list \<Rightarrow> (u8 \<rightharpoonup> nat)" where
  "buildZoneIndex zones =
     foldl (\<lambda>out (i, z). out(rz_ZoneID z \<mapsto> i)) Map.empty (enumerate 0 zones)"

subsection \<open>The reader loop\<close>

text \<open>One record: a short one is only logged.\<close>

definition handle_record :: "byte_order \<Rightarrow> (u8 \<rightharpoonup> nat) \<Rightarrow> bytes \<Rightarrow> accumulator \<Rightarrow> accumulator option" where
  "handle_record bo zoneByID raw acc =
     (case parseStatsEvent bo raw of
        None \<Rightarrow> Some acc
      | Some evt \<Rightarrow>
          (case zoneByID (DstZoneID evt) of
             None \<Rightarrow> Some (acc\<lparr>acc_unknown := acc_unknown acc + 1\<rparr>)
           | Some idx \<Rightarrow> record_event idx (IsRetrans evt \<noteq> 0) acc))"

datatype read_result = Got bytes | Closed | Deadline_exceeded | Read_error

datatype reader_state = Blocking | Draining | Stopped

text \<open>
  \<open>reader_loop bo idx st rs acc\<close>: the loop in state \<open>st\<close> on the read results \<open>rs\<close>, each paired
  with whether the context is done. \<open>Blocking\<close> is the read at the top of the outer loop, \<open>Draining\<close>
  the read with a deadline at the end of the inner one.
\<close>

fun reader_loop ::
    "byte_order \<Rightarrow> (u8 \<rightharpoonup> nat) \<Rightarrow> reader_state \<Rightarrow> (read_result \<times> bool) list \<Rightarrow> accumulator \<Rightarrow>
     (reader_state \<times> accumulator) option" where
  "reader_loop bo ix Stopped rs acc = Some (Stopped, acc)"
| "reader_loop bo ix st [] acc = Some (st, acc)"
| "reader_loop bo ix Blocking ((r, done) # rs) acc =
     (case r of
        Got raw \<Rightarrow>
          (case handle_record bo ix raw acc of
             None \<Rightarrow> None | Some acc' \<Rightarrow> reader_loop bo ix Draining rs acc')
      | Closed \<Rightarrow> Some (Stopped, acc)
      | _ \<Rightarrow> if done then Some (Stopped, acc) else reader_loop bo ix Blocking rs acc)"
| "reader_loop bo ix Draining ((r, done) # rs) acc =
     (case r of
        Got raw \<Rightarrow>
          (case handle_record bo ix raw acc of
             None \<Rightarrow> None | Some acc' \<Rightarrow> reader_loop bo ix Draining rs acc')
      | Deadline_exceeded \<Rightarrow> reader_loop bo ix Blocking rs acc
      | Closed \<Rightarrow> Some (Stopped, acc)
      | Read_error \<Rightarrow> if done then Some (Stopped, acc) else reader_loop bo ix Blocking rs acc)"

subsection \<open>Decoding\<close>

lemma stats_event_layout [simp]:
  "sizeof stats_event_layout = statsEventSize" "offsetof stats_event_layout ''ifindex'' = 0"
  "offsetof stats_event_layout ''dst_zone_id'' = 4" "offsetof stats_event_layout ''is_retrans'' = 5"
  "offsetof stats_event_layout ''pad'' = 6"
  by (simp_all add: sizeof_def offsetof_def stats_event_layout_def align_up_def struct_align_def
      statsEventSize_def Let_def)

lemma parse_encode:
  "parseStatsEvent bo (encode_event bo ev @ rest) =
     Some \<lparr>IfIndex = ev_ifindex ev, DstZoneID = ev_dst_zone_id ev, IsRetrans = ev_is_retrans ev, Pad = 0\<rparr>"
  by (simp add: parseStatsEvent_def encode_event_def statsEventSize_def nth_append)

text \<open>
  C34. The event the TC program writes is the event user space reads, on either byte order: the
  structure has the size user space expects, interface, zone and flag survive, and the padding,
  which the program leaves as it finds it, and any bytes behind the structure do not matter.
\<close>

theorem event_roundtrip:
  "length (encode_event bo ev) = sizeof stats_event_layout \<and> sizeof stats_event_layout = statsEventSize \<and>
   parseStatsEvent bo (encode_event bo ev @ rest) =
     Some \<lparr>IfIndex = ev_ifindex ev, DstZoneID = ev_dst_zone_id ev, IsRetrans = ev_is_retrans ev, Pad = 0\<rparr>"
  using parse_encode by (simp add: encode_event_def statsEventSize_def)

subsection \<open>Counting\<close>

definition acc_wf :: "(u8 \<rightharpoonup> nat) \<Rightarrow> accumulator \<Rightarrow> bool" where
  "acc_wf ix acc \<longleftrightarrow>
     length (acc_rets acc) = length (acc_segs acc) \<and> length (acc_zoneNames acc) = length (acc_segs acc) \<and>
     (\<forall>i\<in>ran ix. i < length (acc_segs acc))"

lemma buildZoneIndex_snoc:
  "buildZoneIndex (zs @ [z]) = (buildZoneIndex zs)(rz_ZoneID z \<mapsto> length zs)"
  by (simp add: buildZoneIndex_def enumerate_append_eq)

lemma buildZoneIndex_ran: "i \<in> ran (buildZoneIndex zs) \<Longrightarrow> i < length zs"
proof (induction zs rule: rev_induct)
  case Nil
  then show ?case by (simp add: buildZoneIndex_def)
next
  case (snoc z zs)
  then show ?case by (fastforce simp: buildZoneIndex_snoc ran_def split: if_splits)
qed

lemma buildZoneIndex_nth:
  "distinct (map rz_ZoneID zs) \<Longrightarrow> i < length zs \<Longrightarrow> buildZoneIndex zs (rz_ZoneID (zs ! i)) = Some i"
proof (induction zs rule: rev_induct)
  case (snoc z zs)
  show ?case
  proof (cases "i = length zs")
    case True
    then show ?thesis by (simp add: buildZoneIndex_snoc)
  next
    case False
    with snoc.prems have i: "i < length zs" by simp
    then have "rz_ZoneID (zs ! i) \<in> rz_ZoneID ` set zs" by simp
    moreover have "rz_ZoneID z \<notin> rz_ZoneID ` set zs" using snoc.prems(1) by simp
    ultimately have "rz_ZoneID (zs ! i) \<noteq> rz_ZoneID z" by metis
    with snoc i show ?thesis by (simp add: buildZoneIndex_snoc nth_append)
  qed
qed simp

lemma buildZoneIndex_dom: "dom (buildZoneIndex zs) = rz_ZoneID ` set zs"
proof (induction zs rule: rev_induct)
  case Nil
  then show ?case by (simp add: buildZoneIndex_def)
qed (auto simp: buildZoneIndex_snoc simp del: fun_upd_apply)

lemma newAccumulator_wf: "acc_wf (buildZoneIndex zs) (newAccumulator zs)"
  by (simp add: acc_wf_def newAccumulator_def buildZoneIndex_ran)

text \<open>What one record adds: to the zone's counters, to the unknown counter, or to nothing.\<close>

definition known_event :: "byte_order \<Rightarrow> (u8 \<rightharpoonup> nat) \<Rightarrow> nat \<Rightarrow> bytes \<Rightarrow> bool" where
  "known_event bo ix i raw \<longleftrightarrow> (\<exists>e. parseStatsEvent bo raw = Some e \<and> ix (DstZoneID e) = Some i)"

definition retrans_event :: "byte_order \<Rightarrow> (u8 \<rightharpoonup> nat) \<Rightarrow> nat \<Rightarrow> bytes \<Rightarrow> bool" where
  "retrans_event bo ix i raw \<longleftrightarrow>
     (\<exists>e. parseStatsEvent bo raw = Some e \<and> ix (DstZoneID e) = Some i \<and> IsRetrans e \<noteq> 0)"

definition unknown_event :: "byte_order \<Rightarrow> (u8 \<rightharpoonup> nat) \<Rightarrow> bytes \<Rightarrow> bool" where
  "unknown_event bo ix raw \<longleftrightarrow> (\<exists>e. parseStatsEvent bo raw = Some e \<and> ix (DstZoneID e) = None)"

lemma handle_record_effect:
  assumes "acc_wf ix acc"
  shows "\<exists>acc'. handle_record bo ix raw acc = Some acc' \<and> acc_wf ix acc' \<and>
    length (acc_segs acc') = length (acc_segs acc) \<and> acc_zoneNames acc' = acc_zoneNames acc \<and>
    (\<forall>i<length (acc_segs acc).
       acc_segs acc' ! i = acc_segs acc ! i + of_bool (known_event bo ix i raw) \<and>
       acc_rets acc' ! i = acc_rets acc ! i + of_bool (retrans_event bo ix i raw)) \<and>
    acc_unknown acc' = acc_unknown acc + of_bool (unknown_event bo ix raw)"
proof (cases "parseStatsEvent bo raw")
  case None
  with assms show ?thesis
    by (simp add: handle_record_def known_event_def retrans_event_def unknown_event_def)
next
  case (Some e)
  show ?thesis
  proof (cases "ix (DstZoneID e)")
    case None
    with Some assms show ?thesis
      by (simp add: handle_record_def known_event_def retrans_event_def unknown_event_def acc_wf_def)
  next
    case idx: (Some j)
    with assms have "j < length (acc_segs acc)" and "length (acc_rets acc) = length (acc_segs acc)"
      by (auto simp: acc_wf_def ran_def)
    with Some idx assms show ?thesis
      by (auto simp: handle_record_def record_event_def known_event_def retrans_event_def
          unknown_event_def acc_wf_def nth_list_update)
  qed
qed

text \<open>The records the loop handles: those read before it stops.\<close>

fun handled :: "reader_state \<Rightarrow> (read_result \<times> bool) list \<Rightarrow> bytes list" where
  "handled Stopped rs = []"
| "handled st [] = []"
| "handled Blocking ((r, done) # rs) =
     (case r of Got raw \<Rightarrow> raw # handled Draining rs
      | Closed \<Rightarrow> [] | _ \<Rightarrow> if done then [] else handled Blocking rs)"
| "handled Draining ((r, done) # rs) =
     (case r of Got raw \<Rightarrow> raw # handled Draining rs
      | Deadline_exceeded \<Rightarrow> handled Blocking rs
      | Closed \<Rightarrow> [] | Read_error \<Rightarrow> if done then [] else handled Blocking rs)"

fun handle_all :: "byte_order \<Rightarrow> (u8 \<rightharpoonup> nat) \<Rightarrow> bytes list \<Rightarrow> accumulator \<Rightarrow> accumulator option" where
  "handle_all bo ix [] acc = Some acc"
| "handle_all bo ix (raw # raws) acc =
     (case handle_record bo ix raw acc of None \<Rightarrow> None | Some acc' \<Rightarrow> handle_all bo ix raws acc')"

lemma reader_loop_handles:
  "map_option snd (reader_loop bo ix st rs acc) = handle_all bo ix (handled st rs) acc"
  by (induction bo ix st rs acc rule: reader_loop.induct) (auto split: read_result.splits option.splits)

lemma handle_all_counts:
  assumes "acc_wf ix acc"
  shows "\<exists>acc'. handle_all bo ix raws acc = Some acc' \<and> acc_wf ix acc' \<and>
    length (acc_segs acc') = length (acc_segs acc) \<and> acc_zoneNames acc' = acc_zoneNames acc \<and>
    (\<forall>i<length (acc_segs acc).
       acc_segs acc' ! i = acc_segs acc ! i + of_nat (length (filter (known_event bo ix i) raws)) \<and>
       acc_rets acc' ! i = acc_rets acc ! i + of_nat (length (filter (retrans_event bo ix i) raws))) \<and>
    acc_unknown acc' = acc_unknown acc + of_nat (length (filter (unknown_event bo ix) raws))"
  using assms
proof (induction raws arbitrary: acc)
  case (Cons raw raws)
  from handle_record_effect [OF Cons.prems, of bo raw] obtain acc1 where
    h: "handle_record bo ix raw acc = Some acc1" "acc_wf ix acc1" and
    e: "length (acc_segs acc1) = length (acc_segs acc)" "acc_zoneNames acc1 = acc_zoneNames acc"
      "\<forall>i<length (acc_segs acc).
         acc_segs acc1 ! i = acc_segs acc ! i + of_bool (known_event bo ix i raw) \<and>
         acc_rets acc1 ! i = acc_rets acc ! i + of_bool (retrans_event bo ix i raw)"
      "acc_unknown acc1 = acc_unknown acc + of_bool (unknown_event bo ix raw)" by blast
  from Cons.IH [OF h(2)] h(1) e show ?case by (auto simp: algebra_simps)
qed simp

text \<open>
  The reader loop never indexes outside the counters, and over any sequence of read results
  each record that was read before it stops is counted exactly once: under the zone its number
  names, with the retransmissions among them, or as unknown (modulo the 64-bit width of the
  counters); short records change nothing.
\<close>

theorem reader_counts_every_record:
  "\<exists>st acc'. reader_loop bo (buildZoneIndex zones) Blocking rs (newAccumulator zones) = Some (st, acc') \<and>
     (let ix = buildZoneIndex zones; raws = handled Blocking rs in
      acc_segs acc' = map (\<lambda>i. of_nat (length (filter (known_event bo ix i) raws))) [0..<length zones] \<and>
      acc_rets acc' = map (\<lambda>i. of_nat (length (filter (retrans_event bo ix i) raws))) [0..<length zones] \<and>
      acc_unknown acc' = of_nat (length (filter (unknown_event bo ix) raws)))"
proof -
  let ?ix = "buildZoneIndex zones" and ?acc = "newAccumulator zones" and ?raws = "handled Blocking rs"
  obtain acc' where h: "handle_all bo ?ix ?raws ?acc = Some acc'" and wf: "acc_wf ?ix acc'"
    and len: "length (acc_segs acc') = length zones"
    and c: "\<forall>i<length zones. acc_segs acc' ! i = of_nat (length (filter (known_event bo ?ix i) ?raws)) \<and>
       acc_rets acc' ! i = of_nat (length (filter (retrans_event bo ?ix i) ?raws))"
    and u: "acc_unknown acc' = of_nat (length (filter (unknown_event bo ?ix) ?raws))"
    using handle_all_counts [OF newAccumulator_wf, of bo zones ?raws] by (auto simp: newAccumulator_def)
  from reader_loop_handles [of bo ?ix Blocking rs ?acc] h
  obtain st where "reader_loop bo ?ix Blocking rs ?acc = Some (st, acc')" by auto
  moreover have "acc_segs acc' = map (\<lambda>i. of_nat (length (filter (known_event bo ?ix i) ?raws))) [0..<length zones]"
    using len c by (intro nth_equalityI) auto
  moreover have "acc_rets acc' = map (\<lambda>i. of_nat (length (filter (retrans_event bo ?ix i) ?raws))) [0..<length zones]"
    using len c wf by (intro nth_equalityI) (auto simp: acc_wf_def)
  ultimately show ?thesis using u by (auto simp: Let_def)
qed

subsection \<open>Snapshots\<close>

lemma snapshot_from_eq:
  assumes "distinct names" and "i + length names \<le> length (acc_segs acc)" and "length (acc_rets acc) = length (acc_segs acc)"
  shows "\<exists>m. snapshot_from i names acc counters =
      (m, acc\<lparr>acc_segs := take i (acc_segs acc) @ replicate (length names) 0 @ drop (i + length names) (acc_segs acc),
              acc_rets := take i (acc_rets acc) @ replicate (length names) 0 @ drop (i + length names) (acc_rets acc)\<rparr>) \<and>
    (\<forall>j<length names. m (names ! j) = Some \<lparr>Segments = acc_segs acc ! (i + j), Retrans = acc_rets acc ! (i + j)\<rparr>) \<and>
    (\<forall>name. name \<notin> set names \<longrightarrow> m name = counters name)"
  using assms
proof (induction names arbitrary: i acc counters)
  case (Cons name names)
  let ?acc = "acc\<lparr>acc_segs := (acc_segs acc)[i := 0], acc_rets := (acc_rets acc)[i := 0]\<rparr>"
  let ?c = "counters(name \<mapsto> \<lparr>Segments = acc_segs acc ! i, Retrans = acc_rets acc ! i\<rparr>)"
  obtain m where m: "snapshot_from (Suc i) names ?acc ?c =
      (m, ?acc\<lparr>acc_segs := take (Suc i) (acc_segs ?acc) @ replicate (length names) 0 @ drop (Suc i + length names) (acc_segs ?acc),
              acc_rets := take (Suc i) (acc_rets ?acc) @ replicate (length names) 0 @ drop (Suc i + length names) (acc_rets ?acc)\<rparr>)"
    and at: "\<forall>j<length names. m (names ! j) = Some \<lparr>Segments = acc_segs ?acc ! (Suc i + j), Retrans = acc_rets ?acc ! (Suc i + j)\<rparr>"
    and other: "\<forall>n. n \<notin> set names \<longrightarrow> m n = ?c n"
  proof -
    have "distinct names" "Suc i + length names \<le> length (acc_segs ?acc)" "length (acc_rets ?acc) = length (acc_segs ?acc)"
      using Cons.prems by simp_all
    from Cons.IH [OF this, of ?c] that show ?thesis by blast
  qed
  have "take (Suc i) (xs[i := 0]) = take i xs @ [0]" if "i < length xs" for xs :: "u64 list"
    using that by (simp add: take_Suc_conv_app_nth)
  moreover have "\<forall>j<length (name # names). m ((name # names) ! j) =
      Some \<lparr>Segments = acc_segs acc ! (i + j), Retrans = acc_rets acc ! (i + j)\<rparr>"
  proof (intro allI impI)
    fix j assume "j < length (name # names)"
    then show "m ((name # names) ! j) = Some \<lparr>Segments = acc_segs acc ! (i + j), Retrans = acc_rets acc ! (i + j)\<rparr>"
      using at other Cons.prems(1) by (cases j) auto
  qed
  ultimately show ?case using m other Cons.prems by auto
qed simp

lemma snapshotAndReset_eq:
  assumes "distinct (acc_zoneNames acc)" and "acc_wf ix acc"
  shows "\<exists>m. snapshotAndReset acc = (m, acc\<lparr>acc_segs := replicate (length (acc_segs acc)) 0,
                                          acc_rets := replicate (length (acc_segs acc)) 0\<rparr>) \<and>
    (\<forall>j<length (acc_zoneNames acc).
       m (acc_zoneNames acc ! j) = Some \<lparr>Segments = acc_segs acc ! j, Retrans = acc_rets acc ! j\<rparr>) \<and>
    dom m = set (acc_zoneNames acc)"
proof -
  from snapshot_from_eq [OF assms(1), of 0 acc Map.empty] assms(2) obtain m where
    "snapshotAndReset acc = (m, acc\<lparr>acc_segs := replicate (length (acc_segs acc)) 0,
                                     acc_rets := replicate (length (acc_segs acc)) 0\<rparr>)"
    and at: "\<forall>j<length (acc_zoneNames acc).
       m (acc_zoneNames acc ! j) = Some \<lparr>Segments = acc_segs acc ! j, Retrans = acc_rets acc ! j\<rparr>"
    and out: "\<forall>name. name \<notin> set (acc_zoneNames acc) \<longrightarrow> m name = None"
    by (auto simp: snapshotAndReset_def acc_wf_def)
  moreover have "dom m = set (acc_zoneNames acc)"
    using at out by (auto simp: in_set_conv_nth) (metis domIff in_set_conv_nth option.distinct(1))
  ultimately show ?thesis by blast
qed


text \<open>
  A snapshot of counters that nobody writes meanwhile hands over, for every zone, exactly what
  was counted since the last one, and leaves all of them at zero: over the reader loop and a
  snapshot, the zone's segments and retransmissions are those of the records read.
\<close>

theorem snapshot_hands_over_the_counts:
  assumes "distinct (map DstZone zones)" and "i < length zones"
  shows "\<exists>st acc m acc'. reader_loop bo (buildZoneIndex zones) Blocking rs (newAccumulator zones) = Some (st, acc) \<and>
     snapshotAndReset acc = (m, acc') \<and>
     m (DstZone (zones ! i)) =
       Some \<lparr>Segments = of_nat (length (filter (known_event bo (buildZoneIndex zones) i) (handled Blocking rs))),
             Retrans = of_nat (length (filter (retrans_event bo (buildZoneIndex zones) i) (handled Blocking rs)))\<rparr> \<and>
     acc' = acc\<lparr>acc_segs := replicate (length zones) 0, acc_rets := replicate (length zones) 0\<rparr>"
proof -
  let ?ix = "buildZoneIndex zones" and ?acc = "newAccumulator zones" and ?raws = "handled Blocking rs"
  obtain acc where h: "handle_all bo ?ix ?raws ?acc = Some acc" and wf: "acc_wf ?ix acc"
    and len: "length (acc_segs acc) = length zones" "acc_zoneNames acc = map DstZone zones"
    and c: "acc_segs acc ! i = of_nat (length (filter (known_event bo ?ix i) ?raws))"
       "acc_rets acc ! i = of_nat (length (filter (retrans_event bo ?ix i) ?raws))"
    using handle_all_counts [OF newAccumulator_wf, of bo zones ?raws] assms(2) by (auto simp: newAccumulator_def)
  from reader_loop_handles [of bo ?ix Blocking rs ?acc] h
  obtain st where st: "reader_loop bo ?ix Blocking rs ?acc = Some (st, acc)" by auto
  have "distinct (acc_zoneNames acc)" using assms(1) len by simp
  from snapshotAndReset_eq [OF this wf] obtain m where
    s: "snapshotAndReset acc = (m, acc\<lparr>acc_segs := replicate (length zones) 0, acc_rets := replicate (length zones) 0\<rparr>)"
    and at: "\<forall>j<length zones. m (DstZone (zones ! j)) = Some \<lparr>Segments = acc_segs acc ! j, Retrans = acc_rets acc ! j\<rparr>"
    using len by auto
  show ?thesis using st s at assms(2) c by auto
qed

definition sample_zones :: "resolved_zone list" where
  "sample_zones = [\<lparr>DstZone = ''c'', rz_ZoneID = 1, rz_SourceZone = ''f''\<rparr>,
                   \<lparr>DstZone = ''d'', rz_ZoneID = 2, rz_SourceZone = ''f''\<rparr>]"

theorem snapshot_hands_over_the_counts_witness:
  "\<exists>st acc m acc'. reader_loop Little (buildZoneIndex sample_zones) Blocking
       [(Got [2, 0, 0, 0, 2, 1, 0, 0], False), (Got [2, 0, 0, 0, 2, 0, 0, 0], False), (Deadline_exceeded, False)]
       (newAccumulator sample_zones) = Some (st, acc) \<and>
     snapshotAndReset acc = (m, acc') \<and> m ''d'' = Some \<lparr>Segments = 2, Retrans = 1\<rparr>"
proof -
  let ?rs = "[(Got [2, 0, 0, 0, 2, 1, 0, 0], False), (Got [2, 0, 0, 0, 2, 0, 0, 0], False), (Deadline_exceeded, False)]"
  have ix: "buildZoneIndex sample_zones = [1 \<mapsto> 0, 2 \<mapsto> 1]"
    by (simp add: buildZoneIndex_def sample_zones_def)
  have "distinct (map DstZone sample_zones)" and "1 < length sample_zones" by (simp_all add: sample_zones_def)
  from snapshot_hands_over_the_counts [OF this, of Little ?rs] show ?thesis
    by (simp add: ix known_event_def retrans_event_def parseStatsEvent_def statsEventSize_def) (simp add: sample_zones_def, blast)
qed

end
