(* ===== verification/Accumulator_Race.thy ===== *)
theory Accumulator_Race
  imports Reader
begin

text \<open>
  The reader goroutine and the poll loop of \<^verbatim>\<open>main.go\<close> share the counters of a zone without a
  lock: \<^verbatim>\<open>record\<close> does up to two atomic additions, \<^verbatim>\<open>snapshotAndReset\<close> two atomic swaps with zero.
  The relation \<open>race_step\<close> interleaves these operations for one zone.

  \<open>rs_owed\<close> is the program point of the reader: whether it has counted the segment of a
  retransmission and still has to count the retransmission. \<open>rs_taken\<close> is that of the poll loop:
  the segments it has taken while it still has to take the retransmissions. The lists of events
  recorded so far and of snapshots made so far are there for the statements only.
\<close>

record race_state =
  rs_segs :: u64
  rs_rets :: u64
  rs_owed :: bool
  rs_taken :: "u64 option"
  rs_events :: "bool list"
  rs_snaps :: "counter_snapshot list"

definition race_init :: race_state where
  "race_init = \<lparr>rs_segs = 0, rs_rets = 0, rs_owed = False, rs_taken = None, rs_events = [], rs_snaps = []\<rparr>"

inductive race_step :: "race_state \<Rightarrow> race_state \<Rightarrow> bool" where
  add_seg: "\<not> rs_owed s \<Longrightarrow>
    race_step s (s\<lparr>rs_segs := rs_segs s + 1, rs_owed := isRetrans, rs_events := rs_events s @ [isRetrans]\<rparr>)"
| add_ret: "rs_owed s \<Longrightarrow> race_step s (s\<lparr>rs_rets := rs_rets s + 1, rs_owed := False\<rparr>)"
| swap_segs: "rs_taken s = None \<Longrightarrow> race_step s (s\<lparr>rs_segs := 0, rs_taken := Some (rs_segs s)\<rparr>)"
| swap_rets: "rs_taken s = Some n \<Longrightarrow>
    race_step s (s\<lparr>rs_rets := 0, rs_taken := None,
                   rs_snaps := rs_snaps s @ [\<lparr>Segments = n, Retrans = rs_rets s\<rparr>]\<rparr>)"

inductive_cases race_stepE: "race_step s t"

inductive race_reachable :: "race_state \<Rightarrow> bool" where
  start: "race_reachable race_init"
| step: "race_reachable s \<Longrightarrow> race_step s t \<Longrightarrow> race_reachable t"

definition taken_segs :: "race_state \<Rightarrow> u64" where
  "taken_segs s = (case rs_taken s of None \<Rightarrow> 0 | Some n \<Rightarrow> n)"

definition race_inv :: "race_state \<Rightarrow> bool" where
  "race_inv s \<longleftrightarrow>
     (\<Sum>c\<leftarrow>rs_snaps s. Segments c) + taken_segs s + rs_segs s = of_nat (length (rs_events s)) \<and>
     (\<Sum>c\<leftarrow>rs_snaps s. Retrans c) + rs_rets s + of_bool (rs_owed s) =
       of_nat (length (filter (\<lambda>r. r) (rs_events s)))"

lemma race_inv_step: "race_inv s \<Longrightarrow> race_step s t \<Longrightarrow> race_inv t"
  by (elim race_stepE) (auto simp: race_inv_def taken_segs_def algebra_simps)

lemma race_inv_reachable: "race_reachable s \<Longrightarrow> race_inv s"
proof (induction rule: race_reachable.induct)
  case start
  then show ?case by (simp add: race_inv_def race_init_def taken_segs_def)
next
  case (step s t)
  then show ?case using race_inv_step by blast
qed

text \<open>
  C35. No count is lost or doubled by the lock-free hand-over, however the operations interleave:
  at every moment the segments of all snapshots, those taken for the running one and those still
  in the counter are all the events recorded, and likewise for the retransmissions, but for one
  that the reader is about to count (modulo the 64-bit width).
\<close>

theorem snapshots_lose_nothing:
  assumes "race_reachable s"
  shows "(\<Sum>c\<leftarrow>rs_snaps s. Segments c) + taken_segs s + rs_segs s = of_nat (length (rs_events s)) \<and>
     (\<Sum>c\<leftarrow>rs_snaps s. Retrans c) + rs_rets s + of_bool (rs_owed s) =
       of_nat (length (filter (\<lambda>r. r) (rs_events s)))"
  using race_inv_reachable [OF assms] by (simp add: race_inv_def)

text \<open>The poll loop takes the segments, the reader records a retransmission, the poll loop takes it.\<close>

definition race_run :: "race_state list" where
  "race_run =
     [race_init,
      race_init\<lparr>rs_taken := Some 0\<rparr>,
      race_init\<lparr>rs_taken := Some 0, rs_segs := 1, rs_owed := True, rs_events := [True]\<rparr>,
      race_init\<lparr>rs_taken := Some 0, rs_segs := 1, rs_rets := 1, rs_events := [True]\<rparr>,
      race_init\<lparr>rs_segs := 1, rs_events := [True], rs_snaps := [\<lparr>Segments = 0, Retrans = 1\<rparr>]\<rparr>]"

lemma race_run_reachable:
  "race_reachable (race_init\<lparr>rs_segs := 1, rs_events := [True], rs_snaps := [\<lparr>Segments = 0, Retrans = 1\<rparr>]\<rparr>)"
proof -
  have "race_step (race_run ! 0) (race_run ! 1)"
    using swap_segs [of race_init] by (simp add: race_run_def race_init_def)
  moreover have "race_step (race_run ! 1) (race_run ! 2)"
    using add_seg [of "race_run ! 1" True] by (simp add: race_run_def race_init_def)
  moreover have "race_step (race_run ! 2) (race_run ! 3)"
    using add_ret [of "race_run ! 2"] by (simp add: race_run_def race_init_def)
  moreover have "race_step (race_run ! 3) (race_run ! 4)"
    using swap_rets [of "race_run ! 3" 0] by (simp add: race_run_def race_init_def)
  moreover have "race_reachable (race_run ! 0)" by (simp add: race_run_def race_reachable.start)
  ultimately have "race_reachable (race_run ! 4)" by (meson race_reachable.step)
  then show ?thesis by (simp add: race_run_def)
qed

theorem snapshots_lose_nothing_witness:
  "race_reachable (race_init\<lparr>rs_segs := 1, rs_events := [True], rs_snaps := [\<lparr>Segments = 0, Retrans = 1\<rparr>]\<rparr>) \<and>
   (\<Sum>c\<leftarrow>[\<lparr>Segments = 0, Retrans = 1 :: u64\<rparr>]. Segments c) + 0 + (1 :: u64) = of_nat (length [True])"
  using snapshots_lose_nothing [OF race_run_reachable] race_run_reachable
  by (simp add: race_init_def taken_segs_def)

text \<open>
  C36. The hand-over of a zone's two counters is not one atomic operation: a snapshot can report
  more retransmissions than segments, and the segment it misses shows up in the next one.
\<close>

theorem snapshot_can_exceed_its_segments:
  "\<exists>s c. race_reachable s \<and> c \<in> set (rs_snaps s) \<and> Segments c < Retrans c"
proof -
  let ?c = "\<lparr>Segments = 0, Retrans = 1\<rparr> :: counter_snapshot"
  have "?c \<in> set (rs_snaps (race_init\<lparr>rs_segs := 1, rs_events := [True], rs_snaps := [?c]\<rparr>))" by simp
  moreover have "Segments ?c < Retrans ?c" by simp
  ultimately show ?thesis using race_run_reachable by blast
qed

end
