(* ===== verification/Helper_Defs.thy ===== *)
theory Helper_Defs
  imports Bpf_Abi
begin

text \<open>
  \<^verbatim>\<open>bpf/headers/bpf/bpf_helper_defs.h\<close>: the declarations of the kernel's helper functions as a
  table. A helper is a function pointer with a constant address, its number; the compiler turns
  a call into the instruction \<^verbatim>\<open>call <number>\<close>, with the arguments in the registers r1 to r5.

  Of every declaration the table keeps the name, the number, the types of the result and of the
  arguments, and what the section \<^verbatim>\<open>Returns\<close> of its comment says of failures: whether the result
  can be a negative error (\<open>h_negative\<close>), the error numbers it names (\<open>h_errnos\<close>), whether the
  result can be \<^verbatim>\<open>NULL\<close> (\<open>h_null\<close>) and the verdicts it names (\<open>h_codes\<close>). The prose that explains
  each helper is not modelled. \<^verbatim>\<open>long\<close> and \<^verbatim>\<open>unsigned long\<close> are 64 bits wide, as on the BPF target.
\<close>

subsection \<open>Declarations\<close>

datatype htype = Void | S32 | S64 | U16 | U32 | U64 | Ptr string | CPtr string

record helper =
  h_name :: string
  h_id :: nat
  h_ret :: htype
  h_args :: "htype list"
  h_variadic :: bool
  h_negative :: bool
  h_errnos :: "string list"
  h_null :: bool
  h_codes :: "string list"

definition bpf_map_lookup_elem_decl :: helper where
  "bpf_map_lookup_elem_decl =
     \<lparr>h_name = ''bpf_map_lookup_elem'', h_id = 1, h_ret = Ptr ''void'',
      h_args = [Ptr ''void'', CPtr ''void''], h_variadic = False,
      h_negative = False, h_errnos = [], h_null = True, h_codes = []\<rparr>"

definition bpf_map_update_elem_decl :: helper where
  "bpf_map_update_elem_decl =
     \<lparr>h_name = ''bpf_map_update_elem'', h_id = 2, h_ret = S64,
      h_args = [Ptr ''void'', CPtr ''void'', CPtr ''void'', U64], h_variadic = False,
      h_negative = True, h_errnos = [], h_null = False, h_codes = []\<rparr>"

definition bpf_map_delete_elem_decl :: helper where
  "bpf_map_delete_elem_decl =
     \<lparr>h_name = ''bpf_map_delete_elem'', h_id = 3, h_ret = S64,
      h_args = [Ptr ''void'', CPtr ''void''], h_variadic = False,
      h_negative = True, h_errnos = [], h_null = False, h_codes = []\<rparr>"

definition bpf_probe_read_decl :: helper where
  "bpf_probe_read_decl =
     \<lparr>h_name = ''bpf_probe_read'', h_id = 4, h_ret = S64,
      h_args = [Ptr ''void'', U32, CPtr ''void''], h_variadic = False,
      h_negative = True, h_errnos = [], h_null = False, h_codes = []\<rparr>"

definition bpf_ktime_get_ns_decl :: helper where
  "bpf_ktime_get_ns_decl =
     \<lparr>h_name = ''bpf_ktime_get_ns'', h_id = 5, h_ret = U64,
      h_args = [], h_variadic = False,
      h_negative = False, h_errnos = [], h_null = False, h_codes = []\<rparr>"

definition bpf_trace_printk_decl :: helper where
  "bpf_trace_printk_decl =
     \<lparr>h_name = ''bpf_trace_printk'', h_id = 6, h_ret = S64,
      h_args = [CPtr ''char'', U32], h_variadic = True,
      h_negative = True, h_errnos = [], h_null = False, h_codes = []\<rparr>"

definition bpf_get_prandom_u32_decl :: helper where
  "bpf_get_prandom_u32_decl =
     \<lparr>h_name = ''bpf_get_prandom_u32'', h_id = 7, h_ret = U32,
      h_args = [], h_variadic = False,
      h_negative = False, h_errnos = [], h_null = False, h_codes = []\<rparr>"

definition bpf_get_smp_processor_id_decl :: helper where
  "bpf_get_smp_processor_id_decl =
     \<lparr>h_name = ''bpf_get_smp_processor_id'', h_id = 8, h_ret = U32,
      h_args = [], h_variadic = False,
      h_negative = False, h_errnos = [], h_null = False, h_codes = []\<rparr>"

definition bpf_skb_store_bytes_decl :: helper where
  "bpf_skb_store_bytes_decl =
     \<lparr>h_name = ''bpf_skb_store_bytes'', h_id = 9, h_ret = S64,
      h_args = [Ptr ''struct __sk_buff'', U32, CPtr ''void'', U32, U64], h_variadic = False,
      h_negative = True, h_errnos = [], h_null = False, h_codes = []\<rparr>"

definition bpf_l3_csum_replace_decl :: helper where
  "bpf_l3_csum_replace_decl =
     \<lparr>h_name = ''bpf_l3_csum_replace'', h_id = 10, h_ret = S64,
      h_args = [Ptr ''struct __sk_buff'', U32, U64, U64, U64], h_variadic = False,
      h_negative = True, h_errnos = [], h_null = False, h_codes = []\<rparr>"

definition bpf_l4_csum_replace_decl :: helper where
  "bpf_l4_csum_replace_decl =
     \<lparr>h_name = ''bpf_l4_csum_replace'', h_id = 11, h_ret = S64,
      h_args = [Ptr ''struct __sk_buff'', U32, U64, U64, U64], h_variadic = False,
      h_negative = True, h_errnos = [], h_null = False, h_codes = []\<rparr>"

definition bpf_tail_call_decl :: helper where
  "bpf_tail_call_decl =
     \<lparr>h_name = ''bpf_tail_call'', h_id = 12, h_ret = S64,
      h_args = [Ptr ''void'', Ptr ''void'', U32], h_variadic = False,
      h_negative = True, h_errnos = [], h_null = False, h_codes = []\<rparr>"

definition bpf_clone_redirect_decl :: helper where
  "bpf_clone_redirect_decl =
     \<lparr>h_name = ''bpf_clone_redirect'', h_id = 13, h_ret = S64,
      h_args = [Ptr ''struct __sk_buff'', U32, U64], h_variadic = False,
      h_negative = True, h_errnos = [], h_null = False, h_codes = []\<rparr>"

definition bpf_get_current_pid_tgid_decl :: helper where
  "bpf_get_current_pid_tgid_decl =
     \<lparr>h_name = ''bpf_get_current_pid_tgid'', h_id = 14, h_ret = U64,
      h_args = [], h_variadic = False,
      h_negative = False, h_errnos = [], h_null = False, h_codes = []\<rparr>"

definition bpf_get_current_uid_gid_decl :: helper where
  "bpf_get_current_uid_gid_decl =
     \<lparr>h_name = ''bpf_get_current_uid_gid'', h_id = 15, h_ret = U64,
      h_args = [], h_variadic = False,
      h_negative = False, h_errnos = [], h_null = False, h_codes = []\<rparr>"

definition bpf_get_current_comm_decl :: helper where
  "bpf_get_current_comm_decl =
     \<lparr>h_name = ''bpf_get_current_comm'', h_id = 16, h_ret = S64,
      h_args = [Ptr ''void'', U32], h_variadic = False,
      h_negative = True, h_errnos = [], h_null = False, h_codes = []\<rparr>"

definition bpf_get_cgroup_classid_decl :: helper where
  "bpf_get_cgroup_classid_decl =
     \<lparr>h_name = ''bpf_get_cgroup_classid'', h_id = 17, h_ret = U32,
      h_args = [Ptr ''struct __sk_buff''], h_variadic = False,
      h_negative = False, h_errnos = [], h_null = False, h_codes = []\<rparr>"

definition bpf_skb_vlan_push_decl :: helper where
  "bpf_skb_vlan_push_decl =
     \<lparr>h_name = ''bpf_skb_vlan_push'', h_id = 18, h_ret = S64,
      h_args = [Ptr ''struct __sk_buff'', U16, U16], h_variadic = False,
      h_negative = True, h_errnos = [], h_null = False, h_codes = []\<rparr>"

definition bpf_skb_vlan_pop_decl :: helper where
  "bpf_skb_vlan_pop_decl =
     \<lparr>h_name = ''bpf_skb_vlan_pop'', h_id = 19, h_ret = S64,
      h_args = [Ptr ''struct __sk_buff''], h_variadic = False,
      h_negative = True, h_errnos = [], h_null = False, h_codes = []\<rparr>"

definition bpf_skb_get_tunnel_key_decl :: helper where
  "bpf_skb_get_tunnel_key_decl =
     \<lparr>h_name = ''bpf_skb_get_tunnel_key'', h_id = 20, h_ret = S64,
      h_args = [Ptr ''struct __sk_buff'', Ptr ''struct bpf_tunnel_key'', U32, U64], h_variadic = False,
      h_negative = True, h_errnos = [], h_null = False, h_codes = []\<rparr>"

definition bpf_skb_set_tunnel_key_decl :: helper where
  "bpf_skb_set_tunnel_key_decl =
     \<lparr>h_name = ''bpf_skb_set_tunnel_key'', h_id = 21, h_ret = S64,
      h_args = [Ptr ''struct __sk_buff'', Ptr ''struct bpf_tunnel_key'', U32, U64], h_variadic = False,
      h_negative = True, h_errnos = [], h_null = False, h_codes = []\<rparr>"

definition bpf_perf_event_read_decl :: helper where
  "bpf_perf_event_read_decl =
     \<lparr>h_name = ''bpf_perf_event_read'', h_id = 22, h_ret = U64,
      h_args = [Ptr ''void'', U64], h_variadic = False,
      h_negative = True, h_errnos = [], h_null = False, h_codes = []\<rparr>"

definition bpf_redirect_decl :: helper where
  "bpf_redirect_decl =
     \<lparr>h_name = ''bpf_redirect'', h_id = 23, h_ret = S64,
      h_args = [U32, U64], h_variadic = False,
      h_negative = False, h_errnos = [], h_null = False, h_codes = [''XDP_REDIRECT'', ''XDP_ABORTED'', ''TC_ACT_REDIRECT'', ''TC_ACT_SHOT'']\<rparr>"

definition bpf_get_route_realm_decl :: helper where
  "bpf_get_route_realm_decl =
     \<lparr>h_name = ''bpf_get_route_realm'', h_id = 24, h_ret = U32,
      h_args = [Ptr ''struct __sk_buff''], h_variadic = False,
      h_negative = False, h_errnos = [], h_null = False, h_codes = []\<rparr>"

definition bpf_perf_event_output_decl :: helper where
  "bpf_perf_event_output_decl =
     \<lparr>h_name = ''bpf_perf_event_output'', h_id = 25, h_ret = S64,
      h_args = [Ptr ''void'', Ptr ''void'', U64, Ptr ''void'', U64], h_variadic = False,
      h_negative = True, h_errnos = [], h_null = False, h_codes = []\<rparr>"

definition bpf_skb_load_bytes_decl :: helper where
  "bpf_skb_load_bytes_decl =
     \<lparr>h_name = ''bpf_skb_load_bytes'', h_id = 26, h_ret = S64,
      h_args = [CPtr ''void'', U32, Ptr ''void'', U32], h_variadic = False,
      h_negative = True, h_errnos = [], h_null = False, h_codes = []\<rparr>"

definition bpf_get_stackid_decl :: helper where
  "bpf_get_stackid_decl =
     \<lparr>h_name = ''bpf_get_stackid'', h_id = 27, h_ret = S64,
      h_args = [Ptr ''void'', Ptr ''void'', U64], h_variadic = False,
      h_negative = True, h_errnos = [], h_null = False, h_codes = []\<rparr>"

definition bpf_csum_diff_decl :: helper where
  "bpf_csum_diff_decl =
     \<lparr>h_name = ''bpf_csum_diff'', h_id = 28, h_ret = S64,
      h_args = [Ptr ''__be32'', U32, Ptr ''__be32'', U32, U32], h_variadic = False,
      h_negative = True, h_errnos = [], h_null = False, h_codes = []\<rparr>"

definition bpf_skb_get_tunnel_opt_decl :: helper where
  "bpf_skb_get_tunnel_opt_decl =
     \<lparr>h_name = ''bpf_skb_get_tunnel_opt'', h_id = 29, h_ret = S64,
      h_args = [Ptr ''struct __sk_buff'', Ptr ''void'', U32], h_variadic = False,
      h_negative = False, h_errnos = [], h_null = False, h_codes = []\<rparr>"

definition bpf_skb_set_tunnel_opt_decl :: helper where
  "bpf_skb_set_tunnel_opt_decl =
     \<lparr>h_name = ''bpf_skb_set_tunnel_opt'', h_id = 30, h_ret = S64,
      h_args = [Ptr ''struct __sk_buff'', Ptr ''void'', U32], h_variadic = False,
      h_negative = True, h_errnos = [], h_null = False, h_codes = []\<rparr>"

definition bpf_skb_change_proto_decl :: helper where
  "bpf_skb_change_proto_decl =
     \<lparr>h_name = ''bpf_skb_change_proto'', h_id = 31, h_ret = S64,
      h_args = [Ptr ''struct __sk_buff'', U16, U64], h_variadic = False,
      h_negative = True, h_errnos = [], h_null = False, h_codes = []\<rparr>"

definition bpf_skb_change_type_decl :: helper where
  "bpf_skb_change_type_decl =
     \<lparr>h_name = ''bpf_skb_change_type'', h_id = 32, h_ret = S64,
      h_args = [Ptr ''struct __sk_buff'', U32], h_variadic = False,
      h_negative = True, h_errnos = [], h_null = False, h_codes = []\<rparr>"

definition bpf_skb_under_cgroup_decl :: helper where
  "bpf_skb_under_cgroup_decl =
     \<lparr>h_name = ''bpf_skb_under_cgroup'', h_id = 33, h_ret = S64,
      h_args = [Ptr ''struct __sk_buff'', Ptr ''void'', U32], h_variadic = False,
      h_negative = True, h_errnos = [], h_null = False, h_codes = []\<rparr>"

definition bpf_get_hash_recalc_decl :: helper where
  "bpf_get_hash_recalc_decl =
     \<lparr>h_name = ''bpf_get_hash_recalc'', h_id = 34, h_ret = U32,
      h_args = [Ptr ''struct __sk_buff''], h_variadic = False,
      h_negative = False, h_errnos = [], h_null = False, h_codes = []\<rparr>"

definition bpf_get_current_task_decl :: helper where
  "bpf_get_current_task_decl =
     \<lparr>h_name = ''bpf_get_current_task'', h_id = 35, h_ret = U64,
      h_args = [], h_variadic = False,
      h_negative = False, h_errnos = [], h_null = False, h_codes = []\<rparr>"

definition bpf_probe_write_user_decl :: helper where
  "bpf_probe_write_user_decl =
     \<lparr>h_name = ''bpf_probe_write_user'', h_id = 36, h_ret = S64,
      h_args = [Ptr ''void'', CPtr ''void'', U32], h_variadic = False,
      h_negative = True, h_errnos = [], h_null = False, h_codes = []\<rparr>"

definition bpf_current_task_under_cgroup_decl :: helper where
  "bpf_current_task_under_cgroup_decl =
     \<lparr>h_name = ''bpf_current_task_under_cgroup'', h_id = 37, h_ret = S64,
      h_args = [Ptr ''void'', U32], h_variadic = False,
      h_negative = True, h_errnos = [], h_null = False, h_codes = []\<rparr>"

definition bpf_skb_change_tail_decl :: helper where
  "bpf_skb_change_tail_decl =
     \<lparr>h_name = ''bpf_skb_change_tail'', h_id = 38, h_ret = S64,
      h_args = [Ptr ''struct __sk_buff'', U32, U64], h_variadic = False,
      h_negative = True, h_errnos = [], h_null = False, h_codes = []\<rparr>"

definition bpf_skb_pull_data_decl :: helper where
  "bpf_skb_pull_data_decl =
     \<lparr>h_name = ''bpf_skb_pull_data'', h_id = 39, h_ret = S64,
      h_args = [Ptr ''struct __sk_buff'', U32], h_variadic = False,
      h_negative = True, h_errnos = [], h_null = False, h_codes = []\<rparr>"

definition bpf_csum_update_decl :: helper where
  "bpf_csum_update_decl =
     \<lparr>h_name = ''bpf_csum_update'', h_id = 40, h_ret = S64,
      h_args = [Ptr ''struct __sk_buff'', U32], h_variadic = False,
      h_negative = True, h_errnos = [], h_null = False, h_codes = []\<rparr>"

definition bpf_set_hash_invalid_decl :: helper where
  "bpf_set_hash_invalid_decl =
     \<lparr>h_name = ''bpf_set_hash_invalid'', h_id = 41, h_ret = Void,
      h_args = [Ptr ''struct __sk_buff''], h_variadic = False,
      h_negative = False, h_errnos = [], h_null = False, h_codes = []\<rparr>"

definition bpf_get_numa_node_id_decl :: helper where
  "bpf_get_numa_node_id_decl =
     \<lparr>h_name = ''bpf_get_numa_node_id'', h_id = 42, h_ret = S64,
      h_args = [], h_variadic = False,
      h_negative = False, h_errnos = [], h_null = False, h_codes = []\<rparr>"

definition bpf_skb_change_head_decl :: helper where
  "bpf_skb_change_head_decl =
     \<lparr>h_name = ''bpf_skb_change_head'', h_id = 43, h_ret = S64,
      h_args = [Ptr ''struct __sk_buff'', U32, U64], h_variadic = False,
      h_negative = True, h_errnos = [], h_null = False, h_codes = []\<rparr>"

definition bpf_xdp_adjust_head_decl :: helper where
  "bpf_xdp_adjust_head_decl =
     \<lparr>h_name = ''bpf_xdp_adjust_head'', h_id = 44, h_ret = S64,
      h_args = [Ptr ''struct xdp_md'', S32], h_variadic = False,
      h_negative = True, h_errnos = [], h_null = False, h_codes = []\<rparr>"

definition bpf_probe_read_str_decl :: helper where
  "bpf_probe_read_str_decl =
     \<lparr>h_name = ''bpf_probe_read_str'', h_id = 45, h_ret = S64,
      h_args = [Ptr ''void'', U32, CPtr ''void''], h_variadic = False,
      h_negative = True, h_errnos = [], h_null = False, h_codes = []\<rparr>"

definition bpf_get_socket_cookie_decl :: helper where
  "bpf_get_socket_cookie_decl =
     \<lparr>h_name = ''bpf_get_socket_cookie'', h_id = 46, h_ret = U64,
      h_args = [Ptr ''void''], h_variadic = False,
      h_negative = False, h_errnos = [], h_null = False, h_codes = []\<rparr>"

definition bpf_get_socket_uid_decl :: helper where
  "bpf_get_socket_uid_decl =
     \<lparr>h_name = ''bpf_get_socket_uid'', h_id = 47, h_ret = U32,
      h_args = [Ptr ''struct __sk_buff''], h_variadic = False,
      h_negative = False, h_errnos = [], h_null = False, h_codes = []\<rparr>"

definition bpf_set_hash_decl :: helper where
  "bpf_set_hash_decl =
     \<lparr>h_name = ''bpf_set_hash'', h_id = 48, h_ret = S64,
      h_args = [Ptr ''struct __sk_buff'', U32], h_variadic = False,
      h_negative = False, h_errnos = [], h_null = False, h_codes = []\<rparr>"

definition bpf_setsockopt_decl :: helper where
  "bpf_setsockopt_decl =
     \<lparr>h_name = ''bpf_setsockopt'', h_id = 49, h_ret = S64,
      h_args = [Ptr ''void'', S32, S32, Ptr ''void'', S32], h_variadic = False,
      h_negative = True, h_errnos = [], h_null = False, h_codes = []\<rparr>"

definition bpf_skb_adjust_room_decl :: helper where
  "bpf_skb_adjust_room_decl =
     \<lparr>h_name = ''bpf_skb_adjust_room'', h_id = 50, h_ret = S64,
      h_args = [Ptr ''struct __sk_buff'', S32, U32, U64], h_variadic = False,
      h_negative = True, h_errnos = [], h_null = False, h_codes = []\<rparr>"

definition bpf_redirect_map_decl :: helper where
  "bpf_redirect_map_decl =
     \<lparr>h_name = ''bpf_redirect_map'', h_id = 51, h_ret = S64,
      h_args = [Ptr ''void'', U32, U64], h_variadic = False,
      h_negative = False, h_errnos = [], h_null = False, h_codes = [''XDP_REDIRECT'']\<rparr>"

definition bpf_sk_redirect_map_decl :: helper where
  "bpf_sk_redirect_map_decl =
     \<lparr>h_name = ''bpf_sk_redirect_map'', h_id = 52, h_ret = S64,
      h_args = [Ptr ''struct __sk_buff'', Ptr ''void'', U32, U64], h_variadic = False,
      h_negative = False, h_errnos = [], h_null = False, h_codes = [''SK_PASS'', ''SK_DROP'']\<rparr>"

definition bpf_sock_map_update_decl :: helper where
  "bpf_sock_map_update_decl =
     \<lparr>h_name = ''bpf_sock_map_update'', h_id = 53, h_ret = S64,
      h_args = [Ptr ''struct bpf_sock_ops'', Ptr ''void'', Ptr ''void'', U64], h_variadic = False,
      h_negative = True, h_errnos = [], h_null = False, h_codes = []\<rparr>"

definition bpf_xdp_adjust_meta_decl :: helper where
  "bpf_xdp_adjust_meta_decl =
     \<lparr>h_name = ''bpf_xdp_adjust_meta'', h_id = 54, h_ret = S64,
      h_args = [Ptr ''struct xdp_md'', S32], h_variadic = False,
      h_negative = True, h_errnos = [], h_null = False, h_codes = []\<rparr>"

definition bpf_perf_event_read_value_decl :: helper where
  "bpf_perf_event_read_value_decl =
     \<lparr>h_name = ''bpf_perf_event_read_value'', h_id = 55, h_ret = S64,
      h_args = [Ptr ''void'', U64, Ptr ''struct bpf_perf_event_value'', U32], h_variadic = False,
      h_negative = True, h_errnos = [], h_null = False, h_codes = []\<rparr>"

definition bpf_perf_prog_read_value_decl :: helper where
  "bpf_perf_prog_read_value_decl =
     \<lparr>h_name = ''bpf_perf_prog_read_value'', h_id = 56, h_ret = S64,
      h_args = [Ptr ''struct bpf_perf_event_data'', Ptr ''struct bpf_perf_event_value'', U32], h_variadic = False,
      h_negative = True, h_errnos = [], h_null = False, h_codes = []\<rparr>"

definition bpf_getsockopt_decl :: helper where
  "bpf_getsockopt_decl =
     \<lparr>h_name = ''bpf_getsockopt'', h_id = 57, h_ret = S64,
      h_args = [Ptr ''void'', S32, S32, Ptr ''void'', S32], h_variadic = False,
      h_negative = True, h_errnos = [], h_null = False, h_codes = []\<rparr>"

definition bpf_override_return_decl :: helper where
  "bpf_override_return_decl =
     \<lparr>h_name = ''bpf_override_return'', h_id = 58, h_ret = S64,
      h_args = [Ptr ''struct pt_regs'', U64], h_variadic = False,
      h_negative = False, h_errnos = [], h_null = False, h_codes = []\<rparr>"

definition bpf_sock_ops_cb_flags_set_decl :: helper where
  "bpf_sock_ops_cb_flags_set_decl =
     \<lparr>h_name = ''bpf_sock_ops_cb_flags_set'', h_id = 59, h_ret = S64,
      h_args = [Ptr ''struct bpf_sock_ops'', S32], h_variadic = False,
      h_negative = False, h_errnos = [''EINVAL''], h_null = False, h_codes = []\<rparr>"

definition bpf_msg_redirect_map_decl :: helper where
  "bpf_msg_redirect_map_decl =
     \<lparr>h_name = ''bpf_msg_redirect_map'', h_id = 60, h_ret = S64,
      h_args = [Ptr ''struct sk_msg_md'', Ptr ''void'', U32, U64], h_variadic = False,
      h_negative = False, h_errnos = [], h_null = False, h_codes = [''SK_PASS'', ''SK_DROP'']\<rparr>"

definition bpf_msg_apply_bytes_decl :: helper where
  "bpf_msg_apply_bytes_decl =
     \<lparr>h_name = ''bpf_msg_apply_bytes'', h_id = 61, h_ret = S64,
      h_args = [Ptr ''struct sk_msg_md'', U32], h_variadic = False,
      h_negative = False, h_errnos = [], h_null = False, h_codes = []\<rparr>"

definition bpf_msg_cork_bytes_decl :: helper where
  "bpf_msg_cork_bytes_decl =
     \<lparr>h_name = ''bpf_msg_cork_bytes'', h_id = 62, h_ret = S64,
      h_args = [Ptr ''struct sk_msg_md'', U32], h_variadic = False,
      h_negative = False, h_errnos = [], h_null = False, h_codes = []\<rparr>"

definition bpf_msg_pull_data_decl :: helper where
  "bpf_msg_pull_data_decl =
     \<lparr>h_name = ''bpf_msg_pull_data'', h_id = 63, h_ret = S64,
      h_args = [Ptr ''struct sk_msg_md'', U32, U32, U64], h_variadic = False,
      h_negative = True, h_errnos = [], h_null = False, h_codes = []\<rparr>"

definition bpf_bind_decl :: helper where
  "bpf_bind_decl =
     \<lparr>h_name = ''bpf_bind'', h_id = 64, h_ret = S64,
      h_args = [Ptr ''struct bpf_sock_addr'', Ptr ''struct sockaddr'', S32], h_variadic = False,
      h_negative = True, h_errnos = [], h_null = False, h_codes = []\<rparr>"

definition bpf_xdp_adjust_tail_decl :: helper where
  "bpf_xdp_adjust_tail_decl =
     \<lparr>h_name = ''bpf_xdp_adjust_tail'', h_id = 65, h_ret = S64,
      h_args = [Ptr ''struct xdp_md'', S32], h_variadic = False,
      h_negative = True, h_errnos = [], h_null = False, h_codes = []\<rparr>"

definition bpf_skb_get_xfrm_state_decl :: helper where
  "bpf_skb_get_xfrm_state_decl =
     \<lparr>h_name = ''bpf_skb_get_xfrm_state'', h_id = 66, h_ret = S64,
      h_args = [Ptr ''struct __sk_buff'', U32, Ptr ''struct bpf_xfrm_state'', U32, U64], h_variadic = False,
      h_negative = True, h_errnos = [], h_null = False, h_codes = []\<rparr>"

definition bpf_get_stack_decl :: helper where
  "bpf_get_stack_decl =
     \<lparr>h_name = ''bpf_get_stack'', h_id = 67, h_ret = S64,
      h_args = [Ptr ''void'', Ptr ''void'', U32, U64], h_variadic = False,
      h_negative = True, h_errnos = [], h_null = False, h_codes = []\<rparr>"

definition bpf_skb_load_bytes_relative_decl :: helper where
  "bpf_skb_load_bytes_relative_decl =
     \<lparr>h_name = ''bpf_skb_load_bytes_relative'', h_id = 68, h_ret = S64,
      h_args = [CPtr ''void'', U32, Ptr ''void'', U32, U32], h_variadic = False,
      h_negative = True, h_errnos = [], h_null = False, h_codes = []\<rparr>"

definition bpf_fib_lookup_decl :: helper where
  "bpf_fib_lookup_decl =
     \<lparr>h_name = ''bpf_fib_lookup'', h_id = 69, h_ret = S64,
      h_args = [Ptr ''void'', Ptr ''struct bpf_fib_lookup'', S32, U32], h_variadic = False,
      h_negative = True, h_errnos = [], h_null = False, h_codes = []\<rparr>"

definition bpf_sock_hash_update_decl :: helper where
  "bpf_sock_hash_update_decl =
     \<lparr>h_name = ''bpf_sock_hash_update'', h_id = 70, h_ret = S64,
      h_args = [Ptr ''struct bpf_sock_ops'', Ptr ''void'', Ptr ''void'', U64], h_variadic = False,
      h_negative = True, h_errnos = [], h_null = False, h_codes = []\<rparr>"

definition bpf_msg_redirect_hash_decl :: helper where
  "bpf_msg_redirect_hash_decl =
     \<lparr>h_name = ''bpf_msg_redirect_hash'', h_id = 71, h_ret = S64,
      h_args = [Ptr ''struct sk_msg_md'', Ptr ''void'', Ptr ''void'', U64], h_variadic = False,
      h_negative = False, h_errnos = [], h_null = False, h_codes = [''SK_PASS'', ''SK_DROP'']\<rparr>"

definition bpf_sk_redirect_hash_decl :: helper where
  "bpf_sk_redirect_hash_decl =
     \<lparr>h_name = ''bpf_sk_redirect_hash'', h_id = 72, h_ret = S64,
      h_args = [Ptr ''struct __sk_buff'', Ptr ''void'', Ptr ''void'', U64], h_variadic = False,
      h_negative = False, h_errnos = [], h_null = False, h_codes = [''SK_PASS'', ''SK_DROP'']\<rparr>"

definition bpf_lwt_push_encap_decl :: helper where
  "bpf_lwt_push_encap_decl =
     \<lparr>h_name = ''bpf_lwt_push_encap'', h_id = 73, h_ret = S64,
      h_args = [Ptr ''struct __sk_buff'', U32, Ptr ''void'', U32], h_variadic = False,
      h_negative = True, h_errnos = [], h_null = False, h_codes = []\<rparr>"

definition bpf_lwt_seg6_store_bytes_decl :: helper where
  "bpf_lwt_seg6_store_bytes_decl =
     \<lparr>h_name = ''bpf_lwt_seg6_store_bytes'', h_id = 74, h_ret = S64,
      h_args = [Ptr ''struct __sk_buff'', U32, CPtr ''void'', U32], h_variadic = False,
      h_negative = True, h_errnos = [], h_null = False, h_codes = []\<rparr>"

definition bpf_lwt_seg6_adjust_srh_decl :: helper where
  "bpf_lwt_seg6_adjust_srh_decl =
     \<lparr>h_name = ''bpf_lwt_seg6_adjust_srh'', h_id = 75, h_ret = S64,
      h_args = [Ptr ''struct __sk_buff'', U32, S32], h_variadic = False,
      h_negative = True, h_errnos = [], h_null = False, h_codes = []\<rparr>"

definition bpf_lwt_seg6_action_decl :: helper where
  "bpf_lwt_seg6_action_decl =
     \<lparr>h_name = ''bpf_lwt_seg6_action'', h_id = 76, h_ret = S64,
      h_args = [Ptr ''struct __sk_buff'', U32, Ptr ''void'', U32], h_variadic = False,
      h_negative = True, h_errnos = [], h_null = False, h_codes = []\<rparr>"

definition bpf_rc_repeat_decl :: helper where
  "bpf_rc_repeat_decl =
     \<lparr>h_name = ''bpf_rc_repeat'', h_id = 77, h_ret = S64,
      h_args = [Ptr ''void''], h_variadic = False,
      h_negative = False, h_errnos = [], h_null = False, h_codes = []\<rparr>"

definition bpf_rc_keydown_decl :: helper where
  "bpf_rc_keydown_decl =
     \<lparr>h_name = ''bpf_rc_keydown'', h_id = 78, h_ret = S64,
      h_args = [Ptr ''void'', U32, U64, U32], h_variadic = False,
      h_negative = False, h_errnos = [], h_null = False, h_codes = []\<rparr>"

definition bpf_skb_cgroup_id_decl :: helper where
  "bpf_skb_cgroup_id_decl =
     \<lparr>h_name = ''bpf_skb_cgroup_id'', h_id = 79, h_ret = U64,
      h_args = [Ptr ''struct __sk_buff''], h_variadic = False,
      h_negative = False, h_errnos = [], h_null = False, h_codes = []\<rparr>"

definition bpf_get_current_cgroup_id_decl :: helper where
  "bpf_get_current_cgroup_id_decl =
     \<lparr>h_name = ''bpf_get_current_cgroup_id'', h_id = 80, h_ret = U64,
      h_args = [], h_variadic = False,
      h_negative = False, h_errnos = [], h_null = False, h_codes = []\<rparr>"

definition bpf_get_local_storage_decl :: helper where
  "bpf_get_local_storage_decl =
     \<lparr>h_name = ''bpf_get_local_storage'', h_id = 81, h_ret = Ptr ''void'',
      h_args = [Ptr ''void'', U64], h_variadic = False,
      h_negative = False, h_errnos = [], h_null = False, h_codes = []\<rparr>"

definition bpf_sk_select_reuseport_decl :: helper where
  "bpf_sk_select_reuseport_decl =
     \<lparr>h_name = ''bpf_sk_select_reuseport'', h_id = 82, h_ret = S64,
      h_args = [Ptr ''struct sk_reuseport_md'', Ptr ''void'', Ptr ''void'', U64], h_variadic = False,
      h_negative = True, h_errnos = [], h_null = False, h_codes = []\<rparr>"

definition bpf_skb_ancestor_cgroup_id_decl :: helper where
  "bpf_skb_ancestor_cgroup_id_decl =
     \<lparr>h_name = ''bpf_skb_ancestor_cgroup_id'', h_id = 83, h_ret = U64,
      h_args = [Ptr ''struct __sk_buff'', S32], h_variadic = False,
      h_negative = False, h_errnos = [], h_null = False, h_codes = []\<rparr>"

definition bpf_sk_lookup_tcp_decl :: helper where
  "bpf_sk_lookup_tcp_decl =
     \<lparr>h_name = ''bpf_sk_lookup_tcp'', h_id = 84, h_ret = Ptr ''struct bpf_sock'',
      h_args = [Ptr ''void'', Ptr ''struct bpf_sock_tuple'', U32, U64, U64], h_variadic = False,
      h_negative = False, h_errnos = [], h_null = True, h_codes = []\<rparr>"

definition bpf_sk_lookup_udp_decl :: helper where
  "bpf_sk_lookup_udp_decl =
     \<lparr>h_name = ''bpf_sk_lookup_udp'', h_id = 85, h_ret = Ptr ''struct bpf_sock'',
      h_args = [Ptr ''void'', Ptr ''struct bpf_sock_tuple'', U32, U64, U64], h_variadic = False,
      h_negative = False, h_errnos = [], h_null = True, h_codes = []\<rparr>"

definition bpf_sk_release_decl :: helper where
  "bpf_sk_release_decl =
     \<lparr>h_name = ''bpf_sk_release'', h_id = 86, h_ret = S64,
      h_args = [Ptr ''void''], h_variadic = False,
      h_negative = True, h_errnos = [], h_null = False, h_codes = []\<rparr>"

definition bpf_map_push_elem_decl :: helper where
  "bpf_map_push_elem_decl =
     \<lparr>h_name = ''bpf_map_push_elem'', h_id = 87, h_ret = S64,
      h_args = [Ptr ''void'', CPtr ''void'', U64], h_variadic = False,
      h_negative = True, h_errnos = [], h_null = False, h_codes = []\<rparr>"

definition bpf_map_pop_elem_decl :: helper where
  "bpf_map_pop_elem_decl =
     \<lparr>h_name = ''bpf_map_pop_elem'', h_id = 88, h_ret = S64,
      h_args = [Ptr ''void'', Ptr ''void''], h_variadic = False,
      h_negative = True, h_errnos = [], h_null = False, h_codes = []\<rparr>"

definition bpf_map_peek_elem_decl :: helper where
  "bpf_map_peek_elem_decl =
     \<lparr>h_name = ''bpf_map_peek_elem'', h_id = 89, h_ret = S64,
      h_args = [Ptr ''void'', Ptr ''void''], h_variadic = False,
      h_negative = True, h_errnos = [], h_null = False, h_codes = []\<rparr>"

definition bpf_msg_push_data_decl :: helper where
  "bpf_msg_push_data_decl =
     \<lparr>h_name = ''bpf_msg_push_data'', h_id = 90, h_ret = S64,
      h_args = [Ptr ''struct sk_msg_md'', U32, U32, U64], h_variadic = False,
      h_negative = True, h_errnos = [], h_null = False, h_codes = []\<rparr>"

definition bpf_msg_pop_data_decl :: helper where
  "bpf_msg_pop_data_decl =
     \<lparr>h_name = ''bpf_msg_pop_data'', h_id = 91, h_ret = S64,
      h_args = [Ptr ''struct sk_msg_md'', U32, U32, U64], h_variadic = False,
      h_negative = True, h_errnos = [], h_null = False, h_codes = []\<rparr>"

definition bpf_rc_pointer_rel_decl :: helper where
  "bpf_rc_pointer_rel_decl =
     \<lparr>h_name = ''bpf_rc_pointer_rel'', h_id = 92, h_ret = S64,
      h_args = [Ptr ''void'', S32, S32], h_variadic = False,
      h_negative = False, h_errnos = [], h_null = False, h_codes = []\<rparr>"

definition bpf_spin_lock_decl :: helper where
  "bpf_spin_lock_decl =
     \<lparr>h_name = ''bpf_spin_lock'', h_id = 93, h_ret = S64,
      h_args = [Ptr ''struct bpf_spin_lock''], h_variadic = False,
      h_negative = False, h_errnos = [], h_null = False, h_codes = []\<rparr>"

definition bpf_spin_unlock_decl :: helper where
  "bpf_spin_unlock_decl =
     \<lparr>h_name = ''bpf_spin_unlock'', h_id = 94, h_ret = S64,
      h_args = [Ptr ''struct bpf_spin_lock''], h_variadic = False,
      h_negative = False, h_errnos = [], h_null = False, h_codes = []\<rparr>"

definition bpf_sk_fullsock_decl :: helper where
  "bpf_sk_fullsock_decl =
     \<lparr>h_name = ''bpf_sk_fullsock'', h_id = 95, h_ret = Ptr ''struct bpf_sock'',
      h_args = [Ptr ''struct bpf_sock''], h_variadic = False,
      h_negative = False, h_errnos = [], h_null = True, h_codes = []\<rparr>"

definition bpf_tcp_sock_decl :: helper where
  "bpf_tcp_sock_decl =
     \<lparr>h_name = ''bpf_tcp_sock'', h_id = 96, h_ret = Ptr ''struct bpf_tcp_sock'',
      h_args = [Ptr ''struct bpf_sock''], h_variadic = False,
      h_negative = False, h_errnos = [], h_null = True, h_codes = []\<rparr>"

definition bpf_skb_ecn_set_ce_decl :: helper where
  "bpf_skb_ecn_set_ce_decl =
     \<lparr>h_name = ''bpf_skb_ecn_set_ce'', h_id = 97, h_ret = S64,
      h_args = [Ptr ''struct __sk_buff''], h_variadic = False,
      h_negative = False, h_errnos = [], h_null = False, h_codes = []\<rparr>"

definition bpf_get_listener_sock_decl :: helper where
  "bpf_get_listener_sock_decl =
     \<lparr>h_name = ''bpf_get_listener_sock'', h_id = 98, h_ret = Ptr ''struct bpf_sock'',
      h_args = [Ptr ''struct bpf_sock''], h_variadic = False,
      h_negative = False, h_errnos = [], h_null = True, h_codes = []\<rparr>"

definition bpf_skc_lookup_tcp_decl :: helper where
  "bpf_skc_lookup_tcp_decl =
     \<lparr>h_name = ''bpf_skc_lookup_tcp'', h_id = 99, h_ret = Ptr ''struct bpf_sock'',
      h_args = [Ptr ''void'', Ptr ''struct bpf_sock_tuple'', U32, U64, U64], h_variadic = False,
      h_negative = False, h_errnos = [], h_null = True, h_codes = []\<rparr>"

definition bpf_tcp_check_syncookie_decl :: helper where
  "bpf_tcp_check_syncookie_decl =
     \<lparr>h_name = ''bpf_tcp_check_syncookie'', h_id = 100, h_ret = S64,
      h_args = [Ptr ''void'', Ptr ''void'', U32, Ptr ''struct tcphdr'', U32], h_variadic = False,
      h_negative = True, h_errnos = [], h_null = False, h_codes = []\<rparr>"

definition bpf_sysctl_get_name_decl :: helper where
  "bpf_sysctl_get_name_decl =
     \<lparr>h_name = ''bpf_sysctl_get_name'', h_id = 101, h_ret = S64,
      h_args = [Ptr ''struct bpf_sysctl'', Ptr ''char'', U64, U64], h_variadic = False,
      h_negative = False, h_errnos = [''E2BIG''], h_null = False, h_codes = []\<rparr>"

definition bpf_sysctl_get_current_value_decl :: helper where
  "bpf_sysctl_get_current_value_decl =
     \<lparr>h_name = ''bpf_sysctl_get_current_value'', h_id = 102, h_ret = S64,
      h_args = [Ptr ''struct bpf_sysctl'', Ptr ''char'', U64], h_variadic = False,
      h_negative = False, h_errnos = [''E2BIG'', ''EINVAL'', ''EIO''], h_null = False, h_codes = []\<rparr>"

definition bpf_sysctl_get_new_value_decl :: helper where
  "bpf_sysctl_get_new_value_decl =
     \<lparr>h_name = ''bpf_sysctl_get_new_value'', h_id = 103, h_ret = S64,
      h_args = [Ptr ''struct bpf_sysctl'', Ptr ''char'', U64], h_variadic = False,
      h_negative = False, h_errnos = [''E2BIG'', ''EINVAL''], h_null = False, h_codes = []\<rparr>"

definition bpf_sysctl_set_new_value_decl :: helper where
  "bpf_sysctl_set_new_value_decl =
     \<lparr>h_name = ''bpf_sysctl_set_new_value'', h_id = 104, h_ret = S64,
      h_args = [Ptr ''struct bpf_sysctl'', CPtr ''char'', U64], h_variadic = False,
      h_negative = False, h_errnos = [''E2BIG'', ''EINVAL''], h_null = False, h_codes = []\<rparr>"

definition bpf_strtol_decl :: helper where
  "bpf_strtol_decl =
     \<lparr>h_name = ''bpf_strtol'', h_id = 105, h_ret = S64,
      h_args = [CPtr ''char'', U64, U64, Ptr ''long''], h_variadic = False,
      h_negative = False, h_errnos = [''EINVAL'', ''ERANGE''], h_null = False, h_codes = []\<rparr>"

definition bpf_strtoul_decl :: helper where
  "bpf_strtoul_decl =
     \<lparr>h_name = ''bpf_strtoul'', h_id = 106, h_ret = S64,
      h_args = [CPtr ''char'', U64, U64, Ptr ''unsigned long''], h_variadic = False,
      h_negative = False, h_errnos = [''EINVAL'', ''ERANGE''], h_null = False, h_codes = []\<rparr>"

definition bpf_sk_storage_get_decl :: helper where
  "bpf_sk_storage_get_decl =
     \<lparr>h_name = ''bpf_sk_storage_get'', h_id = 107, h_ret = Ptr ''void'',
      h_args = [Ptr ''void'', Ptr ''void'', Ptr ''void'', U64], h_variadic = False,
      h_negative = False, h_errnos = [], h_null = True, h_codes = []\<rparr>"

definition bpf_sk_storage_delete_decl :: helper where
  "bpf_sk_storage_delete_decl =
     \<lparr>h_name = ''bpf_sk_storage_delete'', h_id = 108, h_ret = S64,
      h_args = [Ptr ''void'', Ptr ''void''], h_variadic = False,
      h_negative = False, h_errnos = [''ENOENT'', ''EINVAL''], h_null = False, h_codes = []\<rparr>"

definition bpf_send_signal_decl :: helper where
  "bpf_send_signal_decl =
     \<lparr>h_name = ''bpf_send_signal'', h_id = 109, h_ret = S64,
      h_args = [U32], h_variadic = False,
      h_negative = False, h_errnos = [''EBUSY'', ''EINVAL'', ''EPERM'', ''EAGAIN''], h_null = False, h_codes = []\<rparr>"

definition bpf_tcp_gen_syncookie_decl :: helper where
  "bpf_tcp_gen_syncookie_decl =
     \<lparr>h_name = ''bpf_tcp_gen_syncookie'', h_id = 110, h_ret = S64,
      h_args = [Ptr ''void'', Ptr ''void'', U32, Ptr ''struct tcphdr'', U32], h_variadic = False,
      h_negative = False, h_errnos = [''EINVAL'', ''ENOENT'', ''EOPNOTSUPP'', ''EPROTONOSUPPORT''], h_null = False, h_codes = []\<rparr>"

definition bpf_skb_output_decl :: helper where
  "bpf_skb_output_decl =
     \<lparr>h_name = ''bpf_skb_output'', h_id = 111, h_ret = S64,
      h_args = [Ptr ''void'', Ptr ''void'', U64, Ptr ''void'', U64], h_variadic = False,
      h_negative = True, h_errnos = [], h_null = False, h_codes = []\<rparr>"

definition bpf_probe_read_user_decl :: helper where
  "bpf_probe_read_user_decl =
     \<lparr>h_name = ''bpf_probe_read_user'', h_id = 112, h_ret = S64,
      h_args = [Ptr ''void'', U32, CPtr ''void''], h_variadic = False,
      h_negative = True, h_errnos = [], h_null = False, h_codes = []\<rparr>"

definition bpf_probe_read_kernel_decl :: helper where
  "bpf_probe_read_kernel_decl =
     \<lparr>h_name = ''bpf_probe_read_kernel'', h_id = 113, h_ret = S64,
      h_args = [Ptr ''void'', U32, CPtr ''void''], h_variadic = False,
      h_negative = True, h_errnos = [], h_null = False, h_codes = []\<rparr>"

definition bpf_probe_read_user_str_decl :: helper where
  "bpf_probe_read_user_str_decl =
     \<lparr>h_name = ''bpf_probe_read_user_str'', h_id = 114, h_ret = S64,
      h_args = [Ptr ''void'', U32, CPtr ''void''], h_variadic = False,
      h_negative = True, h_errnos = [], h_null = False, h_codes = []\<rparr>"

definition bpf_probe_read_kernel_str_decl :: helper where
  "bpf_probe_read_kernel_str_decl =
     \<lparr>h_name = ''bpf_probe_read_kernel_str'', h_id = 115, h_ret = S64,
      h_args = [Ptr ''void'', U32, CPtr ''void''], h_variadic = False,
      h_negative = True, h_errnos = [], h_null = False, h_codes = []\<rparr>"

definition bpf_tcp_send_ack_decl :: helper where
  "bpf_tcp_send_ack_decl =
     \<lparr>h_name = ''bpf_tcp_send_ack'', h_id = 116, h_ret = S64,
      h_args = [Ptr ''void'', U32], h_variadic = False,
      h_negative = True, h_errnos = [], h_null = False, h_codes = []\<rparr>"

definition bpf_send_signal_thread_decl :: helper where
  "bpf_send_signal_thread_decl =
     \<lparr>h_name = ''bpf_send_signal_thread'', h_id = 117, h_ret = S64,
      h_args = [U32], h_variadic = False,
      h_negative = False, h_errnos = [''EBUSY'', ''EINVAL'', ''EPERM'', ''EAGAIN''], h_null = False, h_codes = []\<rparr>"

definition bpf_jiffies64_decl :: helper where
  "bpf_jiffies64_decl =
     \<lparr>h_name = ''bpf_jiffies64'', h_id = 118, h_ret = U64,
      h_args = [], h_variadic = False,
      h_negative = False, h_errnos = [], h_null = False, h_codes = []\<rparr>"

definition bpf_read_branch_records_decl :: helper where
  "bpf_read_branch_records_decl =
     \<lparr>h_name = ''bpf_read_branch_records'', h_id = 119, h_ret = S64,
      h_args = [Ptr ''struct bpf_perf_event_data'', Ptr ''void'', U32, U64], h_variadic = False,
      h_negative = True, h_errnos = [''EINVAL'', ''ENOENT''], h_null = False, h_codes = []\<rparr>"

definition bpf_get_ns_current_pid_tgid_decl :: helper where
  "bpf_get_ns_current_pid_tgid_decl =
     \<lparr>h_name = ''bpf_get_ns_current_pid_tgid'', h_id = 120, h_ret = S64,
      h_args = [U64, U64, Ptr ''struct bpf_pidns_info'', U32], h_variadic = False,
      h_negative = False, h_errnos = [''EINVAL'', ''ENOENT''], h_null = False, h_codes = []\<rparr>"

definition bpf_xdp_output_decl :: helper where
  "bpf_xdp_output_decl =
     \<lparr>h_name = ''bpf_xdp_output'', h_id = 121, h_ret = S64,
      h_args = [Ptr ''void'', Ptr ''void'', U64, Ptr ''void'', U64], h_variadic = False,
      h_negative = True, h_errnos = [], h_null = False, h_codes = []\<rparr>"

definition bpf_get_netns_cookie_decl :: helper where
  "bpf_get_netns_cookie_decl =
     \<lparr>h_name = ''bpf_get_netns_cookie'', h_id = 122, h_ret = U64,
      h_args = [Ptr ''void''], h_variadic = False,
      h_negative = False, h_errnos = [], h_null = False, h_codes = []\<rparr>"

definition bpf_get_current_ancestor_cgroup_id_decl :: helper where
  "bpf_get_current_ancestor_cgroup_id_decl =
     \<lparr>h_name = ''bpf_get_current_ancestor_cgroup_id'', h_id = 123, h_ret = U64,
      h_args = [S32], h_variadic = False,
      h_negative = False, h_errnos = [], h_null = False, h_codes = []\<rparr>"

definition bpf_sk_assign_decl :: helper where
  "bpf_sk_assign_decl =
     \<lparr>h_name = ''bpf_sk_assign'', h_id = 124, h_ret = S64,
      h_args = [Ptr ''void'', Ptr ''void'', U64], h_variadic = False,
      h_negative = True, h_errnos = [''EINVAL'', ''ENOENT'', ''ENETUNREACH'', ''EOPNOTSUPP'', ''ESOCKTNOSUPPORT''], h_null = False, h_codes = []\<rparr>"

definition bpf_ktime_get_boot_ns_decl :: helper where
  "bpf_ktime_get_boot_ns_decl =
     \<lparr>h_name = ''bpf_ktime_get_boot_ns'', h_id = 125, h_ret = U64,
      h_args = [], h_variadic = False,
      h_negative = False, h_errnos = [], h_null = False, h_codes = []\<rparr>"

definition bpf_seq_printf_decl :: helper where
  "bpf_seq_printf_decl =
     \<lparr>h_name = ''bpf_seq_printf'', h_id = 126, h_ret = S64,
      h_args = [Ptr ''struct seq_file'', CPtr ''char'', U32, CPtr ''void'', U32], h_variadic = False,
      h_negative = True, h_errnos = [''EBUSY'', ''EINVAL'', ''E2BIG'', ''EOVERFLOW''], h_null = False, h_codes = []\<rparr>"

definition bpf_seq_write_decl :: helper where
  "bpf_seq_write_decl =
     \<lparr>h_name = ''bpf_seq_write'', h_id = 127, h_ret = S64,
      h_args = [Ptr ''struct seq_file'', CPtr ''void'', U32], h_variadic = False,
      h_negative = True, h_errnos = [''EOVERFLOW''], h_null = False, h_codes = []\<rparr>"

definition bpf_sk_cgroup_id_decl :: helper where
  "bpf_sk_cgroup_id_decl =
     \<lparr>h_name = ''bpf_sk_cgroup_id'', h_id = 128, h_ret = U64,
      h_args = [Ptr ''void''], h_variadic = False,
      h_negative = False, h_errnos = [], h_null = False, h_codes = []\<rparr>"

definition bpf_sk_ancestor_cgroup_id_decl :: helper where
  "bpf_sk_ancestor_cgroup_id_decl =
     \<lparr>h_name = ''bpf_sk_ancestor_cgroup_id'', h_id = 129, h_ret = U64,
      h_args = [Ptr ''void'', S32], h_variadic = False,
      h_negative = False, h_errnos = [], h_null = False, h_codes = []\<rparr>"

definition bpf_ringbuf_output_decl :: helper where
  "bpf_ringbuf_output_decl =
     \<lparr>h_name = ''bpf_ringbuf_output'', h_id = 130, h_ret = S64,
      h_args = [Ptr ''void'', Ptr ''void'', U64, U64], h_variadic = False,
      h_negative = True, h_errnos = [], h_null = False, h_codes = []\<rparr>"

definition bpf_ringbuf_reserve_decl :: helper where
  "bpf_ringbuf_reserve_decl =
     \<lparr>h_name = ''bpf_ringbuf_reserve'', h_id = 131, h_ret = Ptr ''void'',
      h_args = [Ptr ''void'', U64, U64], h_variadic = False,
      h_negative = False, h_errnos = [], h_null = True, h_codes = []\<rparr>"

definition bpf_ringbuf_submit_decl :: helper where
  "bpf_ringbuf_submit_decl =
     \<lparr>h_name = ''bpf_ringbuf_submit'', h_id = 132, h_ret = Void,
      h_args = [Ptr ''void'', U64], h_variadic = False,
      h_negative = False, h_errnos = [], h_null = False, h_codes = []\<rparr>"

definition bpf_ringbuf_discard_decl :: helper where
  "bpf_ringbuf_discard_decl =
     \<lparr>h_name = ''bpf_ringbuf_discard'', h_id = 133, h_ret = Void,
      h_args = [Ptr ''void'', U64], h_variadic = False,
      h_negative = False, h_errnos = [], h_null = False, h_codes = []\<rparr>"

definition bpf_ringbuf_query_decl :: helper where
  "bpf_ringbuf_query_decl =
     \<lparr>h_name = ''bpf_ringbuf_query'', h_id = 134, h_ret = U64,
      h_args = [Ptr ''void'', U64], h_variadic = False,
      h_negative = False, h_errnos = [], h_null = False, h_codes = []\<rparr>"

definition bpf_csum_level_decl :: helper where
  "bpf_csum_level_decl =
     \<lparr>h_name = ''bpf_csum_level'', h_id = 135, h_ret = S64,
      h_args = [Ptr ''struct __sk_buff'', U64], h_variadic = False,
      h_negative = True, h_errnos = [''EACCES''], h_null = False, h_codes = []\<rparr>"

definition bpf_skc_to_tcp6_sock_decl :: helper where
  "bpf_skc_to_tcp6_sock_decl =
     \<lparr>h_name = ''bpf_skc_to_tcp6_sock'', h_id = 136, h_ret = Ptr ''struct tcp6_sock'',
      h_args = [Ptr ''void''], h_variadic = False,
      h_negative = False, h_errnos = [], h_null = True, h_codes = []\<rparr>"

definition bpf_skc_to_tcp_sock_decl :: helper where
  "bpf_skc_to_tcp_sock_decl =
     \<lparr>h_name = ''bpf_skc_to_tcp_sock'', h_id = 137, h_ret = Ptr ''struct tcp_sock'',
      h_args = [Ptr ''void''], h_variadic = False,
      h_negative = False, h_errnos = [], h_null = True, h_codes = []\<rparr>"

definition bpf_skc_to_tcp_timewait_sock_decl :: helper where
  "bpf_skc_to_tcp_timewait_sock_decl =
     \<lparr>h_name = ''bpf_skc_to_tcp_timewait_sock'', h_id = 138, h_ret = Ptr ''struct tcp_timewait_sock'',
      h_args = [Ptr ''void''], h_variadic = False,
      h_negative = False, h_errnos = [], h_null = True, h_codes = []\<rparr>"

definition bpf_skc_to_tcp_request_sock_decl :: helper where
  "bpf_skc_to_tcp_request_sock_decl =
     \<lparr>h_name = ''bpf_skc_to_tcp_request_sock'', h_id = 139, h_ret = Ptr ''struct tcp_request_sock'',
      h_args = [Ptr ''void''], h_variadic = False,
      h_negative = False, h_errnos = [], h_null = True, h_codes = []\<rparr>"

definition bpf_skc_to_udp6_sock_decl :: helper where
  "bpf_skc_to_udp6_sock_decl =
     \<lparr>h_name = ''bpf_skc_to_udp6_sock'', h_id = 140, h_ret = Ptr ''struct udp6_sock'',
      h_args = [Ptr ''void''], h_variadic = False,
      h_negative = False, h_errnos = [], h_null = True, h_codes = []\<rparr>"

definition bpf_get_task_stack_decl :: helper where
  "bpf_get_task_stack_decl =
     \<lparr>h_name = ''bpf_get_task_stack'', h_id = 141, h_ret = S64,
      h_args = [Ptr ''struct task_struct'', Ptr ''void'', U32, U64], h_variadic = False,
      h_negative = True, h_errnos = [], h_null = False, h_codes = []\<rparr>"

definition bpf_load_hdr_opt_decl :: helper where
  "bpf_load_hdr_opt_decl =
     \<lparr>h_name = ''bpf_load_hdr_opt'', h_id = 142, h_ret = S64,
      h_args = [Ptr ''struct bpf_sock_ops'', Ptr ''void'', U32, U64], h_variadic = False,
      h_negative = True, h_errnos = [''EINVAL'', ''ENOMSG'', ''ENOENT'', ''ENOSPC'', ''EFAULT'', ''EPERM''], h_null = False, h_codes = []\<rparr>"

definition bpf_store_hdr_opt_decl :: helper where
  "bpf_store_hdr_opt_decl =
     \<lparr>h_name = ''bpf_store_hdr_opt'', h_id = 143, h_ret = S64,
      h_args = [Ptr ''struct bpf_sock_ops'', CPtr ''void'', U32, U64], h_variadic = False,
      h_negative = True, h_errnos = [''EINVAL'', ''ENOSPC'', ''EEXIST'', ''EFAULT'', ''EPERM''], h_null = False, h_codes = []\<rparr>"

definition bpf_reserve_hdr_opt_decl :: helper where
  "bpf_reserve_hdr_opt_decl =
     \<lparr>h_name = ''bpf_reserve_hdr_opt'', h_id = 144, h_ret = S64,
      h_args = [Ptr ''struct bpf_sock_ops'', U32, U64], h_variadic = False,
      h_negative = True, h_errnos = [''EINVAL'', ''ENOSPC'', ''EPERM''], h_null = False, h_codes = []\<rparr>"

definition bpf_inode_storage_get_decl :: helper where
  "bpf_inode_storage_get_decl =
     \<lparr>h_name = ''bpf_inode_storage_get'', h_id = 145, h_ret = Ptr ''void'',
      h_args = [Ptr ''void'', Ptr ''void'', Ptr ''void'', U64], h_variadic = False,
      h_negative = False, h_errnos = [], h_null = True, h_codes = []\<rparr>"

definition bpf_inode_storage_delete_decl :: helper where
  "bpf_inode_storage_delete_decl =
     \<lparr>h_name = ''bpf_inode_storage_delete'', h_id = 146, h_ret = S32,
      h_args = [Ptr ''void'', Ptr ''void''], h_variadic = False,
      h_negative = False, h_errnos = [''ENOENT''], h_null = False, h_codes = []\<rparr>"

definition bpf_d_path_decl :: helper where
  "bpf_d_path_decl =
     \<lparr>h_name = ''bpf_d_path'', h_id = 147, h_ret = S64,
      h_args = [Ptr ''struct path'', Ptr ''char'', U32], h_variadic = False,
      h_negative = True, h_errnos = [], h_null = False, h_codes = []\<rparr>"

definition bpf_copy_from_user_decl :: helper where
  "bpf_copy_from_user_decl =
     \<lparr>h_name = ''bpf_copy_from_user'', h_id = 148, h_ret = S64,
      h_args = [Ptr ''void'', U32, CPtr ''void''], h_variadic = False,
      h_negative = True, h_errnos = [], h_null = False, h_codes = []\<rparr>"

definition bpf_snprintf_btf_decl :: helper where
  "bpf_snprintf_btf_decl =
     \<lparr>h_name = ''bpf_snprintf_btf'', h_id = 149, h_ret = S64,
      h_args = [Ptr ''char'', U32, Ptr ''struct btf_ptr'', U32, U64], h_variadic = False,
      h_negative = True, h_errnos = [], h_null = False, h_codes = []\<rparr>"

definition bpf_seq_printf_btf_decl :: helper where
  "bpf_seq_printf_btf_decl =
     \<lparr>h_name = ''bpf_seq_printf_btf'', h_id = 150, h_ret = S64,
      h_args = [Ptr ''struct seq_file'', Ptr ''struct btf_ptr'', U32, U64], h_variadic = False,
      h_negative = True, h_errnos = [], h_null = False, h_codes = []\<rparr>"

definition bpf_skb_cgroup_classid_decl :: helper where
  "bpf_skb_cgroup_classid_decl =
     \<lparr>h_name = ''bpf_skb_cgroup_classid'', h_id = 151, h_ret = U64,
      h_args = [Ptr ''struct __sk_buff''], h_variadic = False,
      h_negative = False, h_errnos = [], h_null = False, h_codes = []\<rparr>"

definition bpf_redirect_neigh_decl :: helper where
  "bpf_redirect_neigh_decl =
     \<lparr>h_name = ''bpf_redirect_neigh'', h_id = 152, h_ret = S64,
      h_args = [U32, Ptr ''struct bpf_redir_neigh'', S32, U64], h_variadic = False,
      h_negative = False, h_errnos = [], h_null = False, h_codes = [''TC_ACT_REDIRECT'', ''TC_ACT_SHOT'']\<rparr>"

definition bpf_per_cpu_ptr_decl :: helper where
  "bpf_per_cpu_ptr_decl =
     \<lparr>h_name = ''bpf_per_cpu_ptr'', h_id = 153, h_ret = Ptr ''void'',
      h_args = [CPtr ''void'', U32], h_variadic = False,
      h_negative = False, h_errnos = [], h_null = True, h_codes = []\<rparr>"

definition bpf_this_cpu_ptr_decl :: helper where
  "bpf_this_cpu_ptr_decl =
     \<lparr>h_name = ''bpf_this_cpu_ptr'', h_id = 154, h_ret = Ptr ''void'',
      h_args = [CPtr ''void''], h_variadic = False,
      h_negative = False, h_errnos = [], h_null = False, h_codes = []\<rparr>"

definition bpf_redirect_peer_decl :: helper where
  "bpf_redirect_peer_decl =
     \<lparr>h_name = ''bpf_redirect_peer'', h_id = 155, h_ret = S64,
      h_args = [U32, U64], h_variadic = False,
      h_negative = False, h_errnos = [], h_null = False, h_codes = [''TC_ACT_REDIRECT'', ''TC_ACT_SHOT'']\<rparr>"

definition bpf_task_storage_get_decl :: helper where
  "bpf_task_storage_get_decl =
     \<lparr>h_name = ''bpf_task_storage_get'', h_id = 156, h_ret = Ptr ''void'',
      h_args = [Ptr ''void'', Ptr ''struct task_struct'', Ptr ''void'', U64], h_variadic = False,
      h_negative = False, h_errnos = [], h_null = True, h_codes = []\<rparr>"

definition bpf_task_storage_delete_decl :: helper where
  "bpf_task_storage_delete_decl =
     \<lparr>h_name = ''bpf_task_storage_delete'', h_id = 157, h_ret = S64,
      h_args = [Ptr ''void'', Ptr ''struct task_struct''], h_variadic = False,
      h_negative = False, h_errnos = [''ENOENT''], h_null = False, h_codes = []\<rparr>"

definition bpf_get_current_task_btf_decl :: helper where
  "bpf_get_current_task_btf_decl =
     \<lparr>h_name = ''bpf_get_current_task_btf'', h_id = 158, h_ret = Ptr ''struct task_struct'',
      h_args = [], h_variadic = False,
      h_negative = False, h_errnos = [], h_null = False, h_codes = []\<rparr>"

definition bpf_bprm_opts_set_decl :: helper where
  "bpf_bprm_opts_set_decl =
     \<lparr>h_name = ''bpf_bprm_opts_set'', h_id = 159, h_ret = S64,
      h_args = [Ptr ''struct linux_binprm'', U64], h_variadic = False,
      h_negative = False, h_errnos = [''EINVAL''], h_null = False, h_codes = []\<rparr>"

definition bpf_ktime_get_coarse_ns_decl :: helper where
  "bpf_ktime_get_coarse_ns_decl =
     \<lparr>h_name = ''bpf_ktime_get_coarse_ns'', h_id = 160, h_ret = U64,
      h_args = [], h_variadic = False,
      h_negative = False, h_errnos = [], h_null = False, h_codes = []\<rparr>"

definition bpf_ima_inode_hash_decl :: helper where
  "bpf_ima_inode_hash_decl =
     \<lparr>h_name = ''bpf_ima_inode_hash'', h_id = 161, h_ret = S64,
      h_args = [Ptr ''struct inode'', Ptr ''void'', U32], h_variadic = False,
      h_negative = False, h_errnos = [''EOPNOTSUP'', ''EINVAL''], h_null = False, h_codes = []\<rparr>"

definition bpf_sock_from_file_decl :: helper where
  "bpf_sock_from_file_decl =
     \<lparr>h_name = ''bpf_sock_from_file'', h_id = 162, h_ret = Ptr ''struct socket'',
      h_args = [Ptr ''struct file''], h_variadic = False,
      h_negative = False, h_errnos = [], h_null = True, h_codes = []\<rparr>"

definition bpf_check_mtu_decl :: helper where
  "bpf_check_mtu_decl =
     \<lparr>h_name = ''bpf_check_mtu'', h_id = 163, h_ret = S64,
      h_args = [Ptr ''void'', U32, Ptr ''__u32'', S32, U64], h_variadic = False,
      h_negative = True, h_errnos = [], h_null = False, h_codes = []\<rparr>"

definition bpf_for_each_map_elem_decl :: helper where
  "bpf_for_each_map_elem_decl =
     \<lparr>h_name = ''bpf_for_each_map_elem'', h_id = 164, h_ret = S64,
      h_args = [Ptr ''void'', Ptr ''void'', Ptr ''void'', U64], h_variadic = False,
      h_negative = False, h_errnos = [''EINVAL''], h_null = False, h_codes = []\<rparr>"

definition bpf_snprintf_decl :: helper where
  "bpf_snprintf_decl =
     \<lparr>h_name = ''bpf_snprintf'', h_id = 165, h_ret = S64,
      h_args = [Ptr ''char'', U32, CPtr ''char'', Ptr ''__u64'', U32], h_variadic = False,
      h_negative = False, h_errnos = [''EBUSY''], h_null = False, h_codes = []\<rparr>"

definition bpf_sys_bpf_decl :: helper where
  "bpf_sys_bpf_decl =
     \<lparr>h_name = ''bpf_sys_bpf'', h_id = 166, h_ret = S64,
      h_args = [U32, Ptr ''void'', U32], h_variadic = False,
      h_negative = False, h_errnos = [], h_null = False, h_codes = []\<rparr>"

definition bpf_btf_find_by_name_kind_decl :: helper where
  "bpf_btf_find_by_name_kind_decl =
     \<lparr>h_name = ''bpf_btf_find_by_name_kind'', h_id = 167, h_ret = S64,
      h_args = [Ptr ''char'', S32, U32, S32], h_variadic = False,
      h_negative = False, h_errnos = [], h_null = False, h_codes = []\<rparr>"

definition bpf_sys_close_decl :: helper where
  "bpf_sys_close_decl =
     \<lparr>h_name = ''bpf_sys_close'', h_id = 168, h_ret = S64,
      h_args = [U32], h_variadic = False,
      h_negative = False, h_errnos = [], h_null = False, h_codes = []\<rparr>"

definition bpf_timer_init_decl :: helper where
  "bpf_timer_init_decl =
     \<lparr>h_name = ''bpf_timer_init'', h_id = 169, h_ret = S64,
      h_args = [Ptr ''struct bpf_timer'', Ptr ''void'', U64], h_variadic = False,
      h_negative = False, h_errnos = [''EBUSY'', ''EINVAL'', ''EPERM''], h_null = False, h_codes = []\<rparr>"

definition bpf_timer_set_callback_decl :: helper where
  "bpf_timer_set_callback_decl =
     \<lparr>h_name = ''bpf_timer_set_callback'', h_id = 170, h_ret = S64,
      h_args = [Ptr ''struct bpf_timer'', Ptr ''void''], h_variadic = False,
      h_negative = False, h_errnos = [''EINVAL'', ''EPERM''], h_null = False, h_codes = []\<rparr>"

definition bpf_timer_start_decl :: helper where
  "bpf_timer_start_decl =
     \<lparr>h_name = ''bpf_timer_start'', h_id = 171, h_ret = S64,
      h_args = [Ptr ''struct bpf_timer'', U64, U64], h_variadic = False,
      h_negative = False, h_errnos = [''EINVAL''], h_null = False, h_codes = []\<rparr>"

definition bpf_timer_cancel_decl :: helper where
  "bpf_timer_cancel_decl =
     \<lparr>h_name = ''bpf_timer_cancel'', h_id = 172, h_ret = S64,
      h_args = [Ptr ''struct bpf_timer''], h_variadic = False,
      h_negative = False, h_errnos = [''EINVAL'', ''EDEADLK''], h_null = False, h_codes = []\<rparr>"

definition bpf_get_func_ip_decl :: helper where
  "bpf_get_func_ip_decl =
     \<lparr>h_name = ''bpf_get_func_ip'', h_id = 173, h_ret = U64,
      h_args = [Ptr ''void''], h_variadic = False,
      h_negative = False, h_errnos = [], h_null = False, h_codes = []\<rparr>"

definition bpf_get_attach_cookie_decl :: helper where
  "bpf_get_attach_cookie_decl =
     \<lparr>h_name = ''bpf_get_attach_cookie'', h_id = 174, h_ret = U64,
      h_args = [Ptr ''void''], h_variadic = False,
      h_negative = False, h_errnos = [], h_null = False, h_codes = []\<rparr>"

definition bpf_task_pt_regs_decl :: helper where
  "bpf_task_pt_regs_decl =
     \<lparr>h_name = ''bpf_task_pt_regs'', h_id = 175, h_ret = S64,
      h_args = [Ptr ''struct task_struct''], h_variadic = False,
      h_negative = False, h_errnos = [], h_null = False, h_codes = []\<rparr>"

definition bpf_get_branch_snapshot_decl :: helper where
  "bpf_get_branch_snapshot_decl =
     \<lparr>h_name = ''bpf_get_branch_snapshot'', h_id = 176, h_ret = S64,
      h_args = [Ptr ''void'', U32, U64], h_variadic = False,
      h_negative = True, h_errnos = [''EINVAL'', ''ENOENT''], h_null = False, h_codes = []\<rparr>"

definition bpf_trace_vprintk_decl :: helper where
  "bpf_trace_vprintk_decl =
     \<lparr>h_name = ''bpf_trace_vprintk'', h_id = 177, h_ret = S64,
      h_args = [CPtr ''char'', U32, CPtr ''void'', U32], h_variadic = False,
      h_negative = True, h_errnos = [], h_null = False, h_codes = []\<rparr>"

definition bpf_skc_to_unix_sock_decl :: helper where
  "bpf_skc_to_unix_sock_decl =
     \<lparr>h_name = ''bpf_skc_to_unix_sock'', h_id = 178, h_ret = Ptr ''struct unix_sock'',
      h_args = [Ptr ''void''], h_variadic = False,
      h_negative = False, h_errnos = [], h_null = True, h_codes = []\<rparr>"

definition bpf_kallsyms_lookup_name_decl :: helper where
  "bpf_kallsyms_lookup_name_decl =
     \<lparr>h_name = ''bpf_kallsyms_lookup_name'', h_id = 179, h_ret = S64,
      h_args = [CPtr ''char'', S32, S32, Ptr ''__u64''], h_variadic = False,
      h_negative = True, h_errnos = [''EINVAL'', ''ENOENT'', ''EPERM''], h_null = False, h_codes = []\<rparr>"

definition bpf_find_vma_decl :: helper where
  "bpf_find_vma_decl =
     \<lparr>h_name = ''bpf_find_vma'', h_id = 180, h_ret = S64,
      h_args = [Ptr ''struct task_struct'', U64, Ptr ''void'', Ptr ''void'', U64], h_variadic = False,
      h_negative = False, h_errnos = [''ENOENT'', ''EBUSY'', ''EINVAL''], h_null = False, h_codes = []\<rparr>"

text \<open>All of them, in the order of the file.\<close>

definition bpf_helpers :: "helper list" where
  "bpf_helpers =
     [bpf_map_lookup_elem_decl, bpf_map_update_elem_decl, bpf_map_delete_elem_decl,
      bpf_probe_read_decl, bpf_ktime_get_ns_decl, bpf_trace_printk_decl, bpf_get_prandom_u32_decl,
      bpf_get_smp_processor_id_decl, bpf_skb_store_bytes_decl, bpf_l3_csum_replace_decl,
      bpf_l4_csum_replace_decl, bpf_tail_call_decl, bpf_clone_redirect_decl,
      bpf_get_current_pid_tgid_decl, bpf_get_current_uid_gid_decl, bpf_get_current_comm_decl,
      bpf_get_cgroup_classid_decl, bpf_skb_vlan_push_decl, bpf_skb_vlan_pop_decl,
      bpf_skb_get_tunnel_key_decl, bpf_skb_set_tunnel_key_decl, bpf_perf_event_read_decl,
      bpf_redirect_decl, bpf_get_route_realm_decl, bpf_perf_event_output_decl,
      bpf_skb_load_bytes_decl, bpf_get_stackid_decl, bpf_csum_diff_decl,
      bpf_skb_get_tunnel_opt_decl, bpf_skb_set_tunnel_opt_decl, bpf_skb_change_proto_decl,
      bpf_skb_change_type_decl, bpf_skb_under_cgroup_decl, bpf_get_hash_recalc_decl,
      bpf_get_current_task_decl, bpf_probe_write_user_decl, bpf_current_task_under_cgroup_decl,
      bpf_skb_change_tail_decl, bpf_skb_pull_data_decl, bpf_csum_update_decl,
      bpf_set_hash_invalid_decl, bpf_get_numa_node_id_decl, bpf_skb_change_head_decl,
      bpf_xdp_adjust_head_decl, bpf_probe_read_str_decl, bpf_get_socket_cookie_decl,
      bpf_get_socket_uid_decl, bpf_set_hash_decl, bpf_setsockopt_decl, bpf_skb_adjust_room_decl,
      bpf_redirect_map_decl, bpf_sk_redirect_map_decl, bpf_sock_map_update_decl,
      bpf_xdp_adjust_meta_decl, bpf_perf_event_read_value_decl, bpf_perf_prog_read_value_decl,
      bpf_getsockopt_decl, bpf_override_return_decl, bpf_sock_ops_cb_flags_set_decl,
      bpf_msg_redirect_map_decl, bpf_msg_apply_bytes_decl, bpf_msg_cork_bytes_decl,
      bpf_msg_pull_data_decl, bpf_bind_decl, bpf_xdp_adjust_tail_decl, bpf_skb_get_xfrm_state_decl,
      bpf_get_stack_decl, bpf_skb_load_bytes_relative_decl, bpf_fib_lookup_decl,
      bpf_sock_hash_update_decl, bpf_msg_redirect_hash_decl, bpf_sk_redirect_hash_decl,
      bpf_lwt_push_encap_decl, bpf_lwt_seg6_store_bytes_decl, bpf_lwt_seg6_adjust_srh_decl,
      bpf_lwt_seg6_action_decl, bpf_rc_repeat_decl, bpf_rc_keydown_decl, bpf_skb_cgroup_id_decl,
      bpf_get_current_cgroup_id_decl, bpf_get_local_storage_decl, bpf_sk_select_reuseport_decl,
      bpf_skb_ancestor_cgroup_id_decl, bpf_sk_lookup_tcp_decl, bpf_sk_lookup_udp_decl,
      bpf_sk_release_decl, bpf_map_push_elem_decl, bpf_map_pop_elem_decl, bpf_map_peek_elem_decl,
      bpf_msg_push_data_decl, bpf_msg_pop_data_decl, bpf_rc_pointer_rel_decl, bpf_spin_lock_decl,
      bpf_spin_unlock_decl, bpf_sk_fullsock_decl, bpf_tcp_sock_decl, bpf_skb_ecn_set_ce_decl,
      bpf_get_listener_sock_decl, bpf_skc_lookup_tcp_decl, bpf_tcp_check_syncookie_decl,
      bpf_sysctl_get_name_decl, bpf_sysctl_get_current_value_decl, bpf_sysctl_get_new_value_decl,
      bpf_sysctl_set_new_value_decl, bpf_strtol_decl, bpf_strtoul_decl, bpf_sk_storage_get_decl,
      bpf_sk_storage_delete_decl, bpf_send_signal_decl, bpf_tcp_gen_syncookie_decl,
      bpf_skb_output_decl, bpf_probe_read_user_decl, bpf_probe_read_kernel_decl,
      bpf_probe_read_user_str_decl, bpf_probe_read_kernel_str_decl, bpf_tcp_send_ack_decl,
      bpf_send_signal_thread_decl, bpf_jiffies64_decl, bpf_read_branch_records_decl,
      bpf_get_ns_current_pid_tgid_decl, bpf_xdp_output_decl, bpf_get_netns_cookie_decl,
      bpf_get_current_ancestor_cgroup_id_decl, bpf_sk_assign_decl, bpf_ktime_get_boot_ns_decl,
      bpf_seq_printf_decl, bpf_seq_write_decl, bpf_sk_cgroup_id_decl,
      bpf_sk_ancestor_cgroup_id_decl, bpf_ringbuf_output_decl, bpf_ringbuf_reserve_decl,
      bpf_ringbuf_submit_decl, bpf_ringbuf_discard_decl, bpf_ringbuf_query_decl,
      bpf_csum_level_decl, bpf_skc_to_tcp6_sock_decl, bpf_skc_to_tcp_sock_decl,
      bpf_skc_to_tcp_timewait_sock_decl, bpf_skc_to_tcp_request_sock_decl,
      bpf_skc_to_udp6_sock_decl, bpf_get_task_stack_decl, bpf_load_hdr_opt_decl,
      bpf_store_hdr_opt_decl, bpf_reserve_hdr_opt_decl, bpf_inode_storage_get_decl,
      bpf_inode_storage_delete_decl, bpf_d_path_decl, bpf_copy_from_user_decl,
      bpf_snprintf_btf_decl, bpf_seq_printf_btf_decl, bpf_skb_cgroup_classid_decl,
      bpf_redirect_neigh_decl, bpf_per_cpu_ptr_decl, bpf_this_cpu_ptr_decl, bpf_redirect_peer_decl,
      bpf_task_storage_get_decl, bpf_task_storage_delete_decl, bpf_get_current_task_btf_decl,
      bpf_bprm_opts_set_decl, bpf_ktime_get_coarse_ns_decl, bpf_ima_inode_hash_decl,
      bpf_sock_from_file_decl, bpf_check_mtu_decl, bpf_for_each_map_elem_decl, bpf_snprintf_decl,
      bpf_sys_bpf_decl, bpf_btf_find_by_name_kind_decl, bpf_sys_close_decl, bpf_timer_init_decl,
      bpf_timer_set_callback_decl, bpf_timer_start_decl, bpf_timer_cancel_decl,
      bpf_get_func_ip_decl, bpf_get_attach_cookie_decl, bpf_task_pt_regs_decl,
      bpf_get_branch_snapshot_decl, bpf_trace_vprintk_decl, bpf_skc_to_unix_sock_decl,
      bpf_kallsyms_lookup_name_decl, bpf_find_vma_decl]"

subsection \<open>Calling conventions\<close>

definition helper_numbered :: "nat \<Rightarrow> helper" where
  "helper_numbered n = bpf_helpers ! (n - 1)"

lemma helper_ids: "map h_id bpf_helpers = [1..<181]"
  by code_simp

lemma helper_arity: "\<forall>h\<in>set bpf_helpers. length (h_args h) \<le> 5"
  by code_simp

lemma helper_count: "length bpf_helpers = 180"
  using arg_cong [OF helper_ids, of length] by (simp only: length_map length_upt)

lemma helper_nth: "\<forall>n\<in>{1..180}. h_id (helper_numbered n) = n"
proof
  fix n :: nat assume n: "n \<in> {1..180}"
  then have lt: "n - 1 < length bpf_helpers" by (simp only: helper_count) auto
  have "h_id (bpf_helpers ! (n - 1)) = [1..<181] ! (n - 1)"
    unfolding helper_ids [symmetric] using lt by (simp only: nth_map)
  also have "\<dots> = 1 + (n - 1)" using n by (intro nth_upt) auto
  finally show "h_id (helper_numbered n) = n" using n by (simp add: helper_numbered_def)
qed

text \<open>
  The 180 helpers are numbered from 1 without gap or repetition, so that a number in the
  table finds exactly the declaration that carries it, and each takes at most the five
  arguments that fit the argument registers.
\<close>

theorem helper_numbers_and_arity:
  "map h_id bpf_helpers = [1..<181] \<and>
   (\<forall>n\<in>{1..180}. h_id (helper_numbered n) = n) \<and>
   (\<forall>h\<in>set bpf_helpers. length (h_args h) \<le> 5)"
  using helper_ids helper_nth helper_arity by blast

theorem helper_numbers_and_arity_witness:
  "h_id (helper_numbered 131) = 131 \<and> length (h_args (helper_numbered 131)) \<le> 5"
proof -
  have "131 \<in> {1..180::nat}" by simp
  with helper_numbers_and_arity have "h_id (helper_numbered 131) = 131" by blast
  moreover have "helper_numbered 131 \<in> set bpf_helpers"
    unfolding helper_numbered_def by (rule nth_mem) (simp add: helper_count)
  with helper_numbers_and_arity have "length (h_args (helper_numbered 131)) \<le> 5" by blast
  ultimately show ?thesis by blast
qed

text \<open>
  The helpers the TC program calls, by the number the compiler puts into the call.
\<close>

lemma helpers_of_the_program:
  "map (\<lambda>n. (h_name (helper_numbered n), h_ret (helper_numbered n), h_args (helper_numbered n))) [1, 2, 5, 131, 132] =
     [(''bpf_map_lookup_elem'', Ptr ''void'', [Ptr ''void'', CPtr ''void'']),
      (''bpf_map_update_elem'', S64, [Ptr ''void'', CPtr ''void'', CPtr ''void'', U64]),
      (''bpf_ktime_get_ns'', U64, []),
      (''bpf_ringbuf_reserve'', Ptr ''void'', [Ptr ''void'', U64, U64]),
      (''bpf_ringbuf_submit'', Void, [Ptr ''void'', U64])]"
  by code_simp

end
