(* ===== verification/Helpers.thy ===== *)
theory Helpers
  imports Helper_Defs
begin

text \<open>
  \<^verbatim>\<open>bpf/headers/bpf/bpf_helpers.h\<close>: the macros that count their arguments, fill the parameter
  array of the formatted-output helpers and pick between them, the version and structure macros,
  the static tail call and the small enumerations.

  A variadic macro is a function on the list of its arguments. \<open>Arg\<close> is an argument of the user,
  \<open>Tok\<close> a token the macro adds; \<open>None\<close> means that the expansion needs more tokens than it has.
  What a call of a helper becomes is a \<open>helper_call\<close>: the number of the helper and its arguments;
  \<open>call_fits\<close> compares it with the declaration of the helper in \<open>Helper_Defs\<close>.
\<close>

subsection \<open>Counting and picking arguments\<close>

datatype ('a, 'b) token = Arg 'a | Tok 'b

definition bpf_nth :: "'a list \<Rightarrow> 'a option" where
  "bpf_nth xs = (if 14 \<le> length xs then Some (xs ! 13) else None)"

definition bpf_narg :: "'a list \<Rightarrow> ('a option, nat) token option" where
  "bpf_narg args = bpf_nth (Arg None # map (\<lambda>x. Arg (Some x)) args @ map Tok (rev [0..<13]))"

datatype printk_variant = Use_printk | Use_vprintk

definition bpf_pick_printk :: "'a list \<Rightarrow> ('a option, printk_variant) token option" where
  "bpf_pick_printk args =
     bpf_nth (Arg None # map (\<lambda>x. Arg (Some x)) args
       @ [Tok Use_vprintk, Tok Use_vprintk, Tok Use_vprintk, Tok Use_vprintk, Tok Use_vprintk,
          Tok Use_vprintk, Tok Use_vprintk, Tok Use_vprintk, Tok Use_vprintk,
          Tok Use_printk, Tok Use_printk, Tok Use_printk, Tok Use_printk])"

subsection \<open>Filling the parameter array\<close>

text \<open>\<open>bpf_fill_n n\<close> is \<^verbatim>\<open>___bpf_fill<n>\<close>.\<close>

fun bpf_fill_n :: "nat \<Rightarrow> 'a list \<Rightarrow> nat \<Rightarrow> 'a list \<Rightarrow> 'a list" where
  "bpf_fill_n 0 arr p xs = arr"
| "bpf_fill_n (Suc n) arr p [] = arr"
| "bpf_fill_n (Suc n) arr p (x # args) = bpf_fill_n n (arr[p := x]) (p + 1) args"

definition bpf_fill :: "'a list \<Rightarrow> 'a list \<Rightarrow> 'a list option" where
  "bpf_fill arr args =
     (case bpf_narg args of
        Some (Tok n) \<Rightarrow> Some (bpf_fill_n n arr 0 args)
      | _ \<Rightarrow> None)"

datatype call_arg = Val u64 | Text string | Params "u64 list"

record helper_call =
  call_number :: nat
  call_args :: "call_arg list"

text \<open>The size of a format string counts its terminating zero byte.\<close>

definition sizeof_fmt :: "string \<Rightarrow> u64" where
  "sizeof_fmt fmt = of_nat (length fmt + 1)"

definition fill_params :: "u64 list \<Rightarrow> u64 list option" where
  "fill_params args =
     (case bpf_narg args of
        Some (Tok n) \<Rightarrow> bpf_fill (replicate n 0) args
      | _ \<Rightarrow> None)"

definition BPF_SEQ_PRINTF :: "u64 \<Rightarrow> string \<Rightarrow> u64 list \<Rightarrow> helper_call option" where
  "BPF_SEQ_PRINTF seq fmt args =
     map_option (\<lambda>ps. \<lparr>call_number = 126,
         call_args = [Val seq, Text fmt, Val (sizeof_fmt fmt), Params ps, Val (of_nat (8 * length ps))]\<rparr>)
       (fill_params args)"

definition BPF_SNPRINTF :: "u64 \<Rightarrow> u64 \<Rightarrow> string \<Rightarrow> u64 list \<Rightarrow> helper_call option" where
  "BPF_SNPRINTF out out_size fmt args =
     map_option (\<lambda>ps. \<lparr>call_number = 165,
         call_args = [Val out, Val out_size, Text fmt, Params ps, Val (of_nat (8 * length ps))]\<rparr>)
       (fill_params args)"

definition bpf_printk_direct :: "string \<Rightarrow> u64 list \<Rightarrow> helper_call" where
  "bpf_printk_direct fmt args =
     \<lparr>call_number = 6, call_args = [Text fmt, Val (sizeof_fmt fmt)] @ map Val args\<rparr>"

definition bpf_vprintk :: "string \<Rightarrow> u64 list \<Rightarrow> helper_call option" where
  "bpf_vprintk fmt args =
     map_option (\<lambda>ps. \<lparr>call_number = 177,
         call_args = [Text fmt, Val (sizeof_fmt fmt), Params ps, Val (of_nat (8 * length ps))]\<rparr>)
       (fill_params args)"

definition bpf_printk :: "string \<Rightarrow> u64 list \<Rightarrow> helper_call option" where
  "bpf_printk fmt args =
     (case bpf_pick_printk args of
        Some (Tok Use_printk) \<Rightarrow> Some (bpf_printk_direct fmt args)
      | Some (Tok Use_vprintk) \<Rightarrow> bpf_vprintk fmt args
      | _ \<Rightarrow> None)"

subsection \<open>Versions, structures, tail calls\<close>

definition KERNEL_VERSION :: "nat \<Rightarrow> nat \<Rightarrow> nat \<Rightarrow> nat" where
  "KERNEL_VERSION a b c = push_bit 16 a + push_bit 8 b + (if c > 255 then 255 else c)"

definition container_of :: "u64 \<Rightarrow> cstruct \<Rightarrow> string \<Rightarrow> u64" where
  "container_of p ty member = p - of_nat (offsetof ty member)"

definition bpf_map_def :: cstruct where
  "bpf_map_def =
    [(''type'', CU32), (''key_size'', CU32), (''value_size'', CU32), (''max_entries'', CU32),
     (''map_flags'', CU32)]"

datatype libbpf_pin_type = LIBBPF_PIN_NONE | LIBBPF_PIN_BY_NAME

fun libbpf_pin_type_code :: "libbpf_pin_type \<Rightarrow> nat" where
  "libbpf_pin_type_code LIBBPF_PIN_NONE = 0"
| "libbpf_pin_type_code LIBBPF_PIN_BY_NAME = 1"

datatype libbpf_tristate = TRI_NO | TRI_YES | TRI_MODULE

fun libbpf_tristate_code :: "libbpf_tristate \<Rightarrow> nat" where
  "libbpf_tristate_code TRI_NO = 0"
| "libbpf_tristate_code TRI_YES = 1"
| "libbpf_tristate_code TRI_MODULE = 2"

text \<open>
  The inline assembly of \<^verbatim>\<open>bpf_tail_call_static\<close>: the three arguments in r1 to r3 and the
  instruction \<^verbatim>\<open>call 12\<close>. A slot that is not a compile-time constant is a build error.
\<close>

definition bpf_tail_call_static :: "u64 \<Rightarrow> u64 \<Rightarrow> bool \<Rightarrow> u32 \<Rightarrow> helper_call option" where
  "bpf_tail_call_static ctx m constant slot =
     (if \<not> constant then None
      else Some \<lparr>call_number = 12, call_args = [Val ctx, Val m, Val (ucast slot)]\<rparr>)"

subsection \<open>Lemmas\<close>

lemma rev_upt_13: "rev [0..<13] = [12, 11, 10, 9, 8, 7, 6, 5, 4, 3, 2, 1, 0 :: nat]"
  by (simp add: upt_rec)

lemma bpf_nth_mid:
  assumes "length args \<le> 12" and "length ts = 13"
  shows "bpf_nth (a # args @ ts) = Some (ts ! (12 - length args))"
  using assms by (simp add: bpf_nth_def nth_append numeral_eq_Suc)

lemma bpf_narg_le: "length args \<le> 12 \<Longrightarrow> bpf_narg args = Some (Tok (length args))"
  by (simp add: bpf_narg_def bpf_nth_mid rev_nth del: upt_Suc)

lemma bpf_narg_gt: "12 < length args \<Longrightarrow> bpf_narg args = Some (Arg (Some (args ! 12)))"
  by (simp add: bpf_narg_def bpf_nth_def nth_append nth_Cons' del: upt_Suc)

lemma bpf_fill_n_eq:
  "p + length xs \<le> length arr \<Longrightarrow>
     bpf_fill_n (length xs) arr p xs = take p arr @ xs @ drop (p + length xs) arr"
proof (induction xs arbitrary: arr p)
  case (Cons x xs)
  then have "bpf_fill_n (length xs) (arr[p := x]) (p + 1) xs =
      take (p + 1) (arr[p := x]) @ xs @ drop (p + 1 + length xs) (arr[p := x])"
    by (intro Cons.IH) simp
  with Cons.prems show ?case by (simp add: take_Suc_conv_app_nth)
qed simp

lemma fill_params_eq: "length args \<le> 12 \<Longrightarrow> fill_params args = Some args"
  using bpf_fill_n_eq [of 0 args "replicate (length args) 0"]
  by (simp add: fill_params_def bpf_fill_def bpf_narg_le)

lemma fill_params_None: "12 < length args \<Longrightarrow> fill_params args = None"
  by (simp add: fill_params_def bpf_narg_gt)

text \<open>
  \<^verbatim>\<open>___bpf_narg\<close> counts up to twelve arguments; a thirteenth argument takes the place of the
  number.
\<close>

lemma narg_counts:
  "bpf_narg args =
     (if length args \<le> 12 then Some (Tok (length args)) else Some (Arg (Some (args ! 12))))"
  by (simp add: bpf_narg_le bpf_narg_gt)

text \<open>
  \<^verbatim>\<open>bpf_printk\<close> passes up to three values to \<^verbatim>\<open>bpf_trace_printk\<close> directly; from four to
  twelve it fills an array with exactly these values, in order, and passes it with its size in
  bytes to \<^verbatim>\<open>bpf_trace_vprintk\<close>; with more it does not expand.
\<close>

lemma bpf_printk_call:
  "bpf_printk fmt args =
     (if length args \<le> 3
      then Some \<lparr>call_number = 6, call_args = Text fmt # Val (of_nat (length fmt + 1)) # map Val args\<rparr>
      else if length args \<le> 12
      then Some \<lparr>call_number = 177,
             call_args = [Text fmt, Val (of_nat (length fmt + 1)), Params args, Val (of_nat (8 * length args))]\<rparr>
      else None)"
proof -
  have pick: "bpf_pick_printk args =
      (if length args \<le> 3 then Some (Tok Use_printk)
       else if length args \<le> 12 then Some (Tok Use_vprintk) else Some (Arg (Some (args ! 12))))"
  proof (cases "length args \<le> 12")
    case True
    have "bpf_pick_printk args =
        Some ((replicate 9 (Tok Use_vprintk) @ replicate 4 (Tok Use_printk)) ! (12 - length args))"
      using True by (simp add: bpf_pick_printk_def bpf_nth_mid numeral_eq_Suc)
    with True show ?thesis by (auto simp: nth_append)
  next
    case False
    then show ?thesis by (simp add: bpf_pick_printk_def bpf_nth_def nth_append nth_Cons')
  qed
  show ?thesis
    by (auto simp: bpf_printk_def pick bpf_printk_direct_def bpf_vprintk_def sizeof_fmt_def fill_params_eq)
qed

subsection \<open>The calls and the prototypes\<close>

text \<open>
  Whether an argument can be passed for a parameter of a type: a text for a \<^verbatim>\<open>const char *\<close>, an array of values
  for a \<^verbatim>\<open>const void *\<close> or \<^verbatim>\<open>__u64 *\<close>, and a register value for any number or pointer.
\<close>

fun arg_fits :: "call_arg \<Rightarrow> htype \<Rightarrow> bool" where
  "arg_fits (Val v) t \<longleftrightarrow> t \<noteq> Void"
| "arg_fits (Text s) t \<longleftrightarrow> t = CPtr ''char''"
| "arg_fits (Params ps) t \<longleftrightarrow> t = CPtr ''void'' \<or> t = Ptr ''__u64''"

text \<open>
  A call fits a helper if its number is the number of the declaration with that name, there is an argument
  for every declared parameter and only a variadic helper gets more, and all arguments find room in the
  registers r1 to r5.
\<close>

definition call_fits :: "string \<Rightarrow> helper_call \<Rightarrow> bool" where
  "call_fits name c \<longleftrightarrow>
     (\<exists>h\<in>set bpf_helpers. h_name h = name \<and> h_id h = call_number c \<and>
        length (h_args h) \<le> length (call_args c) \<and> list_all2 arg_fits (take (length (h_args h)) (call_args c)) (h_args h) \<and>
        (h_variadic h \<or> length (call_args c) = length (h_args h)) \<and> length (call_args c) \<le> 5)"

lemma printing_helpers:
  "bpf_trace_printk_decl \<in> set bpf_helpers" "bpf_trace_vprintk_decl \<in> set bpf_helpers"
  "bpf_seq_printf_decl \<in> set bpf_helpers" "bpf_snprintf_decl \<in> set bpf_helpers" "bpf_tail_call_decl \<in> set bpf_helpers"
  by (simp_all add: bpf_helpers_def)

lemma call_fitsI:
  assumes "h \<in> set bpf_helpers" and "h_name h = name" and "h_id h = call_number c"
    and "length (h_args h) \<le> length (call_args c)" and "list_all2 arg_fits (take (length (h_args h)) (call_args c)) (h_args h)"
    and "h_variadic h \<or> length (call_args c) = length (h_args h)" and "length (call_args c) \<le> 5"
  shows "call_fits name c"
  using assms unfolding call_fits_def by blast

lemma printing_calls_fit:
  "length args \<le> 3 \<Longrightarrow> call_fits ''bpf_trace_printk'' \<lparr>call_number = 6, call_args = Text fmt # Val n # map Val args\<rparr>"
  "call_fits ''bpf_trace_vprintk'' \<lparr>call_number = 177, call_args = [Text fmt, Val n, Params args, Val m]\<rparr>"
  "call_fits ''bpf_seq_printf'' \<lparr>call_number = 126, call_args = [Val out, Text fmt, Val n, Params args, Val m]\<rparr>"
  "call_fits ''bpf_snprintf'' \<lparr>call_number = 165, call_args = [Val out, Val n, Text fmt, Params args, Val m]\<rparr>"
  "call_fits ''bpf_tail_call'' \<lparr>call_number = 12, call_args = [Val ctx, Val mp, Val slot]\<rparr>"
  by (rule call_fitsI [OF printing_helpers(1)] call_fitsI [OF printing_helpers(2)] call_fitsI [OF printing_helpers(3)]
        call_fitsI [OF printing_helpers(4)] call_fitsI [OF printing_helpers(5)];
      simp add: bpf_trace_printk_decl_def bpf_trace_vprintk_decl_def bpf_seq_printf_decl_def bpf_snprintf_decl_def bpf_tail_call_decl_def)+

text \<open>
  C39. The macros call the helpers they stand for. For any format and arguments, \<^verbatim>\<open>bpf_printk\<close> passes up to
  three values to \<^verbatim>\<open>bpf_trace_printk\<close> directly, and from four to twelve as an array of exactly these values, in order
  and with its size in bytes, to \<^verbatim>\<open>bpf_trace_vprintk\<close>; \<^verbatim>\<open>BPF_SEQ_PRINTF\<close> and \<^verbatim>\<open>BPF_SNPRINTF\<close> pass up to twelve
  values in an array; with more than twelve none of them expands. Each of these calls, and that of
  the static tail call, has the number under which the header declares the helper of that name, fits its prototype and
  needs no more than the five argument registers.
\<close>

theorem macro_calls_fit_prototypes:
  "bpf_printk fmt args =
     (if length args \<le> 3
      then Some \<lparr>call_number = 6, call_args = Text fmt # Val (of_nat (length fmt + 1)) # map Val args\<rparr>
      else if length args \<le> 12
      then Some \<lparr>call_number = 177,
             call_args = [Text fmt, Val (of_nat (length fmt + 1)), Params args, Val (of_nat (8 * length args))]\<rparr>
      else None) \<and>
   pred_option (call_fits (if length args \<le> 3 then ''bpf_trace_printk'' else ''bpf_trace_vprintk'')) (bpf_printk fmt args) \<and>
   BPF_SEQ_PRINTF out fmt args =
     (if length args \<le> 12
      then Some \<lparr>call_number = 126,
             call_args = [Val out, Text fmt, Val (of_nat (length fmt + 1)), Params args, Val (of_nat (8 * length args))]\<rparr>
      else None) \<and>
   pred_option (call_fits ''bpf_seq_printf'') (BPF_SEQ_PRINTF out fmt args) \<and>
   BPF_SNPRINTF out out_size fmt args =
     (if length args \<le> 12
      then Some \<lparr>call_number = 165,
             call_args = [Val out, Val out_size, Text fmt, Params args, Val (of_nat (8 * length args))]\<rparr>
      else None) \<and>
   pred_option (call_fits ''bpf_snprintf'') (BPF_SNPRINTF out out_size fmt args) \<and>
   bpf_tail_call_static ctx m True slot = Some \<lparr>call_number = 12, call_args = [Val ctx, Val m, Val (ucast slot)]\<rparr> \<and>
   pred_option (call_fits ''bpf_tail_call'') (bpf_tail_call_static ctx m True slot)"
  by (simp add: bpf_printk_call printing_calls_fit BPF_SEQ_PRINTF_def BPF_SNPRINTF_def bpf_tail_call_static_def sizeof_fmt_def
      fill_params_eq fill_params_None)

text \<open>
  Kernel versions compare as their components do, in order, as long as the second component
  is below 256; the third counts as 255 when it is larger.
\<close>

lemma kernel_version_order:
  assumes "b < 256" and "b' < 256"
  shows "KERNEL_VERSION a b c \<le> KERNEL_VERSION a' b' c' \<longleftrightarrow>
     a < a' \<or> a = a' \<and> (b < b' \<or> b = b' \<and> min c 255 \<le> min c' 255)"
proof -
  define d d' where "d = min c 255" and "d' = min c' 255"
  have "d < 256" "d' < 256" by (auto simp: d_def d'_def)
  moreover have "KERNEL_VERSION a b c = a * 65536 + b * 256 + d" "KERNEL_VERSION a' b' c' = a' * 65536 + b' * 256 + d'"
    by (auto simp: KERNEL_VERSION_def d_def d'_def push_bit_eq_mult)
  ultimately show ?thesis using assms unfolding d_def [symmetric] d'_def [symmetric] by auto
qed

lemma container_of_member: "container_of (s + of_nat (offsetof ty member)) ty member = s"
  by (simp add: container_of_def)

end
