(* ===== verification/Tracing.thy ===== *)
theory Tracing
  imports Helpers
begin

text \<open>
  \<^verbatim>\<open>bpf/headers/bpf/bpf_tracing.h\<close> and \<^verbatim>\<open>struct pt_regs\<close> of \<^verbatim>\<open>common.h\<close>: which target the macros
  select, the register each \<^verbatim>\<open>PT_REGS_*\<close> macro and its \<^verbatim>\<open>_CORE\<close> twin read on every target, and the
  argument lists that \<^verbatim>\<open>BPF_PROG\<close>, \<^verbatim>\<open>BPF_KPROBE\<close> and \<^verbatim>\<open>BPF_KRETPROBE\<close> build.

  A table lists the registers in the order of the type \<open>pt_acc\<close>; an access that a target does not
  define is absent. A register is the name of the member read, \<open>''0''\<close> the constant.
\<close>

subsection \<open>Selecting the target\<close>

datatype target = X86 | S390 | ARM | ARM64 | MIPS | POWERPC | SPARC | RISCV

text \<open>\<open>def\<close> tells which macros are defined, \<open>xlen\<close> is the value of \<^verbatim>\<open>__riscv_xlen\<close>.\<close>

fun first_defined :: "(string \<Rightarrow> bool) \<Rightarrow> (string \<times> target) list \<Rightarrow> target option" where
  "first_defined def [] = None"
| "first_defined def ((m, t) # ts) = (if def m then Some t else first_defined def ts)"

definition target_arch_macros :: "(string \<times> target) list" where
  "target_arch_macros =
     [(''__TARGET_ARCH_x86'', X86), (''__TARGET_ARCH_s390'', S390), (''__TARGET_ARCH_arm'', ARM),
      (''__TARGET_ARCH_arm64'', ARM64), (''__TARGET_ARCH_mips'', MIPS),
      (''__TARGET_ARCH_powerpc'', POWERPC), (''__TARGET_ARCH_sparc'', SPARC),
      (''__TARGET_ARCH_riscv'', RISCV)]"

definition compiler_macros :: "(string \<times> target) list" where
  "compiler_macros =
     [(''__x86_64__'', X86), (''__s390__'', S390), (''__arm__'', ARM), (''__aarch64__'', ARM64),
      (''__mips__'', MIPS), (''__powerpc__'', POWERPC), (''__sparc__'', SPARC)]"

definition bpf_target :: "(string \<Rightarrow> bool) \<Rightarrow> nat \<Rightarrow> target option" where
  "bpf_target def xlen =
     (case first_defined def target_arch_macros of
        Some t \<Rightarrow> Some t
      | None \<Rightarrow>
          (case first_defined def compiler_macros of
             Some t \<Rightarrow> Some t
           | None \<Rightarrow> if def ''__riscv'' \<and> xlen = 64 then Some RISCV else None))"

subsection \<open>Registers\<close>

datatype pt_acc = PARM1 | PARM2 | PARM3 | PARM4 | PARM5 | RET | FP | RC | SP | IP

type_synonym reg_table = "(pt_acc \<times> string) list"

definition x86_kernel_regs :: reg_table where
  "x86_kernel_regs =
     [(PARM1, ''di''), (PARM2, ''si''), (PARM3, ''dx''), (PARM4, ''cx''), (PARM5, ''r8''),
      (RET, ''sp''), (FP, ''bp''), (RC, ''ax''), (SP, ''sp''), (IP, ''ip'')]"

definition x86_kernel_regs_core :: reg_table where
  "x86_kernel_regs_core =
     [(PARM1, ''di''), (PARM2, ''si''), (PARM3, ''dx''), (PARM4, ''cx''), (PARM5, ''r8''),
      (RET, ''sp''), (FP, ''bp''), (RC, ''ax''), (SP, ''sp''), (IP, ''ip'')]"

definition i386_regs :: reg_table where
  "i386_regs =
     [(PARM1, ''eax''), (PARM2, ''edx''), (PARM3, ''ecx''), (PARM4, ''0''), (PARM5, ''0''),
      (RET, ''esp''), (FP, ''ebp''), (RC, ''eax''), (SP, ''esp''), (IP, ''eip'')]"

definition i386_regs_core :: reg_table where
  "i386_regs_core =
     [(PARM1, ''eax''), (PARM2, ''edx''), (PARM3, ''ecx''), (PARM4, ''0''), (PARM5, ''0''),
      (RET, ''esp''), (FP, ''ebp''), (RC, ''eax''), (SP, ''esp''), (IP, ''eip'')]"

definition x86_64_regs :: reg_table where
  "x86_64_regs =
     [(PARM1, ''rdi''), (PARM2, ''rsi''), (PARM3, ''rdx''), (PARM4, ''rcx''), (PARM5, ''r8''),
      (RET, ''rsp''), (FP, ''rbp''), (RC, ''rax''), (SP, ''rsp''), (IP, ''rip'')]"

definition x86_64_regs_core :: reg_table where
  "x86_64_regs_core =
     [(PARM1, ''rdi''), (PARM2, ''rsi''), (PARM3, ''rdx''), (PARM4, ''rcx''), (PARM5, ''r8''),
      (RET, ''rsp''), (FP, ''rbp''), (RC, ''rax''), (SP, ''rsp''), (IP, ''rip'')]"

definition s390_regs :: reg_table where
  "s390_regs =
     [(PARM1, ''gprs[2]''), (PARM2, ''gprs[3]''), (PARM3, ''gprs[4]''), (PARM4, ''gprs[5]''),
      (PARM5, ''gprs[6]''), (RET, ''gprs[14]''), (FP, ''gprs[11]''), (RC, ''gprs[2]''),
      (SP, ''gprs[15]''), (IP, ''psw.addr'')]"

definition s390_regs_core :: reg_table where
  "s390_regs_core =
     [(PARM1, ''gprs[2]''), (PARM2, ''gprs[3]''), (PARM3, ''gprs[4]''), (PARM4, ''gprs[5]''),
      (PARM5, ''gprs[6]''), (RET, ''gprs[14]''), (FP, ''gprs[11]''), (RC, ''gprs[2]''),
      (SP, ''gprs[15]''), (IP, ''psw.addr'')]"

definition arm_regs :: reg_table where
  "arm_regs =
     [(PARM1, ''uregs[0]''), (PARM2, ''uregs[1]''), (PARM3, ''uregs[2]''), (PARM4, ''uregs[3]''),
      (PARM5, ''uregs[4]''), (RET, ''uregs[14]''), (FP, ''uregs[11]''), (RC, ''uregs[0]''),
      (SP, ''uregs[13]''), (IP, ''uregs[12]'')]"

definition arm_regs_core :: reg_table where
  "arm_regs_core =
     [(PARM1, ''uregs[0]''), (PARM2, ''uregs[1]''), (PARM3, ''uregs[2]''), (PARM4, ''uregs[3]''),
      (PARM5, ''uregs[4]''), (RET, ''uregs[14]''), (FP, ''uregs[11]''), (RC, ''uregs[0]''),
      (SP, ''uregs[13]''), (IP, ''uregs[12]'')]"

definition arm64_regs :: reg_table where
  "arm64_regs =
     [(PARM1, ''regs[0]''), (PARM2, ''regs[1]''), (PARM3, ''regs[2]''), (PARM4, ''regs[3]''),
      (PARM5, ''regs[4]''), (RET, ''regs[30]''), (FP, ''regs[29]''), (RC, ''regs[0]''),
      (SP, ''sp''), (IP, ''pc'')]"

definition arm64_regs_core :: reg_table where
  "arm64_regs_core =
     [(PARM1, ''regs[0]''), (PARM2, ''regs[1]''), (PARM3, ''regs[2]''), (PARM4, ''regs[3]''),
      (PARM5, ''regs[4]''), (RET, ''regs[30]''), (FP, ''regs[29]''), (RC, ''regs[0]''),
      (SP, ''sp''), (IP, ''pc'')]"

definition mips_regs :: reg_table where
  "mips_regs =
     [(PARM1, ''regs[4]''), (PARM2, ''regs[5]''), (PARM3, ''regs[6]''), (PARM4, ''regs[7]''),
      (PARM5, ''regs[8]''), (RET, ''regs[31]''), (FP, ''regs[30]''), (RC, ''regs[2]''),
      (SP, ''regs[29]''), (IP, ''cp0_epc'')]"

definition mips_regs_core :: reg_table where
  "mips_regs_core =
     [(PARM1, ''regs[4]''), (PARM2, ''regs[5]''), (PARM3, ''regs[6]''), (PARM4, ''regs[7]''),
      (PARM5, ''regs[8]''), (RET, ''regs[31]''), (FP, ''regs[30]''), (RC, ''regs[2]''),
      (SP, ''regs[29]''), (IP, ''cp0_epc'')]"

definition powerpc_regs :: reg_table where
  "powerpc_regs =
     [(PARM1, ''gpr[3]''), (PARM2, ''gpr[4]''), (PARM3, ''gpr[5]''), (PARM4, ''gpr[6]''),
      (PARM5, ''gpr[7]''), (RC, ''gpr[3]''), (SP, ''sp''), (IP, ''nip'')]"

definition powerpc_regs_core :: reg_table where
  "powerpc_regs_core =
     [(PARM1, ''gpr[3]''), (PARM2, ''gpr[4]''), (PARM3, ''gpr[5]''), (PARM4, ''gpr[6]''),
      (PARM5, ''gpr[7]''), (RC, ''gpr[3]''), (SP, ''sp''), (IP, ''nip'')]"

text \<open>On sparc the instruction pointer depends on \<^verbatim>\<open>__arch64__\<close>.\<close>

definition sparc_regs :: "bool \<Rightarrow> reg_table" where
  "sparc_regs arch64 =
     [(PARM1, ''u_regs[UREG_I0]''), (PARM2, ''u_regs[UREG_I1]''), (PARM3, ''u_regs[UREG_I2]''),
      (PARM4, ''u_regs[UREG_I3]''), (PARM5, ''u_regs[UREG_I4]''), (RET, ''u_regs[UREG_I7]''),
      (RC, ''u_regs[UREG_I0]''), (SP, ''u_regs[UREG_FP]''), (IP, if arch64 then ''tpc'' else ''pc'')]"

definition sparc_regs_core :: "bool \<Rightarrow> reg_table" where
  "sparc_regs_core arch64 =
     [(PARM1, ''u_regs[UREG_I0]''), (PARM2, ''u_regs[UREG_I1]''), (PARM3, ''u_regs[UREG_I2]''),
      (PARM4, ''u_regs[UREG_I3]''), (PARM5, ''u_regs[UREG_I4]''), (RET, ''u_regs[UREG_I7]''),
      (RC, ''u_regs[UREG_I0]''), (SP, ''u_regs[UREG_FP]''), (IP, if arch64 then ''tpc'' else ''pc'')]"

definition riscv_regs :: reg_table where
  "riscv_regs =
     [(PARM1, ''a0''), (PARM2, ''a1''), (PARM3, ''a2''), (PARM4, ''a3''), (PARM5, ''a4''),
      (RET, ''ra''), (FP, ''s5''), (RC, ''a5''), (SP, ''sp''), (IP, ''epc'')]"

definition riscv_regs_core :: reg_table where
  "riscv_regs_core =
     [(PARM1, ''a0''), (PARM2, ''a1''), (PARM3, ''a2''), (PARM4, ''a3''), (PARM5, ''a4''),
      (RET, ''ra''), (FP, ''fp''), (RC, ''a5''), (SP, ''sp''), (IP, ''epc'')]"

text \<open>The variants of x86 and of sparc: \<^verbatim>\<open>__KERNEL__\<close> or \<^verbatim>\<open>__VMLINUX_H__\<close>, \<^verbatim>\<open>__i386__\<close>, \<^verbatim>\<open>__arch64__\<close>.\<close>

record reg_env =
  re_kernel :: bool
  re_i386 :: bool
  re_arch64 :: bool

definition PT_REGS :: "reg_env \<Rightarrow> target \<Rightarrow> pt_acc \<Rightarrow> string option" where
  "PT_REGS env t =
     map_of (case t of
        X86 \<Rightarrow> if re_kernel env then x86_kernel_regs else if re_i386 env then i386_regs else x86_64_regs
      | S390 \<Rightarrow> s390_regs | ARM \<Rightarrow> arm_regs | ARM64 \<Rightarrow> arm64_regs | MIPS \<Rightarrow> mips_regs
      | POWERPC \<Rightarrow> powerpc_regs | SPARC \<Rightarrow> sparc_regs (re_arch64 env) | RISCV \<Rightarrow> riscv_regs)"

definition PT_REGS_CORE :: "reg_env \<Rightarrow> target \<Rightarrow> pt_acc \<Rightarrow> string option" where
  "PT_REGS_CORE env t =
     map_of (case t of
        X86 \<Rightarrow> if re_kernel env then x86_kernel_regs_core
               else if re_i386 env then i386_regs_core else x86_64_regs_core
      | S390 \<Rightarrow> s390_regs_core | ARM \<Rightarrow> arm_regs_core | ARM64 \<Rightarrow> arm64_regs_core | MIPS \<Rightarrow> mips_regs_core
      | POWERPC \<Rightarrow> powerpc_regs_core | SPARC \<Rightarrow> sparc_regs_core (re_arch64 env)
      | RISCV \<Rightarrow> riscv_regs_core)"

text \<open>
  On a target that is not supported every register macro, with or without \<^verbatim>\<open>_CORE\<close>, and the macros for
  return addresses carry the pragma \<^verbatim>\<open>__BPF_TARGET_MISSING\<close>, an error of the compiler.
\<close>

datatype 'a expansion = Expands 'a | Target_missing

definition on_target :: "target option \<Rightarrow> (target \<Rightarrow> 'a) \<Rightarrow> 'a expansion" where
  "on_target t macro = (case t of Some t \<Rightarrow> Expands (macro t) | None \<Rightarrow> Target_missing)"

text \<open>\<^verbatim>\<open>struct pt_regs\<close> of \<^verbatim>\<open>common.h\<close>, for x86; \<^verbatim>\<open>unsigned long\<close> is 64 bits wide.\<close>

definition pt_regs :: cstruct where
  "pt_regs =
     [(''r15'', CU64), (''r14'', CU64), (''r13'', CU64), (''r12'', CU64), (''rbp'', CU64),
      (''rbx'', CU64), (''r11'', CU64), (''r10'', CU64), (''r9'', CU64), (''r8'', CU64),
      (''rax'', CU64), (''rcx'', CU64), (''rdx'', CU64), (''rsi'', CU64), (''rdi'', CU64),
      (''orig_rax'', CU64), (''rip'', CU64), (''cs'', CU64), (''eflags'', CU64), (''rsp'', CU64),
      (''ss'', CU64)]"

subsection \<open>Return addresses\<close>

text \<open>
  Where \<^verbatim>\<open>BPF_KPROBE_READ_RET_IP\<close> and \<^verbatim>\<open>BPF_KRETPROBE_READ_RET_IP\<close> find the return address: in a
  member of the context, or in memory at the value of a register plus an offset.
\<close>

datatype ret_ip = Member string | Memory pt_acc nat

fun BPF_KPROBE_READ_RET_IP :: "target \<Rightarrow> ret_ip" where
  "BPF_KPROBE_READ_RET_IP POWERPC = Member ''link''"
| "BPF_KPROBE_READ_RET_IP SPARC = Member ''u_regs[UREG_I7]''"
| "BPF_KPROBE_READ_RET_IP t = Memory RET 0"

text \<open>\<^verbatim>\<open>sizeof(ip)\<close> is 8 for the 64-bit address the programs keep there.\<close>

fun BPF_KRETPROBE_READ_RET_IP :: "target \<Rightarrow> ret_ip" where
  "BPF_KRETPROBE_READ_RET_IP POWERPC = BPF_KPROBE_READ_RET_IP POWERPC"
| "BPF_KRETPROBE_READ_RET_IP SPARC = BPF_KPROBE_READ_RET_IP SPARC"
| "BPF_KRETPROBE_READ_RET_IP t = Memory FP 8"

subsection \<open>Argument lists\<close>

datatype ctx_expr = Ctx | Ctx_elem nat | Ctx_reg pt_acc

fun bpf_ctx_cast_n :: "nat \<Rightarrow> ctx_expr list" where
  "bpf_ctx_cast_n 0 = [Ctx]"
| "bpf_ctx_cast_n (Suc n) = bpf_ctx_cast_n n @ [Ctx_elem n]"

definition bpf_ctx_cast :: "'a list \<Rightarrow> ctx_expr list option" where
  "bpf_ctx_cast args =
     (case bpf_narg args of Some (Tok n) \<Rightarrow> Some (bpf_ctx_cast_n n) | _ \<Rightarrow> None)"

text \<open>\<open>None\<close>: there is no macro with that number.\<close>

fun bpf_kprobe_args_n :: "nat \<Rightarrow> ctx_expr list option" where
  "bpf_kprobe_args_n n =
     (if n = 0 then Some [Ctx]
      else if n = 1 then Some [Ctx, Ctx_reg PARM1]
      else if n = 2 then Some [Ctx, Ctx_reg PARM1, Ctx_reg PARM2]
      else if n = 3 then Some [Ctx, Ctx_reg PARM1, Ctx_reg PARM2, Ctx_reg PARM3]
      else if n = 4 then Some [Ctx, Ctx_reg PARM1, Ctx_reg PARM2, Ctx_reg PARM3, Ctx_reg PARM4]
      else if n = 5 then Some [Ctx, Ctx_reg PARM1, Ctx_reg PARM2, Ctx_reg PARM3, Ctx_reg PARM4, Ctx_reg PARM5]
      else None)"

definition bpf_kprobe_args :: "'a list \<Rightarrow> ctx_expr list option" where
  "bpf_kprobe_args args =
     (case bpf_narg args of Some (Tok n) \<Rightarrow> bpf_kprobe_args_n n | _ \<Rightarrow> None)"

definition bpf_kretprobe_args :: "'a list \<Rightarrow> ctx_expr list option" where
  "bpf_kretprobe_args args =
     (case bpf_narg args of
        Some (Tok n) \<Rightarrow> (if n = 0 then Some [Ctx] else if n = 1 then Some [Ctx, Ctx_reg RC] else None)
      | _ \<Rightarrow> None)"

text \<open>
  \<^verbatim>\<open>BPF_PROG(name, args...)\<close>, \<^verbatim>\<open>BPF_KPROBE\<close> and \<^verbatim>\<open>BPF_KRETPROBE\<close> define the program \<^verbatim>\<open>name\<close>, which
  gets the raw context, as the call of the user's function on the argument list; here \<open>body\<close> is
  that function and \<open>value\<close> what an expression of the context stands for.
\<close>

definition BPF_PROG :: "('v list \<Rightarrow> 'r) \<Rightarrow> 'a list \<Rightarrow> (ctx_expr \<Rightarrow> 'v) \<Rightarrow> 'r option" where
  "BPF_PROG body args value = map_option (\<lambda>es. body (map value es)) (bpf_ctx_cast args)"

definition BPF_KPROBE :: "('v list \<Rightarrow> 'r) \<Rightarrow> 'a list \<Rightarrow> (ctx_expr \<Rightarrow> 'v) \<Rightarrow> 'r option" where
  "BPF_KPROBE body args value = map_option (\<lambda>es. body (map value es)) (bpf_kprobe_args args)"

definition BPF_KRETPROBE :: "('v list \<Rightarrow> 'r) \<Rightarrow> 'a list \<Rightarrow> (ctx_expr \<Rightarrow> 'v) \<Rightarrow> 'r option" where
  "BPF_KRETPROBE body args value = map_option (\<lambda>es. body (map value es)) (bpf_kretprobe_args args)"

subsection \<open>Properties\<close>

lemmas reg_tables =
  x86_kernel_regs_def x86_kernel_regs_core_def i386_regs_def i386_regs_core_def x86_64_regs_def
  x86_64_regs_core_def s390_regs_def s390_regs_core_def arm_regs_def arm_regs_core_def
  arm64_regs_def arm64_regs_core_def mips_regs_def mips_regs_core_def powerpc_regs_def
  powerpc_regs_core_def sparc_regs_def sparc_regs_core_def riscv_regs_def riscv_regs_core_def

text \<open>
  C40. On every target and in every variant, the \<^verbatim>\<open>_CORE\<close> form of a register macro reads the same
  member as the plain form, with one exception: the frame pointer of RISC-V, \<^verbatim>\<open>s5\<close> in the plain
  form and \<^verbatim>\<open>fp\<close> in the other.
\<close>

theorem core_accessors_agree_except_riscv_fp:
  "PT_REGS env t acc \<noteq> PT_REGS_CORE env t acc \<longleftrightarrow> t = RISCV \<and> acc = FP"
  by (cases t) (simp_all add: PT_REGS_def PT_REGS_CORE_def reg_tables)

text \<open>
  An explicit \<^verbatim>\<open>__TARGET_ARCH_*\<close> macro wins over what the compiler says, and 32-bit RISC-V is
  no target unless it is asked for.
\<close>

lemma explicit_target_wins:
  "(\<exists>m t. (m, t) \<in> set target_arch_macros \<and> def m) \<Longrightarrow>
     bpf_target def xlen = first_defined def target_arch_macros \<and> bpf_target def xlen \<noteq> None"
proof -
  assume "\<exists>m t. (m, t) \<in> set target_arch_macros \<and> def m"
  moreover have "(m, t) \<in> set ts \<Longrightarrow> def m \<Longrightarrow> \<exists>u. first_defined def ts = Some u" for m t ts
    by (induction def ts rule: first_defined.induct) auto
  ultimately obtain u where "first_defined def target_arch_macros = Some u" by blast
  then show ?thesis by (simp add: bpf_target_def)
qed

lemma on_target_defined:
  "(\<exists>m t. (m, t) \<in> set target_arch_macros \<and> def m) \<Longrightarrow>
     on_target (bpf_target def xlen) (\<lambda>t. PT_REGS env t a) \<noteq> Target_missing"
proof -
  assume "\<exists>m t. (m, t) \<in> set target_arch_macros \<and> def m"
  from explicit_target_wins [OF this, of xlen] obtain u where "bpf_target def xlen = Some u" by blast
  then show ?thesis by (simp add: on_target_def)
qed

lemma bpf_ctx_cast_n_eq: "bpf_ctx_cast_n n = Ctx # map Ctx_elem [0..<n]"
  by (induction n) simp_all

text \<open>
  \<^verbatim>\<open>BPF_PROG\<close> with up to twelve arguments calls the user's function on the raw context followed
  by the elements of the context array in order, one for each declared argument.
\<close>

lemma bpf_prog_arguments:
  "BPF_PROG body args value =
     (if length args \<le> 12
      then Some (body (value Ctx # map (\<lambda>i. value (Ctx_elem i)) [0..<length args])) else None)"
  by (simp add: BPF_PROG_def bpf_ctx_cast_def bpf_narg_le bpf_narg_gt bpf_ctx_cast_n_eq comp_def)

text \<open>
  \<^verbatim>\<open>BPF_KPROBE\<close> takes at most the five arguments whose registers the header knows, in the order
  of the calling convention; \<^verbatim>\<open>BPF_KRETPROBE\<close> at most the return value.
\<close>

lemma bpf_kprobe_arguments:
  "BPF_KPROBE body args value =
     (if length args \<le> 5
      then Some (body (value Ctx # map (\<lambda>a. value (Ctx_reg a)) (take (length args) [PARM1, PARM2, PARM3, PARM4, PARM5])))
      else None) \<and>
   BPF_KRETPROBE body args value =
     (if length args \<le> 1
      then Some (body (value Ctx # map (\<lambda>a. value (Ctx_reg a)) (take (length args) [RC]))) else None)"
proof -
  have "length args = 0 \<or> length args = 1 \<or> length args = 2 \<or> length args = 3 \<or> length args = 4 \<or>
      length args = 5 \<or> 5 < length args" by arith
  moreover have "BPF_KPROBE body args value = None" if "5 < length args"
    using that by (cases "length args \<le> 12") (auto simp: BPF_KPROBE_def bpf_kprobe_args_def bpf_narg_le bpf_narg_gt)
  ultimately have "BPF_KPROBE body args value =
     (if length args \<le> 5
      then Some (body (value Ctx # map (\<lambda>a. value (Ctx_reg a)) (take (length args) [PARM1, PARM2, PARM3, PARM4, PARM5])))
      else None)"
    by (auto simp: BPF_KPROBE_def bpf_kprobe_args_def bpf_narg_le)
  moreover have "length args = 0 \<or> length args = 1 \<or> 1 < length args" by arith
  then have "BPF_KRETPROBE body args value =
     (if length args \<le> 1
      then Some (body (value Ctx # map (\<lambda>a. value (Ctx_reg a)) (take (length args) [RC]))) else None)"
    by (cases "length args \<le> 12") (auto simp: BPF_KRETPROBE_def bpf_kretprobe_args_def bpf_narg_le bpf_narg_gt)
  ultimately show ?thesis by blast
qed

text \<open>
  The program macros: \<^verbatim>\<open>BPF_PROG\<close> with up to twelve arguments calls the user's function on the
  raw context followed by the elements of the context array in order; \<^verbatim>\<open>BPF_KPROBE\<close> takes at most the
  five arguments whose registers the header knows, in the order of the calling convention, and
  \<^verbatim>\<open>BPF_KRETPROBE\<close> at most the return value; with more arguments none of them expands.
\<close>

theorem program_macro_arguments:
  "BPF_PROG body args value =
     (if length args \<le> 12
      then Some (body (value Ctx # map (\<lambda>i. value (Ctx_elem i)) [0..<length args])) else None) \<and>
   BPF_KPROBE body args value =
     (if length args \<le> 5
      then Some (body (value Ctx # map (\<lambda>a. value (Ctx_reg a)) (take (length args) [PARM1, PARM2, PARM3, PARM4, PARM5])))
      else None) \<and>
   BPF_KRETPROBE body args value =
     (if length args \<le> 1
      then Some (body (value Ctx # map (\<lambda>a. value (Ctx_reg a)) (take (length args) [RC]))) else None)"
  using bpf_prog_arguments [of body args] bpf_kprobe_arguments [of body args] by (intro conjI) blast+

text \<open>
  On x86-64 outside the kernel, every register the macros read is a member of \<^verbatim>\<open>struct pt_regs\<close>
  as declared in \<^verbatim>\<open>common.h\<close>, and the structure has the 168 bytes of its 21 members; the first
  parameter is at offset 112.
\<close>

lemma x86_registers_are_members:
  "(snd ` set x86_64_regs) \<subseteq> fst ` set pt_regs \<and> sizeof pt_regs = 168 \<and> offsetof pt_regs ''rdi'' = 112"
proof -
  have "(snd ` set x86_64_regs) \<subseteq> fst ` set pt_regs" by (simp add: x86_64_regs_def pt_regs_def)
  moreover have "sizeof pt_regs = 168" and "offsetof pt_regs ''rdi'' = 112"
    by (simp_all add: sizeof_def offsetof_def pt_regs_def align_up_def struct_align_def Let_def)
  ultimately show ?thesis by blast
qed

end
