(* ===== verification/Ema.thy ===== *)
theory Ema
  imports Reader "HOL-Library.Signed_Division" "HOL-Library.AList"
begin

text \<open>
  \<^verbatim>\<open>internal/metrics/ema.go\<close>, with \<^verbatim>\<open>Config.Alpha\<close> of \<^verbatim>\<open>internal/config/config.go\<close> and \<^verbatim>\<open>math.go\<close>:
  the rolling window of samples behind the instant loss percentage and the exponential moving
  average.

  A \<^verbatim>\<open>float64\<close> is a real number; every operation rounds its exact result by \<open>fl_round\<close>, and \<open>fl_exp\<close>
  is \<^verbatim>\<open>math.Exp\<close>. No operation here divides by zero or leaves the range of \<^verbatim>\<open>float64\<close>, so infinities
  and NaN do not occur. \<open>exact\<close> is the instance without rounding; the range of the percentages is
  stated for it, the properties of the window for every rounding. A \<^verbatim>\<open>time.Time\<close> is a number of nanoseconds,
  \<open>None\<close> the zero time; durations are 64-bit integers, and \<^verbatim>\<open>Sub\<close> saturates.
\<close>

subsection \<open>Floating point and durations\<close>

record float_ops =
  fl_round :: "real \<Rightarrow> real"
  fl_exp :: "real \<Rightarrow> real"

definition exact :: float_ops where
  "exact = \<lparr>fl_round = (\<lambda>x. x), fl_exp = exp\<rparr>"

definition float64_of_uint64 :: "float_ops \<Rightarrow> u64 \<Rightarrow> real" where
  "float64_of_uint64 F x = fl_round F (of_nat (unat x))"

definition Seconds :: "float_ops \<Rightarrow> int \<Rightarrow> real" where
  "Seconds F d =
     (let sec = d sdiv second; nsec = d smod second in
      fl_round F (fl_round F (of_int sec) + fl_round F (fl_round F (of_int nsec) / 1000000000)))"

definition time_sub :: "int \<Rightarrow> int \<Rightarrow> int" where
  "time_sub t u = max (- (2 ^ 63)) (min (2 ^ 63 - 1) (t - u))"

definition mathExpNeg :: "float_ops \<Rightarrow> real \<Rightarrow> real" where
  "mathExpNeg F x = fl_exp F (- x)"

definition expNeg :: "float_ops \<Rightarrow> real \<Rightarrow> real" where
  "expNeg F x = (if x \<le> 0 then 1 else mathExpNeg F x)"

definition Alpha :: "float_ops \<Rightarrow> config \<Rightarrow> int \<Rightarrow> real" where
  "Alpha F c dt =
     (if EMAHalfLife c \<le> 0 then fl_round F (3 / 10)
      else fl_round F (1 - expNeg F (fl_round F (Seconds F dt / Seconds F (EMAHalfLife c)))))"

definition AlphaFromHalfLife :: "float_ops \<Rightarrow> int \<Rightarrow> int \<Rightarrow> real" where
  "AlphaFromHalfLife F dt halfLife =
     (if halfLife \<le> 0 then fl_round F (3 / 10)
      else fl_round F (1 - fl_exp F (fl_round F (- Seconds F dt / Seconds F halfLife))))"

subsection \<open>State\<close>

record sample =
  seg :: u64
  ret :: u64

record zone_state =
  zs_SourceZone :: string
  zs_DstZone :: string
  InstantPercent :: real
  EMAPercent :: real
  LastUpdate :: "int option"
  LastPoll :: "int option"
  window :: "sample list"
  windowCap :: nat
  windowPos :: nat
  windowLen :: nat
  sumSeg :: u64
  sumRet :: u64

text \<open>The map \<^verbatim>\<open>zones\<close> of the store, as a list with distinct names.\<close>

record ema_store =
  es_cfg :: config
  es_zones :: "(string \<times> zone_state) list"

text \<open>\<open>None\<close> is the panic of a division by zero.\<close>

definition instantWindowCap :: "config \<Rightarrow> nat option" where
  "instantWindowCap c =
     (if PollInterval c = 0 then None
      else let n = InstantWindow c sdiv PollInterval c in Some (if n < 1 then 1 else nat n))"

definition new_zone :: "nat \<Rightarrow> resolved_zone \<Rightarrow> zone_state" where
  "new_zone cap z =
     \<lparr>zs_SourceZone = rz_SourceZone z, zs_DstZone = DstZone z, InstantPercent = 0, EMAPercent = 0,
      LastUpdate = None, LastPoll = None, window = replicate cap \<lparr>seg = 0, ret = 0\<rparr>, windowCap = cap,
      windowPos = 0, windowLen = 0, sumSeg = 0, sumRet = 0\<rparr>"

definition NewEMAStore :: "config \<Rightarrow> resolved_zone list \<Rightarrow> ema_store option" where
  "NewEMAStore c zones =
     map_option
       (\<lambda>cap. \<lparr>es_cfg = c, es_zones = foldl (\<lambda>m z. AList.update (DstZone z) (new_zone cap z) m) [] zones\<rparr>)
       (instantWindowCap c)"

subsection \<open>Update\<close>

text \<open>One sample into the window; \<open>None\<close> is the panic of an index or a modulus out of range.\<close>

definition push_sample :: "counter_snapshot \<Rightarrow> zone_state \<Rightarrow> zone_state option" where
  "push_sample delta st =
     (if windowPos st < length (window st) \<and> 0 < windowCap st
      then
        let st = (if windowLen st = windowCap st
                  then let old = window st ! windowPos st
                       in st\<lparr>sumSeg := sumSeg st - seg old, sumRet := sumRet st - ret old\<rparr>
                  else st\<lparr>windowLen := windowLen st + 1\<rparr>);
            st = st\<lparr>window := (window st)[windowPos st := \<lparr>seg = Segments delta, ret = Retrans delta\<rparr>]\<rparr>;
            st = st\<lparr>sumSeg := sumSeg st + Segments delta, sumRet := sumRet st + Retrans delta\<rparr>
        in Some (st\<lparr>windowPos := (windowPos st + 1) mod windowCap st\<rparr>)
      else None)"

definition instant_of :: "float_ops \<Rightarrow> u64 \<Rightarrow> u64 \<Rightarrow> real" where
  "instant_of F sr ss =
     fl_round F (fl_round F (100 * float64_of_uint64 F sr) / float64_of_uint64 F ss)"

definition smooth :: "float_ops \<Rightarrow> config \<Rightarrow> int \<Rightarrow> int \<Rightarrow> zone_state \<Rightarrow> zone_state" where
  "smooth F c now dt st =
     (if sumSeg st > 0
      then
        let instant = instant_of F (sumRet st) (sumSeg st);
            alpha = Alpha F c dt;
            ema = (if LastUpdate st = None then instant
                   else fl_round F (fl_round F (alpha * instant) +
                          fl_round F (fl_round F (1 - alpha) * EMAPercent st)))
        in st\<lparr>InstantPercent := instant, EMAPercent := ema, LastUpdate := Some now\<rparr>
      else st)"

definition update_zone :: "float_ops \<Rightarrow> config \<Rightarrow> int \<Rightarrow> counter_snapshot \<Rightarrow> zone_state \<Rightarrow> zone_state option" where
  "update_zone F c now delta st =
     (let dt = (case LastPoll st of None \<Rightarrow> PollInterval c | Some t \<Rightarrow> time_sub now t) in
      case push_sample delta st of
        None \<Rightarrow> None
      | Some st \<Rightarrow> Some ((smooth F c now dt st)\<lparr>LastPoll := Some now\<rparr>))"

text \<open>A missing key of \<^verbatim>\<open>counters\<close> reads as the zero value.\<close>

definition delta_of :: "(string \<rightharpoonup> counter_snapshot) \<Rightarrow> string \<Rightarrow> counter_snapshot" where
  "delta_of counters dst = (case counters dst of None \<Rightarrow> \<lparr>Segments = 0, Retrans = 0\<rparr> | Some d \<Rightarrow> d)"

fun update_zones ::
    "float_ops \<Rightarrow> config \<Rightarrow> int \<Rightarrow> (string \<rightharpoonup> counter_snapshot) \<Rightarrow> (string \<times> zone_state) list \<Rightarrow>
     (string \<times> zone_state) list option" where
  "update_zones F c now counters [] = Some []"
| "update_zones F c now counters ((dst, st) # zs) =
     (case update_zone F c now (delta_of counters dst) st of
        None \<Rightarrow> None
      | Some st' \<Rightarrow> map_option ((#) (dst, st')) (update_zones F c now counters zs))"

definition Update :: "float_ops \<Rightarrow> int \<Rightarrow> (string \<rightharpoonup> counter_snapshot) \<Rightarrow> ema_store \<Rightarrow> ema_store option" where
  "Update F now counters s =
     map_option (\<lambda>zs. s\<lparr>es_zones := zs\<rparr>) (update_zones F (es_cfg s) now counters (es_zones s))"

definition Snapshot :: "ema_store \<Rightarrow> zone_state list" where
  "Snapshot s = map snd (es_zones s)"

subsection \<open>The window as a list\<close>

text \<open>
  The abstract window: the whole history of samples, of which the last \<open>cap\<close> count.
  \<open>ring_of cap hist st\<close> relates it to the ring.
\<close>

definition last_n :: "nat \<Rightarrow> 'a list \<Rightarrow> 'a list" where
  "last_n n xs = drop (length xs - n) xs"

definition ring_of :: "nat \<Rightarrow> sample list \<Rightarrow> zone_state \<Rightarrow> bool" where
  "ring_of cap hist st \<longleftrightarrow>
     0 < cap \<and> windowCap st = cap \<and> length (window st) = cap \<and>
     windowPos st = length hist mod cap \<and> windowLen st = min cap (length hist) \<and>
     (\<forall>i<length hist. length hist - cap \<le> i \<longrightarrow> window st ! (i mod cap) = hist ! i) \<and>
     sumSeg st = (\<Sum>x\<leftarrow>last_n cap hist. seg x) \<and> sumRet st = (\<Sum>x\<leftarrow>last_n cap hist. ret x)"

definition sample_of :: "counter_snapshot \<Rightarrow> sample" where
  "sample_of d = \<lparr>seg = Segments d, ret = Retrans d\<rparr>"

lemma last_n_snoc:
  "last_n cap (xs @ [x]) =
     (if length xs < cap then last_n cap xs @ [x] else if cap = 0 then [] else tl (last_n cap xs) @ [x])"
  by (auto simp: last_n_def Suc_diff_le drop_Suc tl_drop)

lemma last_n_full: "cap \<le> length xs \<Longrightarrow> 0 < cap \<Longrightarrow> last_n cap xs = xs ! (length xs - cap) # tl (last_n cap xs)"
  by (simp add: last_n_def Cons_nth_drop_Suc [symmetric])

lemma ring_of_new: "0 < cap \<Longrightarrow> ring_of cap [] (new_zone cap z)"
  by (simp add: ring_of_def new_zone_def last_n_def)

lemma mod_window_distinct:
  assumes "i < n" and "n < i + cap"
  shows "i mod cap \<noteq> n mod (cap::nat)"
proof
  assume "i mod cap = n mod cap"
  then have "cap dvd n - i" using assms(1) by (metis less_imp_le_nat mod_eq_dvd_iff_nat)
  moreover have "0 < n - i" and "n - i < cap" using assms by auto
  ultimately show False by (meson nat_dvd_not_less)
qed

lemma push_sample_ring:
  assumes ring: "ring_of cap hist st"
  shows "\<exists>st'. push_sample d st = Some st' \<and> ring_of cap (hist @ [sample_of d]) st' \<and>
    st'\<lparr>window := [], windowPos := 0, windowLen := 0, sumSeg := 0, sumRet := 0\<rparr> =
    st\<lparr>window := [], windowPos := 0, windowLen := 0, sumSeg := 0, sumRet := 0\<rparr>"
proof -
  let ?n = "length hist" and ?x = "sample_of d"
  note r = ring [unfolded ring_of_def]
  have pos: "windowPos st < length (window st)" using r by simp
  let ?full = "cap \<le> ?n"
  let ?old = "window st ! windowPos st"
  define st' where "st' = st\<lparr>window := (window st)[windowPos st := ?x], windowPos := Suc ?n mod cap,
     windowLen := min cap (Suc ?n),
     sumSeg := (if ?full then sumSeg st - seg ?old else sumSeg st) + Segments d,
     sumRet := (if ?full then sumRet st - ret ?old else sumRet st) + Retrans d\<rparr>"
  have push: "push_sample d st = Some st'"
    using r pos by (auto simp: push_sample_def st'_def sample_of_def Let_def mod_Suc_eq)
  have old: "?old = hist ! (?n - cap)" if ?full
  proof -
    have "(?n - cap) mod cap = ?n mod cap" using that by (simp add: le_mod_geq)
    then show ?thesis using r that by (metis diff_less le_refl less_le_trans)
  qed
  have sums: "sumSeg st' = (\<Sum>x\<leftarrow>last_n cap (hist @ [?x]). seg x)" "sumRet st' = (\<Sum>x\<leftarrow>last_n cap (hist @ [?x]). ret x)"
  proof -
    have "(\<Sum>x\<leftarrow>last_n cap hist. f x) = f ?old + (\<Sum>x\<leftarrow>tl (last_n cap hist). f x)" if ?full for f :: "sample \<Rightarrow> u64"
      using last_n_full [OF that] old [OF that] r by (metis list.simps(9) sum_list.Cons)
    then show "sumSeg st' = (\<Sum>x\<leftarrow>last_n cap (hist @ [?x]). seg x)" "sumRet st' = (\<Sum>x\<leftarrow>last_n cap (hist @ [?x]). ret x)"
      using r by (auto simp: st'_def last_n_snoc sample_of_def algebra_simps)
  qed
  have "window st' ! (i mod cap) = (hist @ [?x]) ! i" if "i < Suc ?n" "Suc ?n - cap \<le> i" for i
  proof (cases "i = ?n")
    case True
    then show ?thesis using r pos by (simp add: st'_def)
  next
    case False
    with that have "i < ?n" "?n < i + cap" using r by auto
    with mod_window_distinct [OF this] that r show ?thesis by (simp add: st'_def nth_append)
  qed
  then have "ring_of cap (hist @ [?x]) st'" using r sums by (simp add: ring_of_def st'_def)
  with push show ?thesis by (auto simp: st'_def)
qed


text \<open>The abstract zone: the history instead of the ring, everything else as in the code.\<close>

record abs_zone =
  az_hist :: "sample list"
  az_instant :: real
  az_ema :: real
  az_updated :: "int option"
  az_polled :: "int option"

definition abs_init :: abs_zone where
  "abs_init = \<lparr>az_hist = [], az_instant = 0, az_ema = 0, az_updated = None, az_polled = None\<rparr>"

definition abs_update :: "float_ops \<Rightarrow> config \<Rightarrow> nat \<Rightarrow> int \<Rightarrow> counter_snapshot \<Rightarrow> abs_zone \<Rightarrow> abs_zone" where
  "abs_update F c cap now d a =
     (let hist = az_hist a @ [sample_of d];
          ss = (\<Sum>x\<leftarrow>last_n cap hist. seg x); sr = (\<Sum>x\<leftarrow>last_n cap hist. ret x);
          dt = (case az_polled a of None \<Rightarrow> PollInterval c | Some t \<Rightarrow> time_sub now t);
          alpha = Alpha F c dt; instant = instant_of F sr ss
      in if ss = 0 then a\<lparr>az_hist := hist, az_polled := Some now\<rparr>
         else \<lparr>az_hist = hist, az_instant = instant,
               az_ema = (if az_updated a = None then instant
                         else fl_round F (fl_round F (alpha * instant) + fl_round F (fl_round F (1 - alpha) * az_ema a))),
               az_updated = Some now, az_polled = Some now\<rparr>)"

definition zone_rel :: "nat \<Rightarrow> abs_zone \<Rightarrow> zone_state \<Rightarrow> bool" where
  "zone_rel cap a st \<longleftrightarrow>
     ring_of cap (az_hist a) st \<and> InstantPercent st = az_instant a \<and> EMAPercent st = az_ema a \<and>
     LastUpdate st = az_updated a \<and> LastPoll st = az_polled a"

lemma ring_of_cong:
  "ring_of cap h (st\<lparr>InstantPercent := i, EMAPercent := e, LastUpdate := u\<rparr>) = ring_of cap h st"
  "ring_of cap h (st\<lparr>LastPoll := q\<rparr>) = ring_of cap h st"
  by (simp_all add: ring_of_def)

lemma update_zone_refines:
  assumes "zone_rel cap a st"
  shows "\<exists>st'. update_zone F c now d st = Some st' \<and> zone_rel cap (abs_update F c cap now d a) st' \<and>
    zs_DstZone st' = zs_DstZone st \<and> zs_SourceZone st' = zs_SourceZone st"
proof -
  have ring: "ring_of cap (az_hist a) st" using assms by (simp add: zone_rel_def)
  from push_sample_ring [OF this, of d] obtain s1 where push: "push_sample d st = Some s1"
    and r1: "ring_of cap (az_hist a @ [sample_of d]) s1"
    and same: "s1\<lparr>window := [], windowPos := 0, windowLen := 0, sumSeg := 0, sumRet := 0\<rparr> =
      st\<lparr>window := [], windowPos := 0, windowLen := 0, sumSeg := 0, sumRet := 0\<rparr>" by blast
  have eqs: "InstantPercent s1 = InstantPercent st" "EMAPercent s1 = EMAPercent st" "LastUpdate s1 = LastUpdate st"
    "zs_DstZone s1 = zs_DstZone st" "zs_SourceZone s1 = zs_SourceZone st"
    using same by (cases s1; cases st; simp)+
  have sums: "sumSeg s1 = (\<Sum>x\<leftarrow>last_n cap (az_hist a @ [sample_of d]). seg x)"
    "sumRet s1 = (\<Sum>x\<leftarrow>last_n cap (az_hist a @ [sample_of d]). ret x)"
    using r1 by (simp_all add: ring_of_def)
  show ?thesis
  proof (cases "sumSeg s1 = 0")
    case True
    with assms r1 eqs sums push show ?thesis
      by (simp add: update_zone_def smooth_def Let_def zone_rel_def abs_update_def ring_of_cong)
  next
    case False
    with assms r1 eqs sums push show ?thesis
      by (auto simp: update_zone_def smooth_def Let_def zone_rel_def abs_update_def ring_of_cong word_gt_0)
  qed
qed

text \<open>A sequence of polls, on the store and on the histories.\<close>

fun run_store :: "float_ops \<Rightarrow> (int \<times> (string \<rightharpoonup> counter_snapshot)) list \<Rightarrow> ema_store \<Rightarrow> ema_store option" where
  "run_store F [] s = Some s"
| "run_store F ((now, counters) # ps) s = Option.bind (Update F now counters s) (run_store F ps)"

definition deltas_of :: "(int \<times> (string \<rightharpoonup> counter_snapshot)) list \<Rightarrow> string \<Rightarrow> (int \<times> counter_snapshot) list" where
  "deltas_of ps n = map (\<lambda>(now, counters). (now, delta_of counters n)) ps"

definition run_abs :: "float_ops \<Rightarrow> config \<Rightarrow> nat \<Rightarrow> (int \<times> counter_snapshot) list \<Rightarrow> abs_zone \<Rightarrow> abs_zone" where
  "run_abs F c cap ps a = foldl (\<lambda>a (now, d). abs_update F c cap now d a) a ps"

definition zones_rel :: "nat \<Rightarrow> (string \<times> abs_zone) list \<Rightarrow> (string \<times> zone_state) list \<Rightarrow> bool" where
  "zones_rel cap = list_all2 (\<lambda>(n, a) (n', st). n = n' \<and> zone_rel cap a st)"

lemma update_zones_refines:
  "zones_rel cap as zs \<Longrightarrow>
     \<exists>zs'. update_zones F c now counters zs = Some zs' \<and>
       zones_rel cap (map (\<lambda>(n, a). (n, abs_update F c cap now (delta_of counters n) a)) as) zs'"
  unfolding zones_rel_def
proof (induction rule: list_all2_induct)
  case (Cons p as q zs)
  obtain n a st where p: "p = (n, a)" and q: "q = (n, st)" and rel: "zone_rel cap a st"
    using Cons.hyps(1) by (cases p; cases q) auto
  from update_zone_refines [OF rel, of F c now "delta_of counters n"] Cons.IH show ?case by (auto simp: p q)
qed simp

lemma run_store_refines:
  "zones_rel cap as (es_zones s) \<Longrightarrow>
     \<exists>s'. run_store F ps s = Some s' \<and> es_cfg s' = es_cfg s \<and>
       zones_rel cap (map (\<lambda>(n, a). (n, run_abs F (es_cfg s) cap (deltas_of ps n) a)) as) (es_zones s')"
proof (induction ps arbitrary: as s)
  case Nil
  then show ?case by (simp add: run_abs_def deltas_of_def case_prod_unfold)
next
  case (Cons p ps)
  obtain now counters where p: "p = (now, counters)" by (cases p)
  from update_zones_refines [OF Cons.prems, of F "es_cfg s" now counters] obtain zs where
    upd: "Update F now counters s = Some (s\<lparr>es_zones := zs\<rparr>)" and
    rel: "zones_rel cap (map (\<lambda>(n, a). (n, abs_update F (es_cfg s) cap now (delta_of counters n) a)) as)
      (es_zones (s\<lparr>es_zones := zs\<rparr>))" by (auto simp: Update_def)
  from Cons.IH [OF rel] show ?case
    by (simp add: p upd run_abs_def deltas_of_def case_prod_unfold comp_def)
qed

lemma new_zone_rel: "0 < cap \<Longrightarrow> zone_rel cap abs_init (new_zone cap z)"
  by (simp add: zone_rel_def abs_init_def ring_of_new) (simp add: new_zone_def)

lemma cap_positive: "instantWindowCap c = Some cap \<Longrightarrow> 0 < cap"
  by (auto simp: instantWindowCap_def Let_def split: if_splits)

lemma update_new_key: "x \<notin> fst ` set m \<Longrightarrow> AList.update x v m = m @ [(x, v)]"
  by (induction m) auto

lemma foldl_update_distinct:
  "distinct (map fst m @ map k zs) \<Longrightarrow> foldl (\<lambda>m z. AList.update (k z) (f z) m) m zs = m @ map (\<lambda>z. (k z, f z)) zs"
proof (induction zs arbitrary: m)
  case (Cons z zs)
  have "AList.update (k z) (f z) m = m @ [(k z, f z)]" using Cons.prems by (simp add: update_new_key)
  with Cons.IH [of "m @ [(k z, f z)]"] Cons.prems show ?case by auto
qed simp

lemma NewEMAStore_rel:
  assumes "PollInterval c \<noteq> 0" and "distinct (map DstZone zones)"
  obtains cap s where "instantWindowCap c = Some cap" "NewEMAStore c zones = Some s" "es_cfg s = c"
    "zones_rel cap (map (\<lambda>z. (DstZone z, abs_init)) zones) (es_zones s)"
proof -
  obtain cap where cap: "instantWindowCap c = Some cap" using assms(1) by (auto simp: instantWindowCap_def Let_def)
  let ?s = "\<lparr>es_cfg = c, es_zones = map (\<lambda>z. (DstZone z, new_zone cap z)) zones\<rparr>"
  have "NewEMAStore c zones = Some ?s"
    using foldl_update_distinct [of "[]" DstZone zones "new_zone cap"] assms(2) by (simp add: NewEMAStore_def cap)
  moreover have "zones_rel cap (map (\<lambda>z. (DstZone z, abs_init)) zones) (es_zones ?s)"
    by (simp add: zones_rel_def list_all2_map1 list_all2_map2 list_all2_same new_zone_rel [OF cap_positive [OF cap]])
  ultimately show ?thesis using that cap by auto
qed

lemma zones_relD:
  assumes "(n, st) \<in> set zs" and "zones_rel cap (map (\<lambda>z. (DstZone z, f (DstZone z))) zones) zs"
  shows "zone_rel cap (f n) st"
  using assms(2,1) unfolding zones_rel_def list_all2_map1 by (induction rule: list_all2_induct) auto

lemma run_from_new:
  assumes "PollInterval c \<noteq> 0" and "distinct (map DstZone zones)"
  obtains cap s0 s where "instantWindowCap c = Some cap" "NewEMAStore c zones = Some s0" "run_store F ps s0 = Some s"
    "zones_rel cap (map (\<lambda>z. (DstZone z, run_abs F c cap (deltas_of ps (DstZone z)) abs_init)) zones) (es_zones s)"
proof -
  from NewEMAStore_rel [OF assms] obtain cap s0 where
    new: "instantWindowCap c = Some cap" "NewEMAStore c zones = Some s0" "es_cfg s0 = c"
    and rel: "zones_rel cap (map (\<lambda>z. (DstZone z, abs_init)) zones) (es_zones s0)" by blast
  from run_store_refines [OF rel, of F ps] new that show ?thesis by (auto simp: comp_def)
qed

lemma run_abs_hist: "az_hist (run_abs F c cap ps a) = az_hist a @ map (\<lambda>(now, d). sample_of d) ps"
proof (induction ps rule: rev_induct)
  case (snoc p ps)
  obtain now d where "p = (now, d)" by (cases p)
  with snoc show ?case by (simp add: run_abs_def abs_update_def Let_def)
qed (simp add: run_abs_def)

text \<open>
  C18. The ring with its running sums implements the plain description: over any sequence of polls,
  with any rounding, no index is out of range, no zone is lost, and for every zone the published
  values are those computed from the sums over the last \<open>cap\<close> samples of its whole history (in
  64-bit arithmetic), and the ring's sums are these sums.
\<close>

theorem window_refines_history:
  assumes "PollInterval c \<noteq> 0" and "distinct (map DstZone zones)"
  shows "\<exists>cap s0 s. instantWindowCap c = Some cap \<and> NewEMAStore c zones = Some s0 \<and> run_store F ps s0 = Some s \<and>
     map fst (es_zones s) = map DstZone zones \<and>
     (\<forall>(n, st)\<in>set (es_zones s).
        let a = run_abs F c cap (deltas_of ps n) abs_init; hist = map (\<lambda>(now, d). sample_of d) (deltas_of ps n)
        in az_hist a = hist \<and> sumSeg st = (\<Sum>x\<leftarrow>last_n cap hist. seg x) \<and> sumRet st = (\<Sum>x\<leftarrow>last_n cap hist. ret x) \<and>
           InstantPercent st = az_instant a \<and> EMAPercent st = az_ema a \<and> LastUpdate st = az_updated a)"
proof -
  from run_from_new [OF assms] obtain cap s0 s where
    new: "instantWindowCap c = Some cap" "NewEMAStore c zones = Some s0" "run_store F ps s0 = Some s"
    and rel: "zones_rel cap (map (\<lambda>z. (DstZone z, run_abs F c cap (deltas_of ps (DstZone z)) abs_init)) zones) (es_zones s)"
    by blast
  have "map fst (es_zones s) = map DstZone zones"
    using rel unfolding zones_rel_def list_all2_map1 by (induction rule: list_all2_induct) auto
  moreover have "zone_rel cap (run_abs F c cap (deltas_of ps n) abs_init) st" if "(n, st) \<in> set (es_zones s)" for n st
    using that rel by (rule zones_relD)
  ultimately show ?thesis using new
    by (fastforce simp: Let_def zone_rel_def ring_of_def run_abs_hist abs_init_def)
qed

theorem window_refines_history_witness:
  "\<exists>s0 s. NewEMAStore default_config sample_zones = Some s0 \<and>
     run_store exact [(0, \<lambda>n. Some \<lparr>Segments = 100, Retrans = 10\<rparr>)] s0 = Some s \<and>
     map fst (es_zones s) = map DstZone sample_zones"
proof -
  have "PollInterval default_config \<noteq> 0" "distinct (map DstZone sample_zones)"
    by (simp_all add: default_config_def second_def sample_zones_def)
  from window_refines_history [OF this] show ?thesis by blast
qed

subsection \<open>The values, in exact arithmetic\<close>

lemma Seconds_exact: "Seconds exact d = of_int d / 1000000000"
proof -
  have "of_int (d sdiv second) * 1000000000 + of_int (d smod second) = (of_int d :: real)"
    using arg_cong [OF sdiv_mult_smod_eq [of d second], of "of_int :: int \<Rightarrow> real"] by (simp add: second_def)
  then show ?thesis by (simp add: Seconds_def exact_def Let_def field_simps)
qed

lemma Alpha_exact:
  assumes "0 < EMAHalfLife c"
  shows "Alpha exact c dt = (if dt \<le> 0 then 0 else 1 - exp (- (of_int dt / of_int (EMAHalfLife c))))"
proof -
  have "of_int dt / 1000000000 / (of_int (EMAHalfLife c) / 1000000000) = (of_int dt / of_int (EMAHalfLife c) :: real)"
    by simp
  moreover have "(of_int dt / of_int (EMAHalfLife c) \<le> (0::real)) \<longleftrightarrow> dt \<le> 0"
    using assms by (simp add: divide_le_0_iff)
  ultimately show ?thesis
    using assms by (simp add: Alpha_def expNeg_def mathExpNeg_def Seconds_exact, simp add: exact_def)
qed

lemma Alpha_exact_bounds: "0 < EMAHalfLife c \<Longrightarrow> 0 \<le> Alpha exact c dt \<and> Alpha exact c dt \<le> 1"
  by (simp add: Alpha_exact)

lemma unat_sum_list:
  "(\<Sum>x\<leftarrow>xs. unat (f x)) < 2 ^ 64 \<Longrightarrow> unat (\<Sum>x\<leftarrow>xs. f x :: u64) = (\<Sum>x\<leftarrow>xs. unat (f x))"
  by (induction xs) (simp_all add: unat_word_ariths)

lemma sum_list_last_n_le: "(\<Sum>x\<leftarrow>last_n n xs. f x) \<le> (\<Sum>x\<leftarrow>xs. f x :: nat)"
proof -
  have "sum_list (map f xs) = sum_list (map f (take (length xs - n) xs)) + sum_list (map f (last_n n xs))"
    unfolding last_n_def by (simp flip: sum_list_append map_append)
  then show ?thesis by simp
qed

lemma percent_bounds: "0 \<le> r \<Longrightarrow> r \<le> s \<Longrightarrow> 0 < s \<Longrightarrow> 0 \<le> 100 * r / s \<and> 100 * r / s \<le> (100::real)"
  by (simp add: divide_le_eq)

lemma instant_exact_bounds:
  assumes "unat sr \<le> unat ss" and "ss \<noteq> 0"
  shows "0 \<le> instant_of exact sr ss \<and> instant_of exact sr ss \<le> 100"
proof -
  have "0 < real (unat ss)" using assms(2) by (simp add: unat_gt_0 del: of_nat_unat)
  moreover have "real (unat sr) \<le> real (unat ss)" using assms(1) by (simp del: of_nat_unat)
  ultimately show ?thesis
    unfolding instant_of_def float64_of_uint64_def exact_def float_ops.simps
    by (intro percent_bounds of_nat_0_le_iff)
qed

lemma convex_bounds:
  assumes "0 \<le> a" "a \<le> 1" "0 \<le> x" "x \<le> 100" "0 \<le> y" "y \<le> (100::real)"
  shows "0 \<le> a * x + (1 - a) * y \<and> a * x + (1 - a) * y \<le> 100"
proof
  show "0 \<le> a * x + (1 - a) * y" using assms by (intro add_nonneg_nonneg mult_nonneg_nonneg) auto
  have "a * x + (1 - a) * y \<le> a * 100 + (1 - a) * 100"
    using assms by (intro add_mono mult_left_mono) auto
  also have "\<dots> = 100" by (simp add: algebra_simps)
  finally show "a * x + (1 - a) * y \<le> 100" .
qed

lemma abs_bounds:
  assumes "0 < EMAHalfLife c" and "\<forall>(now, d)\<in>set ps. Retrans d \<le> Segments d"
    and "(\<Sum>(now, d)\<leftarrow>ps. unat (Segments d)) < 2 ^ 64"
  shows "let a = run_abs exact c cap ps abs_init in
    0 \<le> az_instant a \<and> az_instant a \<le> 100 \<and> 0 \<le> az_ema a \<and> az_ema a \<le> 100"
  using assms(2,3)
proof (induction ps rule: rev_induct)
  case Nil
  then show ?case by (simp add: run_abs_def abs_init_def)
next
  case (snoc p ps)
  obtain now d where p: "p = (now, d)" by (cases p)
  define a where "a = run_abs exact c cap ps abs_init"
  have IH: "0 \<le> az_instant a \<and> az_instant a \<le> 100 \<and> 0 \<le> az_ema a \<and> az_ema a \<le> 100"
    using snoc by (simp add: a_def Let_def)
  define hist where "hist = map (\<lambda>(now, d). sample_of d) (ps @ [p])"
  have h: "az_hist a @ [sample_of d] = hist" by (simp add: a_def hist_def run_abs_hist abs_init_def p)
  have le: "\<forall>x\<in>set hist. unat (ret x) \<le> unat (seg x)"
    using snoc.prems(1) by (auto simp: hist_def sample_of_def word_le_nat_alt)
  have "(\<Sum>x\<leftarrow>hist. unat (seg x)) = (\<Sum>(now, d)\<leftarrow>ps @ [p]. unat (Segments d))"
    unfolding hist_def by (simp add: comp_def case_prod_unfold sample_of_def)
  with snoc.prems(2) have tot: "(\<Sum>x\<leftarrow>hist. unat (seg x)) < 2 ^ 64" by simp
  let ?w = "last_n cap hist"
  have mono: "(\<Sum>x\<leftarrow>?w. unat (ret x)) \<le> (\<Sum>x\<leftarrow>?w. unat (seg x))"
    using le by (intro sum_list_mono) (auto simp: last_n_def dest: in_set_dropD)
  have seg_lt: "(\<Sum>x\<leftarrow>?w. unat (seg x)) < 2 ^ 64" using sum_list_last_n_le [of "unat \<circ> seg" cap hist] tot by (simp add: comp_def)
  have "unat (\<Sum>x\<leftarrow>?w. ret x) \<le> unat (\<Sum>x\<leftarrow>?w. seg x)"
    using mono seg_lt by (simp add: unat_sum_list)
  then have inst: "0 \<le> instant_of exact (\<Sum>x\<leftarrow>?w. ret x) (\<Sum>x\<leftarrow>?w. seg x) \<and>
      instant_of exact (\<Sum>x\<leftarrow>?w. ret x) (\<Sum>x\<leftarrow>?w. seg x) \<le> 100" if "(\<Sum>x\<leftarrow>?w. seg x) \<noteq> 0"
    using instant_exact_bounds that by blast
  have step: "run_abs exact c cap (ps @ [p]) abs_init = abs_update exact c cap now d a"
    by (simp add: run_abs_def a_def p)
  have round: "fl_round exact x = x" for x by (simp add: exact_def)
  show ?case
    unfolding step using IH inst Alpha_exact_bounds [OF assms(1)]
    by (auto simp: abs_update_def h Let_def round intro: convex_bounds [THEN conjunct1] convex_bounds [THEN conjunct2])
qed

text \<open>
  In exact arithmetic, as long as no snapshot reports more retransmissions than segments and
  fewer than \<open>2^64\<close> segments are counted per zone, every zone's instant percentage and moving
  average stay between 0 and 100.
\<close>

theorem percentages_stay_in_range:
  assumes "PollInterval c \<noteq> 0" and "distinct (map DstZone zones)" and "0 < EMAHalfLife c"
    and "\<forall>n. \<forall>(now, d)\<in>set (deltas_of ps n). Retrans d \<le> Segments d"
    and "\<forall>n. (\<Sum>(now, d)\<leftarrow>deltas_of ps n. unat (Segments d)) < 2 ^ 64"
  shows "\<exists>s0 s. NewEMAStore c zones = Some s0 \<and> run_store exact ps s0 = Some s \<and>
     (\<forall>st\<in>set (Snapshot s). 0 \<le> InstantPercent st \<and> InstantPercent st \<le> 100 \<and>
        0 \<le> EMAPercent st \<and> EMAPercent st \<le> 100)"
proof -
  from run_from_new [OF assms(1,2)] obtain cap s0 s where
    new: "NewEMAStore c zones = Some s0" "run_store exact ps s0 = Some s"
    and rel: "zones_rel cap (map (\<lambda>z. (DstZone z, run_abs exact c cap (deltas_of ps (DstZone z)) abs_init)) zones) (es_zones s)"
    by blast
  have "zone_rel cap (run_abs exact c cap (deltas_of ps n) abs_init) st" if "(n, st) \<in> set (es_zones s)" for n st
    using that rel by (rule zones_relD)
  then show ?thesis
    using new abs_bounds [OF assms(3) spec [OF assms(4)] spec [OF assms(5)]]
    by (fastforce simp: Let_def zone_rel_def Snapshot_def)
qed

theorem percentages_stay_in_range_witness:
  "\<exists>s0 s. NewEMAStore default_config sample_zones = Some s0 \<and>
     run_store exact [(0, \<lambda>n. Some \<lparr>Segments = 100, Retrans = 10\<rparr>), (1000000000, \<lambda>n. None)] s0 = Some s \<and>
     (\<forall>st\<in>set (Snapshot s). 0 \<le> InstantPercent st \<and> InstantPercent st \<le> 100 \<and>
        0 \<le> EMAPercent st \<and> EMAPercent st \<le> 100)"
proof -
  let ?ps = "[(0, \<lambda>n. Some \<lparr>Segments = 100, Retrans = 10\<rparr>), (1000000000, \<lambda>n. None)] :: (int \<times> (string \<rightharpoonup> counter_snapshot)) list"
  have 1: "PollInterval default_config \<noteq> 0" "distinct (map DstZone sample_zones)" "0 < EMAHalfLife default_config"
    by (simp_all add: default_config_def second_def sample_zones_def)
  have 2: "\<forall>n. \<forall>(now, d)\<in>set (deltas_of ?ps n). Retrans d \<le> Segments d"
    "\<forall>n. (\<Sum>(now, d)\<leftarrow>deltas_of ?ps n. unat (Segments d)) < 2 ^ 64" by (simp_all add: deltas_of_def delta_of_def)
  show ?thesis by (rule percentages_stay_in_range [OF 1 2])
qed

text \<open>
  The configured half-life is a time constant: after exactly that time the weight of the old
  average is \<open>1/e\<close>, not one half.
\<close>

theorem half_life_is_a_time_constant:
  assumes "0 < EMAHalfLife c"
  shows "1 - Alpha exact c (EMAHalfLife c) = exp (- 1) \<and> 1 - Alpha exact c (EMAHalfLife c) < 1 / 2"
proof -
  have "(2::real) < exp 1" using exp_gt_zero exp_ge_add_one_self [of 1] exp_lower_Taylor_quadratic [of 1] by simp
  then have "exp (- 1) < (1 / 2 :: real)" by (simp add: exp_minus field_simps)
  then show ?thesis using assms by (simp add: Alpha_exact)
qed

theorem half_life_is_a_time_constant_witness: "1 - Alpha exact default_config (5 * 60 * second) = exp (- 1)"
  using half_life_is_a_time_constant [of default_config] by (simp add: default_config_def second_def)

end
