(* ===== verification/Publish.thy ===== *)
theory Publish
  imports Ema
begin

text \<open>
  The poll loop: \<^verbatim>\<open>internal/metrics/exporter.go\<close> (the three gauges),
  \<^verbatim>\<open>cmd/ebpf-packet-loss-exporter/logsummary.go\<close> (the summary line of a tick) and the closure
  \<^verbatim>\<open>publish\<close> of \<^verbatim>\<open>main.go\<close>, which takes a snapshot of the counters, updates the averages, sets the
  gauges and logs.

  A gauge vector is a map from the values of the labels \<^verbatim>\<open>source_zone\<close> and \<^verbatim>\<open>dst_zone\<close>. A Go loop
  over a map of zones visits them here in the order of the configuration's zones. What is logged is
  part of the result.
\<close>

subsection \<open>Formatting\<close>

fun show_nat :: "nat \<Rightarrow> string" where
  "show_nat n = (if n < 10 then [char_of (48 + n)] else show_nat (n div 10) @ [char_of (48 + n mod 10)])"

declare show_nat.simps [simp del]

text \<open>The verb \<^verbatim>\<open>%.1f\<close>: the exact value, rounded to one decimal, halves to even.\<close>

definition round_even :: "real \<Rightarrow> int" where
  "round_even x =
     (let n = \<lfloor>x\<rfloor>; d = x - of_int n in
      if d < 1 / 2 then n else if 1 / 2 < d then n + 1 else if even n then n else n + 1)"

definition fmt_1f :: "real \<Rightarrow> string" where
  "fmt_1f x =
     (let n = nat (round_even (10 * \<bar>x\<bar>)) in
      (if x < 0 then ''-'' else '''') @ show_nat (n div 10) @ ''.'' @ show_nat (n mod 10))"

fun Join :: "string list \<Rightarrow> string \<Rightarrow> string" where
  "Join [] sep = ''''"
| "Join [s] sep = s"
| "Join (s # ss) sep = s @ sep @ Join ss sep"

subsection \<open>The summary line\<close>

definition summaryHeartbeatTicks :: u64 where
  "summaryHeartbeatTicks = 30"

record zone_tick =
  zt_Zone :: string
  zt_Segments :: u64
  zt_Retrans :: u64
  zt_Loss :: real
  zt_EMA :: real

record tick_counters =
  tc_Tick :: u64
  tc_Zones :: "zone_tick list"
  tc_TCP :: u64
  tc_Zoned :: u64
  tc_Unknown :: u64

definition zone_body :: "zone_tick \<Rightarrow> string" where
  "zone_body z =
     (if zt_Segments z = 0 \<and> zt_Loss z = 0 \<and> zt_EMA z = 0 then zt_Zone z @ ''=idle''
      else zt_Zone z @ ''=loss'' @ fmt_1f (zt_Loss z) @ ''%/ema'' @ fmt_1f (zt_EMA z) @ ''%'')"

definition zone_volume :: "zone_tick \<Rightarrow> string" where
  "zone_volume z = zt_Zone z @ '':'' @ show_nat (unat (zt_Segments z)) @ ''/'' @ show_nat (unat (zt_Retrans z))"

definition formatTickSummary :: "tick_counters \<Rightarrow> string \<times> string" where
  "formatTickSummary c =
     (let zs = sort_key zt_Zone (tc_Zones c);
          body = Join (map zone_body zs) '' '';
          body = (if tc_TCP c = 0 \<and> tc_Zoned c = 0 then body @ '' warn=no-tcp''
                  else if tc_TCP c > 0 \<and> tc_Zoned c = 0 then body @ '' warn=unzoned(check source_zone/subnets)''
                  else body);
          body = (if tc_Unknown c > 0 then body @ '' unknown_zone_drops='' @ show_nat (unat (tc_Unknown c)) else body)
      in (body, Join (map zone_volume zs) '' ''))"

text \<open>The state \<^verbatim>\<open>(prevBody, lastEmitTick)\<close> after a tick, and the line that is logged, if any.\<close>

definition emitTickSummary :: "string \<times> u64 \<Rightarrow> tick_counters \<Rightarrow> (string \<times> u64) \<times> string option" where
  "emitTickSummary st c =
     (let (body, volume) = formatTickSummary c in
      if body = fst st \<and> tc_Tick c - snd st < summaryHeartbeatTicks then (st, None)
      else ((body, tc_Tick c),
            Some (''tick '' @ show_nat (unat (tc_Tick c)) @ '': '' @ body @ '' seg/ret='' @ volume)))"

subsection \<open>The gauges\<close>

record exporter =
  percent :: "string \<times> string \<rightharpoonup> real"
  percentEMA :: "string \<times> string \<rightharpoonup> real"
  emaTimestamp :: "string \<times> string \<rightharpoonup> real"

definition NewExporter :: exporter where
  "NewExporter = \<lparr>percent = Map.empty, percentEMA = Map.empty, emaTimestamp = Map.empty\<rparr>"

definition floorToTwoDecimals :: "float_ops \<Rightarrow> real \<Rightarrow> real" where
  "floorToTwoDecimals F v = fl_round F (of_int \<lfloor>fl_round F (v * 100)\<rfloor> / 100)"

definition publish_zone :: "float_ops \<Rightarrow> exporter \<Rightarrow> zone_state \<Rightarrow> exporter" where
  "publish_zone F e st =
     (let labels = (zs_SourceZone st, zs_DstZone st);
          e = e\<lparr>percent := (percent e)(labels \<mapsto> floorToTwoDecimals F (InstantPercent st))\<rparr>;
          e = e\<lparr>percentEMA := (percentEMA e)(labels \<mapsto> floorToTwoDecimals F (EMAPercent st))\<rparr>
      in case LastUpdate st of
           None \<Rightarrow> e
         | Some t \<Rightarrow> e\<lparr>emaTimestamp := (emaTimestamp e)(labels \<mapsto> fl_round F (of_int (t div second)))\<rparr>)"

definition Publish :: "float_ops \<Rightarrow> zone_state list \<Rightarrow> exporter \<Rightarrow> exporter" where
  "Publish F states e = foldl (publish_zone F) e states"

subsection \<open>One poll\<close>

record poll_state =
  ps_acc :: accumulator
  ps_ema :: ema_store
  ps_prom :: exporter
  ps_tick :: u64
  ps_summary :: "string \<times> u64"
  ps_prevTCP :: u64
  ps_prevZoned :: u64
  ps_zeroPolls :: int

datatype log_line = Verbose_zone string u64 u64 | No_tcp_segments debug_counters | Summary_line string

definition tick_zones :: "(string \<rightharpoonup> counter_snapshot) \<Rightarrow> zone_state list \<Rightarrow> zone_tick list" where
  "tick_zones counters snap =
     map (\<lambda>st. \<lparr>zt_Zone = zs_DstZone st, zt_Segments = Segments (delta_of counters (zs_DstZone st)),
                zt_Retrans = Retrans (delta_of counters (zs_DstZone st)), zt_Loss = InstantPercent st, zt_EMA = EMAPercent st\<rparr>) snap"

text \<open>
  The debug counters: the differences to the last tick and the warning on entry and every 60 ticks.
  \<open>dbg\<close> is the result of \<^verbatim>\<open>ReadDebugCounters\<close>.
\<close>

definition poll_debug ::
    "debug_counters option \<Rightarrow> u64 \<Rightarrow> tick_counters \<Rightarrow> poll_state \<Rightarrow> tick_counters \<times> poll_state \<times> log_line list" where
  "poll_debug dbg userSegs tc p =
     (case dbg of
        None \<Rightarrow> (tc, p, [])
      | Some d \<Rightarrow>
          let tc = tc\<lparr>tc_TCP := dc_TCPPackets d - ps_prevTCP p, tc_Zoned := dc_TCPZoned d - ps_prevZoned p\<rparr>;
              p = p\<lparr>ps_prevTCP := dc_TCPPackets d, ps_prevZoned := dc_TCPZoned d\<rparr>
          in if userSegs = 0 \<and> tc_TCP tc = 0
             then let p = p\<lparr>ps_zeroPolls := ps_zeroPolls p + 1\<rparr>
                  in (tc, p, if ps_zeroPolls p = 1 \<or> ps_zeroPolls p mod 60 = 0 then [No_tcp_segments d] else [])
             else (tc, p\<lparr>ps_zeroPolls := 0\<rparr>, []))"

text \<open>\<open>None\<close> is a panic in \<^verbatim>\<open>ema.Update\<close>.\<close>

definition publish ::
    "float_ops \<Rightarrow> bool \<Rightarrow> int \<Rightarrow> debug_counters option \<Rightarrow> poll_state \<Rightarrow> (poll_state \<times> log_line list) option" where
  "publish F verbose now dbg p =
     (let p = p\<lparr>ps_tick := ps_tick p + 1\<rparr>;
          (counters, acc) = snapshotAndReset (ps_acc p);
          p = p\<lparr>ps_acc := acc\<rparr>;
          verb = (if verbose
                  then [Verbose_zone dst (Segments (delta_of counters dst)) (Retrans (delta_of counters dst)).
                          dst \<leftarrow> acc_zoneNames acc, Segments (delta_of counters dst) > 0]
                  else [])
      in case Update F now counters (ps_ema p) of
           None \<Rightarrow> None
         | Some ema \<Rightarrow>
             let snap = Snapshot ema;
                 p = p\<lparr>ps_ema := ema, ps_prom := Publish F snap (ps_prom p)\<rparr>;
                 zones = tick_zones counters snap;
                 userSegs = (\<Sum>z\<leftarrow>zones. zt_Segments z);
                 tc = \<lparr>tc_Tick = ps_tick p, tc_Zones = zones, tc_TCP = 0, tc_Zoned = 0, tc_Unknown = acc_unknown (ps_acc p)\<rparr>;
                 (tc, p, warn) = poll_debug dbg userSegs tc p;
                 (sum, line) = emitTickSummary (ps_summary p) tc
             in Some (p\<lparr>ps_summary := sum\<rparr>,
                      verb @ warn @ (case line of None \<Rightarrow> [] | Some l \<Rightarrow> [Summary_line l])))"

definition start_polls :: "config \<Rightarrow> resolved_zone list \<Rightarrow> poll_state option" where
  "start_polls cfg zones =
     map_option (\<lambda>ema.
         \<lparr>ps_acc = newAccumulator zones, ps_ema = ema, ps_prom = NewExporter, ps_tick = 0, ps_summary = ('''', 0),
          ps_prevTCP = 0, ps_prevZoned = 0, ps_zeroPolls = 0\<rparr>)
       (NewEMAStore cfg zones)"

text \<open>
  A run of the program: the reader handles the results \<open>rs\<close> of its reads, then the ticker fires and
  \<^verbatim>\<open>publish\<close> runs, and so on.
\<close>

record tick_input =
  ti_reads :: "(read_result \<times> bool) list"
  ti_now :: int
  ti_dbg :: "debug_counters option"

fun run_polls ::
    "float_ops \<Rightarrow> byte_order \<Rightarrow> (u8 \<rightharpoonup> nat) \<Rightarrow> bool \<Rightarrow> tick_input list \<Rightarrow> reader_state \<Rightarrow> poll_state \<Rightarrow>
     (poll_state \<times> log_line list) option" where
  "run_polls F bo ix verbose [] rd p = Some (p, [])"
| "run_polls F bo ix verbose (t # ts) rd p =
     (case reader_loop bo ix rd (ti_reads t) (ps_acc p) of
        None \<Rightarrow> None
      | Some (rd, acc) \<Rightarrow>
          (case publish F verbose (ti_now t) (ti_dbg t) (p\<lparr>ps_acc := acc\<rparr>) of
             None \<Rightarrow> None
           | Some (p, out) \<Rightarrow> map_option (map_prod id ((@) out)) (run_polls F bo ix verbose ts rd p)))"

subsection \<open>The log never goes stale\<close>

fun run_summary :: "string \<times> u64 \<Rightarrow> tick_counters list \<Rightarrow> (string \<times> u64) \<times> string option list" where
  "run_summary st [] = (st, [])"
| "run_summary st (c # cs) =
     (let (st, line) = emitTickSummary st c; (st, lines) = run_summary st cs in (st, line # lines))"

lemma run_summary_length: "length (snd (run_summary st cs)) = length cs"
  by (induction cs arbitrary: st) (simp_all add: Let_def case_prod_unfold)

lemma run_summary_append:
  "run_summary st (cs @ ds) =
     (fst (run_summary (fst (run_summary st cs)) ds),
      snd (run_summary st cs) @ snd (run_summary (fst (run_summary st cs)) ds))"
  by (induction cs arbitrary: st) (simp_all add: Let_def case_prod_unfold)

lemma run_summary_body: "cs \<noteq> [] \<Longrightarrow> fst (fst (run_summary st cs)) = fst (formatTickSummary (last cs))"
proof (induction cs rule: rev_induct)
  case (snoc c cs)
  have "fst (fst (emitTickSummary s c)) = fst (formatTickSummary c)" for s
    by (simp add: emitTickSummary_def Let_def split: prod.split)
  then show ?case by (simp add: run_summary_append Let_def case_prod_unfold)
qed simp

text \<open>The line of a tick, with its number, the states of its zones and its volumes.\<close>

definition summary_line :: "nat \<Rightarrow> string \<Rightarrow> tick_counters \<Rightarrow> string" where
  "summary_line n body c = ''tick '' @ show_nat n @ '': '' @ body @ '' seg/ret='' @ snd (formatTickSummary c)"

text \<open>As long as the body that is kept is not the empty one of the start, the line that carries it was logged
  within the last 30 ticks, and none since.\<close>

lemma run_summary_last_line:
  assumes "\<forall>i<length cs. tc_Tick (cs ! i) = of_nat (Suc i)" and "length cs < 2 ^ 64"
    and "fst (fst (run_summary ('''', 0) cs)) \<noteq> ''''"
  shows "\<exists>j<length cs. snd (fst (run_summary ('''', 0) cs)) = of_nat (Suc j) \<and> length cs < j + 31 \<and>
     snd (run_summary ('''', 0) cs) ! j = Some (summary_line (Suc j) (fst (fst (run_summary ('''', 0) cs))) (cs ! j)) \<and>
     (\<forall>k. j < k \<and> k < length cs \<longrightarrow> snd (run_summary ('''', 0) cs) ! k = None)"
  using assms
proof (induction cs rule: rev_induct)
  case (snoc c cs)
  let ?st = "fst (run_summary ('''', 0) cs)" and ?ls = "snd (run_summary ('''', 0) cs)" and ?n = "length cs"
  obtain body vol where fmt: "formatTickSummary c = (body, vol)" by fastforce
  have tick: "tc_Tick c = of_nat (Suc ?n)" using snoc.prems(1) by (auto simp: nth_append dest: spec [of _ ?n])
  have small: "unat (of_nat (Suc ?n) :: u64) = Suc ?n" using snoc.prems(2) unfolding unat_of_nat by simp
  have run: "run_summary ('''', 0) (cs @ [c]) = (fst (emitTickSummary ?st c), ?ls @ [snd (emitTickSummary ?st c)])"
    by (simp add: run_summary_append Let_def case_prod_unfold)
  show ?case
  proof (cases "body = fst ?st \<and> tc_Tick c - snd ?st < summaryHeartbeatTicks")
    case True
    then have quiet: "emitTickSummary ?st c = (?st, None)" by (simp add: emitTickSummary_def fmt)
    have ticks: "\<forall>i<?n. tc_Tick (cs ! i) = of_nat (Suc i)"
      using snoc.prems(1) by (metis length_append_singleton less_SucI nth_append)
    have "fst ?st \<noteq> ''''" using snoc.prems(3) by (simp add: run quiet)
    with snoc.IH [OF ticks] snoc.prems(2) obtain j where j: "j < ?n" "snd ?st = of_nat (Suc j)"
      "?ls ! j = Some (summary_line (Suc j) (fst ?st) (cs ! j))" "\<forall>k. j < k \<and> k < ?n \<longrightarrow> ?ls ! k = None" by auto
    have "(of_nat (Suc ?n) - of_nat (Suc j) :: u64) = of_nat (?n - j)" using j(1) by (simp add: of_nat_diff)
    with True tick j(2) have "(of_nat (?n - j) :: u64) < 30" by (simp add: summaryHeartbeatTicks_def)
    moreover have "unat (of_nat (?n - j) :: u64) = ?n - j" using snoc.prems(2) unfolding unat_of_nat by simp
    ultimately have "?n - j < 30" by (simp add: word_less_nat_alt)
    with j show ?thesis
      by (intro exI [of _ j]) (auto simp: run quiet nth_append run_summary_length less_Suc_eq)
  next
    case False
    then have "emitTickSummary ?st c = ((body, tc_Tick c), Some (summary_line (Suc ?n) body c))"
      using small by (simp add: emitTickSummary_def fmt tick summary_line_def)
    then show ?thesis by (intro exI [of _ ?n]) (auto simp: run tick nth_append run_summary_length)
  qed
qed simp

lemma formatTickSummary_body: "tc_Zones c \<noteq> [] \<Longrightarrow> fst (formatTickSummary c) \<noteq> ''''"
proof -
  assume "tc_Zones c \<noteq> []"
  then have "sort_key zt_Zone (tc_Zones c) \<noteq> []" by (metis length_0_conv length_sort)
  then obtain z zs where "sort_key zt_Zone (tc_Zones c) = z # zs" by (meson list.exhaust)
  moreover have "Join (map zone_body (z # zs)) '' '' \<noteq> ''''" by (cases zs) (simp_all add: zone_body_def)
  ultimately show ?thesis by (simp add: formatTickSummary_def Let_def)
qed

lemma run_summary_take:
  "snd (run_summary st (take n cs)) = take n (snd (run_summary st cs))"
proof (induction cs arbitrary: st n)
  case (Cons c cs)
  then show ?case by (cases n) (simp_all add: Let_def case_prod_unfold)
qed simp

text \<open>
  C26. The log never goes stale and is never silent for long. Whichever tick \<open>i\<close> is looked at, the last line
  logged up to it was logged at this tick or less than 30 ticks before it, and it shows the present states of the
  zones: its text is the number of its tick, the body of tick \<open>i\<close>, and the volumes of its own tick. So any change
  is logged at once, and an unchanged summary again after 30 ticks.
\<close>

theorem summary_heartbeat:
  assumes "\<forall>i<length cs. tc_Tick (cs ! i) = of_nat (Suc i)" and "length cs < 2 ^ 64"
    and "i < length cs" and "tc_Zones (cs ! i) \<noteq> []"
  shows "\<exists>j\<le>i. i < j + 30 \<and>
     snd (run_summary ('''', 0) cs) ! j =
       Some (''tick '' @ show_nat (Suc j) @ '': '' @ fst (formatTickSummary (cs ! i)) @ '' seg/ret='' @ snd (formatTickSummary (cs ! j))) \<and>
     (\<forall>k. j < k \<and> k \<le> i \<longrightarrow> snd (run_summary ('''', 0) cs) ! k = None)"
proof -
  let ?cs = "take (Suc i) cs"
  have len: "length ?cs = Suc i" and ne: "?cs \<noteq> []" and last: "last ?cs = cs ! i" using assms(3) by (auto simp: take_Suc_conv_app_nth)
  have "fst (fst (run_summary ('''', 0) ?cs)) = fst (formatTickSummary (cs ! i))" using run_summary_body [OF ne] last by simp
  moreover from this have "fst (fst (run_summary ('''', 0) ?cs)) \<noteq> ''''" using formatTickSummary_body [OF assms(4)] by simp
  moreover have "\<forall>k<length ?cs. tc_Tick (?cs ! k) = of_nat (Suc k)" using assms(1) len by simp
  moreover have "length ?cs < 2 ^ 64" using assms(2) len by simp
  ultimately obtain j where j: "j < length ?cs" "length ?cs < j + 31"
    "snd (run_summary ('''', 0) ?cs) ! j = Some (summary_line (Suc j) (fst (formatTickSummary (cs ! i))) (?cs ! j))"
    "\<forall>k. j < k \<and> k < length ?cs \<longrightarrow> snd (run_summary ('''', 0) ?cs) ! k = None"
    using run_summary_last_line [of ?cs] by metis
  have "?cs ! j = cs ! j" "j \<le> i" "i < j + 30" using j(1,2) unfolding len by simp_all
  moreover have "\<forall>k. j < k \<and> k \<le> i \<longrightarrow> snd (run_summary ('''', 0) cs) ! k = None"
    using j(4) unfolding len by (simp add: run_summary_take less_Suc_eq_le)
  ultimately show ?thesis
    using j(1,3) unfolding len by (intro exI [of _ j]) (simp add: run_summary_take summary_line_def)
qed

definition idle_tick :: "nat \<Rightarrow> tick_counters" where
  "idle_tick i =
     \<lparr>tc_Tick = of_nat (Suc i), tc_Zones = [\<lparr>zt_Zone = ''dc'', zt_Segments = 0, zt_Retrans = 0, zt_Loss = 0, zt_EMA = 0\<rparr>],
      tc_TCP = 5, tc_Zoned = 5, tc_Unknown = 0\<rparr>"

theorem summary_heartbeat_witness:
  "\<exists>j\<le>32. 32 < j + 30 \<and> (\<exists>rest. snd (run_summary ('''', 0) (map idle_tick [0..<40])) ! j =
     Some (''tick '' @ show_nat (Suc j) @ '': dc=idle seg/ret='' @ rest))"
proof -
  have "\<forall>i<length (map idle_tick [0..<40]). tc_Tick (map idle_tick [0..<40] ! i) = of_nat (Suc i)"
    by (simp add: idle_tick_def)
  from summary_heartbeat [OF this, of 32] obtain j where "j \<le> 32" "32 < j + 30" and
    "snd (run_summary ('''', 0) (map idle_tick [0..<40])) ! j =
       Some (''tick '' @ show_nat (Suc j) @ '': '' @ fst (formatTickSummary (idle_tick 32)) @ '' seg/ret='' @ snd (formatTickSummary (map idle_tick [0..<40] ! j)))"
    by (auto simp: idle_tick_def)
  moreover have "fst (formatTickSummary (idle_tick 32)) = ''dc=idle''"
    by (simp add: formatTickSummary_def idle_tick_def zone_body_def)
  ultimately show ?thesis by auto
qed

subsection \<open>What the gauges show\<close>

lemma publish_zone_gauges:
  fixes st :: zone_state
  defines "lab \<equiv> (zs_SourceZone st, zs_DstZone st)"
  shows "percent (publish_zone F e st) = (percent e)(lab \<mapsto> floorToTwoDecimals F (InstantPercent st))"
    and "percentEMA (publish_zone F e st) = (percentEMA e)(lab \<mapsto> floorToTwoDecimals F (EMAPercent st))"
    and "emaTimestamp (publish_zone F e st) = (case LastUpdate st of None \<Rightarrow> emaTimestamp e
           | Some t \<Rightarrow> (emaTimestamp e)(lab \<mapsto> fl_round F (of_int (t div second))))"
  unfolding lab_def by (simp_all add: publish_zone_def Let_def split: option.split)

lemma Publish_other:
  "lab \<notin> (\<lambda>st. (zs_SourceZone st, zs_DstZone st)) ` set states \<Longrightarrow>
     percent (Publish F states e) lab = percent e lab \<and> percentEMA (Publish F states e) lab = percentEMA e lab \<and>
     emaTimestamp (Publish F states e) lab = emaTimestamp e lab"
proof (induction states arbitrary: e)
  case (Cons st states)
  with Cons.IH [of "publish_zone F e st"] show ?case
    by (auto simp: Publish_def publish_zone_gauges split: option.splits)
qed (simp add: Publish_def)

lemma Publish_gauges:
  assumes "distinct (map (\<lambda>st. (zs_SourceZone st, zs_DstZone st)) states)" and "st \<in> set states"
  shows "percent (Publish F states e) (zs_SourceZone st, zs_DstZone st) = Some (floorToTwoDecimals F (InstantPercent st))"
    "percentEMA (Publish F states e) (zs_SourceZone st, zs_DstZone st) = Some (floorToTwoDecimals F (EMAPercent st))"
    "emaTimestamp (Publish F states e) (zs_SourceZone st, zs_DstZone st) =
       (case LastUpdate st of None \<Rightarrow> emaTimestamp e (zs_SourceZone st, zs_DstZone st)
        | Some t \<Rightarrow> Some (fl_round F (of_int (t div second))))"
proof -
  obtain xs ys where states: "states = xs @ st # ys" using split_list [OF assms(2)] by blast
  let ?lab = "(zs_SourceZone st, zs_DstZone st)" and ?e = "Publish F xs e"
  have P: "Publish F states e = Publish F ys (publish_zone F ?e st)" by (simp add: states Publish_def)
  have "?lab \<notin> (\<lambda>st. (zs_SourceZone st, zs_DstZone st)) ` set xs" "?lab \<notin> (\<lambda>st. (zs_SourceZone st, zs_DstZone st)) ` set ys"
    using assms(1) by (force simp: states)+
  note out = Publish_other [OF this(1), of F e] Publish_other [OF this(2), of F "publish_zone F ?e st"]
  show "percent (Publish F states e) ?lab = Some (floorToTwoDecimals F (InstantPercent st))"
    "percentEMA (Publish F states e) ?lab = Some (floorToTwoDecimals F (EMAPercent st))"
    "emaTimestamp (Publish F states e) ?lab = (case LastUpdate st of None \<Rightarrow> emaTimestamp e ?lab
        | Some t \<Rightarrow> Some (fl_round F (of_int (t div second))))"
    using out by (simp_all add: P publish_zone_gauges split: option.split)
qed

lemma update_zone_labels:
  "update_zone F c now d st = Some st' \<Longrightarrow> zs_SourceZone st' = zs_SourceZone st \<and> zs_DstZone st' = zs_DstZone st"
  by (auto simp: update_zone_def push_sample_def smooth_def Let_def split: option.splits if_splits)

lemma update_zones_labels:
  "update_zones F c now counters zs = Some zs' \<Longrightarrow>
     map (\<lambda>(n, st). (zs_SourceZone st, zs_DstZone st)) zs' = map (\<lambda>(n, st). (zs_SourceZone st, zs_DstZone st)) zs"
  by (induction F c now counters zs arbitrary: zs' rule: update_zones.induct)
    (auto split: option.splits dest: update_zone_labels)

lemma abs_update_updated: "az_updated (abs_update F c cap now d a) = None \<Longrightarrow> az_updated a = None"
  by (auto simp: abs_update_def Let_def split: if_splits)

text \<open>The records of each tick, and the counts of the zone at position \<open>i\<close> in them.\<close>

fun reader_after :: "reader_state \<Rightarrow> (read_result \<times> bool) list \<Rightarrow> reader_state" where
  "reader_after Stopped rs = Stopped"
| "reader_after st [] = st"
| "reader_after Blocking ((r, done) # rs) =
     (case r of Got raw \<Rightarrow> reader_after Draining rs
      | Closed \<Rightarrow> Stopped | _ \<Rightarrow> if done then Stopped else reader_after Blocking rs)"
| "reader_after Draining ((r, done) # rs) =
     (case r of Got raw \<Rightarrow> reader_after Draining rs
      | Deadline_exceeded \<Rightarrow> reader_after Blocking rs
      | Closed \<Rightarrow> Stopped | Read_error \<Rightarrow> if done then Stopped else reader_after Blocking rs)"

fun batches :: "reader_state \<Rightarrow> tick_input list \<Rightarrow> (int \<times> bytes list) list" where
  "batches rd [] = []"
| "batches rd (t # ts) = (ti_now t, handled rd (ti_reads t)) # batches (reader_after rd (ti_reads t)) ts"

definition zone_count :: "byte_order \<Rightarrow> (u8 \<rightharpoonup> nat) \<Rightarrow> nat \<Rightarrow> bytes list \<Rightarrow> counter_snapshot" where
  "zone_count bo ix i raws =
     \<lparr>Segments = of_nat (length (filter (known_event bo ix i) raws)),
      Retrans = of_nat (length (filter (retrans_event bo ix i) raws))\<rparr>"

lemma reader_loop_after: "reader_loop bo ix st rs acc = Some (st', acc') \<Longrightarrow> st' = reader_after st rs"
  by (induction bo ix st rs acc rule: reader_loop.induct) (auto split: read_result.splits option.splits if_splits)

text \<open>The state between two ticks: empty counters, and the abstract zones \<open>as\<close> behind the store.\<close>

definition poll_inv ::
    "float_ops \<Rightarrow> config \<Rightarrow> nat \<Rightarrow> resolved_zone list \<Rightarrow> abs_zone list \<Rightarrow> poll_state \<Rightarrow> bool" where
  "poll_inv F c cap zones as p \<longleftrightarrow>
     acc_segs (ps_acc p) = replicate (length zones) 0 \<and> acc_rets (ps_acc p) = replicate (length zones) 0 \<and>
     acc_zoneNames (ps_acc p) = map DstZone zones \<and> length as = length zones \<and>
     es_cfg (ps_ema p) = c \<and> zones_rel cap (zip (map DstZone zones) as) (es_zones (ps_ema p)) \<and>
     map (\<lambda>(n, st). (zs_SourceZone st, zs_DstZone st)) (es_zones (ps_ema p)) = map (\<lambda>z. (rz_SourceZone z, DstZone z)) zones \<and>
     (\<forall>i<length zones. emaTimestamp (ps_prom p) (rz_SourceZone (zones ! i), DstZone (zones ! i)) =
        map_option (\<lambda>t. fl_round F (of_int (t div second))) (az_updated (as ! i)))"

definition shows_zones :: "float_ops \<Rightarrow> resolved_zone list \<Rightarrow> abs_zone list \<Rightarrow> exporter \<Rightarrow> bool" where
  "shows_zones F zones as e \<longleftrightarrow>
     (\<forall>i<length zones. let lab = (rz_SourceZone (zones ! i), DstZone (zones ! i)) in
        percent e lab = Some (floorToTwoDecimals F (az_instant (as ! i))) \<and>
        percentEMA e lab = Some (floorToTwoDecimals F (az_ema (as ! i))) \<and>
        emaTimestamp e lab = map_option (\<lambda>t. fl_round F (of_int (t div second))) (az_updated (as ! i)))"

lemma poll_debug_keeps:
  assumes "poll_debug dbg u tc p = (tc', p', out)"
  shows "ps_acc p' = ps_acc p \<and> ps_ema p' = ps_ema p \<and> ps_prom p' = ps_prom p \<and> ps_tick p' = ps_tick p"
  using assms by (auto simp: poll_debug_def Let_def split: option.splits if_splits)

lemma publish_result:
  assumes "snapshotAndReset (ps_acc p) = (counters, acc)" and "Update F now counters (ps_ema p) = Some ema"
  shows "\<exists>p' out. publish F verbose now dbg p = Some (p', out) \<and> ps_acc p' = acc \<and> ps_ema p' = ema \<and>
    ps_prom p' = Publish F (Snapshot ema) (ps_prom p) \<and> ps_tick p' = ps_tick p + 1"
  using assms by (auto simp: publish_def Let_def split: prod.splits dest!: poll_debug_keeps)

lemma zones_rel_zip:
  "length ns = length as \<Longrightarrow> zones_rel cap (zip ns as) zs \<longleftrightarrow>
     length zs = length ns \<and> (\<forall>i<length ns. fst (zs ! i) = ns ! i \<and> zone_rel cap (as ! i) (snd (zs ! i)))"
  by (auto simp: zones_rel_def list_all2_conv_all_nth case_prod_unfold)

text \<open>The counters between the reader and the poll loop: what one batch adds is what the poll takes.\<close>

lemma batch_counted:
  assumes inv: "poll_inv F c cap zones as p" and dist: "distinct (map DstZone zones)"
  defines "ix \<equiv> buildZoneIndex zones"
  shows "\<exists>acc m acc'. reader_loop bo ix rd rs (ps_acc p) = Some (reader_after rd rs, acc) \<and>
    snapshotAndReset acc = (m, acc') \<and> acc_segs acc' = replicate (length zones) 0 \<and>
    acc_rets acc' = replicate (length zones) 0 \<and> acc_zoneNames acc' = map DstZone zones \<and>
    (\<forall>i<length zones. delta_of m (DstZone (zones ! i)) = zone_count bo ix i (handled rd rs)) \<and>
    acc_unknown acc' = acc_unknown (ps_acc p) + of_nat (length (filter (unknown_event bo ix) (handled rd rs)))"
proof -
  have len: "acc_segs (ps_acc p) = replicate (length zones) 0" "acc_rets (ps_acc p) = replicate (length zones) 0"
    "acc_zoneNames (ps_acc p) = map DstZone zones" using inv by (simp_all add: poll_inv_def)
  have wf: "acc_wf ix (ps_acc p)" using len by (auto simp: acc_wf_def ix_def buildZoneIndex_ran)
  from handle_all_counts [OF wf, of bo "handled rd rs"] obtain acc where
    h: "handle_all bo ix (handled rd rs) (ps_acc p) = Some acc" and wf': "acc_wf ix acc"
    and l: "length (acc_segs acc) = length zones" "acc_zoneNames acc = map DstZone zones"
    and n: "\<forall>i<length zones. acc_segs acc ! i = of_nat (length (filter (known_event bo ix i) (handled rd rs))) \<and>
       acc_rets acc ! i = of_nat (length (filter (retrans_event bo ix i) (handled rd rs)))"
    and u: "acc_unknown acc = acc_unknown (ps_acc p) + of_nat (length (filter (unknown_event bo ix) (handled rd rs)))"
    using len by auto
  from h reader_loop_handles [of bo ix rd rs "ps_acc p"] obtain st where
    r: "reader_loop bo ix rd rs (ps_acc p) = Some (st, acc)" by auto
  with reader_loop_after [OF r] have r: "reader_loop bo ix rd rs (ps_acc p) = Some (reader_after rd rs, acc)" by simp
  have "distinct (acc_zoneNames acc)" using dist l by simp
  from snapshotAndReset_eq [OF this wf'] obtain m where
    s: "snapshotAndReset acc = (m, acc\<lparr>acc_segs := replicate (length zones) 0, acc_rets := replicate (length zones) 0\<rparr>)"
    and at: "\<forall>j<length zones. m (DstZone (zones ! j)) = Some \<lparr>Segments = acc_segs acc ! j, Retrans = acc_rets acc ! j\<rparr>"
    using l by auto
  have "\<forall>i<length zones. delta_of m (DstZone (zones ! i)) = zone_count bo ix i (handled rd rs)"
    using at n by (simp add: delta_of_def zone_count_def)
  with r s l u show ?thesis by auto
qed

lemma distinct_labels:
  assumes "map (\<lambda>(n, st). (zs_SourceZone st, zs_DstZone st)) zs = map (\<lambda>z. (rz_SourceZone z, DstZone z)) zones"
    and "distinct (map DstZone zones)"
  shows "distinct (map (\<lambda>st. (zs_SourceZone st, zs_DstZone st)) (map snd zs))"
proof -
  have "map (\<lambda>st. (zs_SourceZone st, zs_DstZone st)) (map snd zs) = map (\<lambda>z. (rz_SourceZone z, DstZone z)) zones"
    using assms(1) by (simp add: comp_def case_prod_unfold)
  moreover have "distinct (map (\<lambda>z. (rz_SourceZone z, DstZone z)) zones)"
    using assms(2) by (auto simp: distinct_map inj_on_def)
  ultimately show ?thesis by simp
qed

text \<open>The gauges of one zone after its state \<open>st\<close>, of abstract value \<open>a'\<close>, is published.\<close>

lemma gauges_after:
  assumes "distinct (map (\<lambda>st. (zs_SourceZone st, zs_DstZone st)) states)" and "st \<in> set states"
    and "zone_rel cap a' st" and "l = (zs_SourceZone st, zs_DstZone st)"
    and "emaTimestamp e l = map_option (\<lambda>t. fl_round F (of_int (t div second))) (az_updated a)"
    and "az_updated a' = None \<Longrightarrow> az_updated a = None"
  shows "percent (Publish F states e) l = Some (floorToTwoDecimals F (az_instant a'))"
    "percentEMA (Publish F states e) l = Some (floorToTwoDecimals F (az_ema a'))"
    "emaTimestamp (Publish F states e) l = map_option (\<lambda>t. fl_round F (of_int (t div second))) (az_updated a')"
  using Publish_gauges [OF assms(1,2), of F e] assms(3-6)
  by (simp_all add: zone_rel_def split: option.splits)

lemma poll_step:
  fixes now :: int and rd :: reader_state and rs :: "(read_result \<times> bool) list" and bo :: byte_order
  assumes inv: "poll_inv F c cap zones as p" and dist: "distinct (map DstZone zones)"
  defines "ix \<equiv> buildZoneIndex zones"
  defines "as' \<equiv> map (\<lambda>i. abs_update F c cap now (zone_count bo ix i (handled rd rs)) (as ! i)) [0..<length zones]"
  shows "\<exists>acc p' out. reader_loop bo ix rd rs (ps_acc p) = Some (reader_after rd rs, acc) \<and>
    publish F verbose now dbg (p\<lparr>ps_acc := acc\<rparr>) = Some (p', out) \<and> poll_inv F c cap zones as' p' \<and>
    shows_zones F zones as' (ps_prom p') \<and> ps_tick p' = ps_tick p + 1"
proof -
  from batch_counted [OF inv dist, of bo rd rs] obtain acc m acc' where
    r: "reader_loop bo ix rd rs (ps_acc p) = Some (reader_after rd rs, acc)" and s: "snapshotAndReset acc = (m, acc')"
    and z: "acc_segs acc' = replicate (length zones) 0" "acc_rets acc' = replicate (length zones) 0"
      "acc_zoneNames acc' = map DstZone zones"
    and d: "\<forall>i<length zones. delta_of m (DstZone (zones ! i)) = zone_count bo ix i (handled rd rs)"
    unfolding ix_def by blast
  have la: "length as = length zones" and cfg: "es_cfg (ps_ema p) = c" using inv by (simp_all add: poll_inv_def)
  have rel: "zones_rel cap (zip (map DstZone zones) as) (es_zones (ps_ema p))" using inv by (simp add: poll_inv_def)
  have "map (\<lambda>(n, a). (n, abs_update F c cap now (delta_of m n) a)) (zip (map DstZone zones) as) = zip (map DstZone zones) as'"
    using la d by (intro nth_equalityI) (auto simp: as'_def)
  with update_zones_refines [OF rel, of F c now m] obtain zs where
    upd: "update_zones F c now m (es_zones (ps_ema p)) = Some zs" and rel': "zones_rel cap (zip (map DstZone zones) as') zs"
    by auto
  let ?ema = "(ps_ema p)\<lparr>es_zones := zs\<rparr>"
  have U: "Update F now m (ps_ema (p\<lparr>ps_acc := acc\<rparr>)) = Some ?ema" using upd cfg by (simp add: Update_def)
  have lab: "map (\<lambda>(n, st). (zs_SourceZone st, zs_DstZone st)) zs = map (\<lambda>z. (rz_SourceZone z, DstZone z)) zones"
    using update_zones_labels [OF upd] inv by (simp add: poll_inv_def)
  have s': "snapshotAndReset (ps_acc (p\<lparr>ps_acc := acc\<rparr>)) = (m, acc')" using s by simp
  from publish_result [OF s' U, of verbose dbg] obtain p' out where
    pub: "publish F verbose now dbg (p\<lparr>ps_acc := acc\<rparr>) = Some (p', out)" and p': "ps_acc p' = acc'" "ps_ema p' = ?ema"
      "ps_prom p' = Publish F (map snd zs) (ps_prom p)" "ps_tick p' = ps_tick p + 1" by (auto simp: Snapshot_def)
  have lzs: "length zs = length zones" using arg_cong [OF lab, of length] by simp
  have gauges: "percent (ps_prom p') l = Some (floorToTwoDecimals F (az_instant (as' ! i)))"
    "percentEMA (ps_prom p') l = Some (floorToTwoDecimals F (az_ema (as' ! i)))"
    "emaTimestamp (ps_prom p') l = map_option (\<lambda>t. fl_round F (of_int (t div second))) (az_updated (as' ! i))"
    if i: "i < length zones" and l: "l = (rz_SourceZone (zones ! i), DstZone (zones ! i))" for i l
  proof -
    let ?st = "snd (zs ! i)"
    have zr: "zone_rel cap (as' ! i) ?st" using rel' i by (simp add: zones_rel_zip as'_def)
    have l': "l = (zs_SourceZone ?st, zs_DstZone ?st)"
      using arg_cong [OF lab, of "\<lambda>xs. xs ! i"] i lzs l by (simp add: case_prod_unfold)
    have old: "emaTimestamp (ps_prom p) l = map_option (\<lambda>t. fl_round F (of_int (t div second))) (az_updated (as ! i))"
      using inv i l by (simp add: poll_inv_def)
    have "az_updated (as' ! i) = None \<Longrightarrow> az_updated (as ! i) = None"
      using i by (simp add: as'_def abs_update_updated)
    note g = gauges_after [OF distinct_labels [OF lab dist] _ zr l' old this]
    show "percent (ps_prom p') l = Some (floorToTwoDecimals F (az_instant (as' ! i)))"
      "percentEMA (ps_prom p') l = Some (floorToTwoDecimals F (az_ema (as' ! i)))"
      "emaTimestamp (ps_prom p') l = map_option (\<lambda>t. fl_round F (of_int (t div second))) (az_updated (as' ! i))"
      unfolding p'(3) using g i lzs by simp_all
  qed
  have "length as' = length zones" by (simp add: as'_def)
  with gauges(3) have "poll_inv F c cap zones as' p'"
    unfolding poll_inv_def p'(1,2) using z cfg rel' lab by simp
  moreover have "shows_zones F zones as' (ps_prom p')" unfolding shows_zones_def Let_def using gauges by blast
  ultimately show ?thesis using r pub p'(4) by blast
qed

lemma run_polls_shows:
  assumes "poll_inv F c cap zones as p" and "distinct (map DstZone zones)"
  shows "\<exists>p' out. run_polls F bo (buildZoneIndex zones) verbose ts rd p = Some (p', out) \<and>
    (let as' = map (\<lambda>i. run_abs F c cap (map (\<lambda>(now, raws). (now, zone_count bo (buildZoneIndex zones) i raws)) (batches rd ts)) (as ! i))
                 [0..<length zones]
     in poll_inv F c cap zones as' p' \<and> (ts = [] \<or> shows_zones F zones as' (ps_prom p'))) \<and>
    ps_tick p' = ps_tick p + of_nat (length ts)"
  using assms(1)
proof (induction ts arbitrary: rd p as)
  case Nil
  then have "map (\<lambda>i. as ! i) [0..<length zones] = as" by (metis map_nth poll_inv_def)
  with Nil show ?case by (simp add: run_abs_def)
next
  case (Cons t ts)
  let ?ix = "buildZoneIndex zones" and ?rd = "reader_after rd (ti_reads t)"
  let ?as = "map (\<lambda>i. abs_update F c cap (ti_now t) (zone_count bo ?ix i (handled rd (ti_reads t))) (as ! i)) [0..<length zones]"
  from poll_step [OF Cons.prems assms(2), where bo = bo and rd = rd and rs = "ti_reads t" and now = "ti_now t"
      and verbose = verbose and dbg = "ti_dbg t"]
  obtain acc p1 out where r: "reader_loop bo ?ix rd (ti_reads t) (ps_acc p) = Some (?rd, acc)"
    and pub: "publish F verbose (ti_now t) (ti_dbg t) (p\<lparr>ps_acc := acc\<rparr>) = Some (p1, out)"
    and inv: "poll_inv F c cap zones ?as p1" and sh: "shows_zones F zones ?as (ps_prom p1)"
    and tick: "ps_tick p1 = ps_tick p + 1" by blast
  from Cons.IH [OF inv, of ?rd] obtain p' out' where run: "run_polls F bo ?ix verbose ts ?rd p1 = Some (p', out')"
    and fin: "let as' = map (\<lambda>i. run_abs F c cap (map (\<lambda>(now, raws). (now, zone_count bo ?ix i raws)) (batches ?rd ts)) (?as ! i))
                 [0..<length zones]
     in poll_inv F c cap zones as' p' \<and> (ts = [] \<or> shows_zones F zones as' (ps_prom p'))"
    and tick': "ps_tick p' = ps_tick p1 + of_nat (length ts)" by blast
  have eq: "map (\<lambda>i. run_abs F c cap (map (\<lambda>(now, raws). (now, zone_count bo ?ix i raws)) (batches rd (t # ts))) (as ! i)) [0..<length zones] =
      map (\<lambda>i. run_abs F c cap (map (\<lambda>(now, raws). (now, zone_count bo ?ix i raws)) (batches ?rd ts)) (?as ! i)) [0..<length zones]"
    by (simp add: run_abs_def)
  have "shows_zones F zones (map (\<lambda>i. run_abs F c cap (map (\<lambda>(now, raws). (now, zone_count bo ?ix i raws)) (batches ?rd ts)) (?as ! i))
      [0..<length zones]) (ps_prom p')"
  proof (cases "ts = []")
    case True
    have "map (\<lambda>i. ?as ! i) [0..<length zones] = ?as" by (intro nth_equalityI) simp_all
    with True run sh show ?thesis by (simp add: run_abs_def shows_zones_def)
  qed (use fin in \<open>simp add: Let_def\<close>)
  with fin run r pub tick tick' show ?case unfolding eq by (simp add: Let_def)
qed

lemma poll_inv_start:
  assumes "instantWindowCap c = Some cap" and "distinct (map DstZone zones)"
  shows "\<exists>p. start_polls c zones = Some p \<and> poll_inv F c cap zones (replicate (length zones) abs_init) p \<and> ps_tick p = 0"
proof -
  let ?zs = "map (\<lambda>z. (DstZone z, new_zone cap z)) zones"
  have new: "NewEMAStore c zones = Some \<lparr>es_cfg = c, es_zones = ?zs\<rparr>"
    using foldl_update_distinct [of "[]" DstZone zones "new_zone cap"] assms by (simp add: NewEMAStore_def)
  have "zones_rel cap (zip (map DstZone zones) (replicate (length zones) abs_init)) ?zs"
    using new_zone_rel [OF cap_positive [OF assms(1)]] by (simp add: zones_rel_zip)
  then show ?thesis
    using new by (simp add: start_polls_def poll_inv_def newAccumulator_def NewExporter_def abs_init_def comp_def new_zone_def)
qed

text \<open>
  C17. From the records in the ring buffer to the metrics: however the reads are spread over the
  ticks, no step panics, and after the last tick every zone's gauges show, rounded down to two
  decimals, the instant percentage and the moving average of its abstract zone, run over the numbers
  of its segments and retransmissions among the records handled before each tick; its time stamp is
  that of the last tick with a sample in the window, and absent if there was none.
\<close>

theorem gauges_show_the_counted_records:
  assumes "PollInterval c \<noteq> 0" and "distinct (map DstZone zones)" and "ts \<noteq> []"
  shows "\<exists>cap p0 p out. instantWindowCap c = Some cap \<and> start_polls c zones = Some p0 \<and>
     run_polls F bo (buildZoneIndex zones) verbose ts Blocking p0 = Some (p, out) \<and> ps_tick p = of_nat (length ts) \<and>
     shows_zones F zones
       (map (\<lambda>i. run_abs F c cap (map (\<lambda>(now, raws). (now, zone_count bo (buildZoneIndex zones) i raws)) (batches Blocking ts)) abs_init)
          [0..<length zones]) (ps_prom p)"
proof -
  obtain cap where cap: "instantWindowCap c = Some cap" using assms(1) by (auto simp: instantWindowCap_def Let_def)
  from poll_inv_start [OF cap assms(2), of F] obtain p0 where p0: "start_polls c zones = Some p0" "ps_tick p0 = 0"
    and inv: "poll_inv F c cap zones (replicate (length zones) abs_init) p0" by blast
  from run_polls_shows [OF inv assms(2), of bo verbose ts Blocking] assms(3) p0 cap show ?thesis
    by (auto simp: Let_def shows_zones_def)
qed

theorem gauges_show_the_counted_records_witness:
  "\<exists>p0 p out. start_polls default_config sample_zones = Some p0 \<and>
     run_polls exact Little (buildZoneIndex sample_zones) False
       [\<lparr>ti_reads = [(Got [0, 0, 0, 0, 1, 1, 0, 0], False)], ti_now = 0, ti_dbg = None\<rparr>] Blocking p0 = Some (p, out) \<and>
     ps_tick p = 1"
proof -
  have "PollInterval default_config \<noteq> 0" "distinct (map DstZone sample_zones)"
    by (simp_all add: default_config_def second_def sample_zones_def)
  from gauges_show_the_counted_records [OF this, of "[\<lparr>ti_reads = [(Got [0, 0, 0, 0, 1, 1, 0, 0], False)], ti_now = 0, ti_dbg = None\<rparr>]"
      exact Little False] show ?thesis by auto
qed

end
