(* ===== verification/Rounding.thy ===== *)
theory Rounding
  imports Publish
begin

text \<open>
  What the rounding of \<^verbatim>\<open>float64\<close> does to the percentage on its way to the gauge. \<open>float_accurate\<close> is the
  relative error that IEEE 754 promises for double precision, and \<open>float64\<close> is an instance: round to nearest,
  ties to even, with 53 significant bits.
\<close>

subsection \<open>Relative error\<close>

definition float_accurate :: "float_ops \<Rightarrow> bool" where
  "float_accurate F \<longleftrightarrow>
     (\<forall>x. x = 0 \<or> 1 / 2 ^ 100 \<le> \<bar>x\<bar> \<and> \<bar>x\<bar> \<le> 2 ^ 100 \<longrightarrow> \<bar>fl_round F x - x\<bar> \<le> \<bar>x\<bar> / 2 ^ 53)"

lemma accurate_zero: "float_accurate F \<Longrightarrow> fl_round F 0 = 0"
  unfolding float_accurate_def by (drule spec [of _ 0]) simp

lemma accurate_bounds:
  assumes "float_accurate F" and "1 / 2 ^ 100 \<le> x" and "x \<le> 2 ^ 100"
  shows "x * (1 - 1 / 2 ^ 53) \<le> fl_round F x" and "fl_round F x \<le> x * (1 + 1 / 2 ^ 53)"
proof -
  have x: "0 < x" using assms(2) by (rule less_le_trans [rotated]) simp
  with assms have "\<bar>fl_round F x - x\<bar> \<le> x / 2 ^ 53" unfolding float_accurate_def by (metis abs_of_pos)
  then have "fl_round F x - x \<le> x / 2 ^ 53" "x - fl_round F x \<le> x / 2 ^ 53" by linarith+
  then show "x * (1 - 1 / 2 ^ 53) \<le> fl_round F x" "fl_round F x \<le> x * (1 + 1 / 2 ^ 53)"
    by (simp_all add: right_diff_distrib distrib_left)
qed

text \<open>Three roundings on the way from the two sums to the percentage, two more to its hundredths.\<close>

lemma hundredths_bounds:
  assumes "float_accurate F" and "0 < R" and "R \<le> S" and "S < 2 ^ 64"
  defines "q \<equiv> real R / real S"
    and "x \<equiv> fl_round F (fl_round F (fl_round F (100 * fl_round F (real R)) / fl_round F (real S)) * 100)"
  shows "10000 * q * (1 - 9 / 2 ^ 53) \<le> x \<and> x \<le> 10000 * q * (1 + 9 / 2 ^ 53)"
proof -
  note acc = accurate_bounds [OF assms(1)]
  have S: "1 \<le> real S" "real S \<le> 2 ^ 64" and R: "1 \<le> real R" "real R \<le> real S"
    using assms(2-4) by simp_all
  have q: "1 / 2 ^ 64 \<le> q" "q \<le> 1"
    using R S frac_le [of 1 "real R" "real S" "2 ^ 64"] by (simp_all add: q_def)
  define x1 where "x1 = fl_round F (real R)"
  define x2 where "x2 = fl_round F (100 * x1)"
  define x3 where "x3 = fl_round F (real S)"
  define x4 where "x4 = fl_round F (x2 / x3)"
  have x1: "real R * (1 - 1 / 2 ^ 53) \<le> x1" "x1 \<le> real R * (1 + 1 / 2 ^ 53)"
    unfolding x1_def using R S by (intro acc; simp)+
  have "100 * x1 * (1 - 1 / 2 ^ 53) \<le> x2" "x2 \<le> 100 * x1 * (1 + 1 / 2 ^ 53)"
    unfolding x2_def using x1 R S by (intro acc; simp)+
  then have x2: "real R * (100 * (1 - 2 / 2 ^ 53)) \<le> x2" "x2 \<le> real R * (100 * (1 + 3 / 2 ^ 53))"
    using x1 R by simp_all
  have x3: "real S * (1 - 1 / 2 ^ 53) \<le> x3" "x3 \<le> real S * (1 + 1 / 2 ^ 53)"
    unfolding x3_def using S by (intro acc; simp)+
  have x3_pos: "0 < x3" using x3(1) S(1) by simp
  have quot: "real R * a / (real S * b) = q * (a / b)" for a b by (simp add: q_def)
  have "real R * (100 * (1 - 2 / 2 ^ 53)) / (real S * (1 + 1 / 2 ^ 53)) \<le> x2 / x3"
    using x2(1) x3(2) x3_pos R by (intro frac_le) simp_all
  moreover have "x2 / x3 \<le> real R * (100 * (1 + 3 / 2 ^ 53)) / (real S * (1 - 1 / 2 ^ 53))"
    using x2(2) x3(1) S R by (intro frac_le) simp_all
  moreover have "q * (100 * (1 - 4 / 2 ^ 53)) \<le> q * (100 * (1 - 2 / 2 ^ 53) / (1 + 1 / 2 ^ 53))"
    "q * (100 * (1 + 3 / 2 ^ 53) / (1 - 1 / 2 ^ 53)) \<le> q * (100 * (1 + 5 / 2 ^ 53))"
    using q by (intro mult_left_mono; simp)+
  ultimately have d: "q * (100 * (1 - 4 / 2 ^ 53)) \<le> x2 / x3" "x2 / x3 \<le> q * (100 * (1 + 5 / 2 ^ 53))"
    unfolding quot by linarith+
  define w where "w = x2 / x3"
  note d = d [folded w_def]
  have "w * (1 - 1 / 2 ^ 53) \<le> x4" "x4 \<le> w * (1 + 1 / 2 ^ 53)"
    unfolding x4_def w_def [symmetric] using d q by (intro acc; simp)+
  then have x4: "q * (100 * (1 - 6 / 2 ^ 53)) \<le> x4" "x4 \<le> q * (100 * (1 + 7 / 2 ^ 53))"
    using d q by simp_all
  have "x4 * 100 * (1 - 1 / 2 ^ 53) \<le> x" "x \<le> x4 * 100 * (1 + 1 / 2 ^ 53)"
    unfolding x_def x1_def [symmetric] x2_def [symmetric] x3_def [symmetric] x4_def [symmetric]
    using x4 q by (intro acc; simp)+
  then show ?thesis using x4 q by simp
qed

text \<open>Rounding down to hundredths takes at most one of them away; what the floats add is below \<open>1 / 10^12\<close>.\<close>

lemma exported_bounds:
  assumes "float_accurate F" and "R \<le> S" and "0 < S" and "S < 2 ^ 64"
  defines "v \<equiv> fl_round F (of_int \<lfloor>fl_round F (fl_round F (fl_round F (100 * fl_round F (real R)) / fl_round F (real S)) * 100)\<rfloor> / 100)"
  shows "100 * real R / real S - 1 / 100 - 1 / 10 ^ 12 \<le> v \<and> v \<le> 100 * real R / real S + 1 / 10 ^ 12"
proof (cases "R = 0")
  case True
  then show ?thesis by (simp add: v_def accurate_zero [OF assms(1)])
next
  case False
  let ?x = "fl_round F (fl_round F (fl_round F (100 * fl_round F (real R)) / fl_round F (real S)) * 100)"
  define q where "q = real R / real S"
  have q: "0 \<le> q" "q \<le> 1" using assms(2,3) by (simp_all add: q_def)
  have "10000 * q * (1 - 9 / 2 ^ 53) \<le> ?x \<and> ?x \<le> 10000 * q * (1 + 9 / 2 ^ 53)"
    using hundredths_bounds [OF assms(1) _ assms(2,4)] False by (simp add: q_def)
  with q have x: "10000 * q - 1 / 10 ^ 11 \<le> ?x" "?x \<le> 10000 * q + 1 / 10 ^ 11" "0 \<le> ?x" by auto
  define n where "n = \<lfloor>?x\<rfloor>"
  have n: "0 \<le> n" "of_int n \<le> ?x" "?x < of_int n + 1" using x(3) by (simp_all add: n_def)
  have "\<bar>v - of_int n / 100\<bar> \<le> of_int n / 100 / 2 ^ 53"
  proof -
    have "n = 0 \<or> 1 \<le> (of_int n :: real)" using n(1) by linarith
    moreover have "(of_int n :: real) \<le> 10001"
    proof -
      have "1 / 10 ^ 11 \<le> (1 :: real)" by simp
      with n(2) x(2) q(2) show ?thesis by linarith
    qed
    ultimately have "of_int n / 100 = (0 :: real) \<or> 1 / 2 ^ 100 \<le> \<bar>of_int n / 100 :: real\<bar> \<and> \<bar>of_int n / 100 :: real\<bar> \<le> 2 ^ 100"
      by auto
    with assms(1) have "\<bar>fl_round F (of_int n / 100) - of_int n / 100\<bar> \<le> \<bar>of_int n / 100\<bar> / 2 ^ 53"
      unfolding float_accurate_def by blast
    with n(1) show ?thesis by (simp add: v_def n_def)
  qed
  moreover have "of_int n / 100 / 2 ^ 53 \<le> (1 / 10 ^ 13 :: real)" using n(2) x(2) q by simp
  ultimately have "v - of_int n / 100 \<le> 1 / 10 ^ 13" "of_int n / 100 - v \<le> 1 / 10 ^ 13" by linarith+
  moreover have "100 * real R / real S = 100 * q" by (simp add: q_def)
  ultimately show ?thesis using x n by simp
qed

subsection \<open>Double precision\<close>

definition double_round :: "real \<Rightarrow> real" where
  "double_round x =
     (if x = 0 then 0
      else let u = 2 powr (of_int \<lfloor>log 2 \<bar>x\<bar>\<rfloor> - 52) in of_int (round_even (x / u)) * u)"

definition float64 :: float_ops where
  "float64 = \<lparr>fl_round = double_round, fl_exp = (\<lambda>x. double_round (exp x))\<rparr>"

lemma round_even_near: "\<bar>of_int (round_even x) - x\<bar> \<le> 1 / 2"
  unfolding round_even_def Let_def by (auto simp: abs_le_iff)

lemma round_even_int [simp]: "round_even (of_int n) = n"
  by (simp add: round_even_def)

lemma double_round_error: "\<bar>double_round x - x\<bar> \<le> \<bar>x\<bar> / 2 ^ 53"
proof (cases "x = 0")
  case False
  let ?e = "\<lfloor>log 2 \<bar>x\<bar>\<rfloor>"
  define u where "u = (2 :: real) powr (of_int ?e - 52)"
  have u: "0 < u" by (simp add: u_def)
  have "2 powr of_int ?e \<le> 2 powr log 2 \<bar>x\<bar>" by (intro powr_mono) simp_all
  then have "2 powr of_int ?e \<le> \<bar>x\<bar>" using False by simp
  moreover have "2 powr (52 :: real) = 2 ^ 52" by (simp add: powr_numeral)
  ultimately have small: "u \<le> \<bar>x\<bar> / 2 ^ 52" by (simp add: u_def powr_diff field_simps)
  have "double_round x - x = (of_int (round_even (x / u)) - x / u) * u"
    using False u by (simp add: double_round_def u_def [symmetric] Let_def left_diff_distrib)
  then have "\<bar>double_round x - x\<bar> = \<bar>of_int (round_even (x / u)) - x / u\<bar> * u"
    using u by (simp add: abs_mult)
  also have "\<dots> \<le> 1 / 2 * u" using round_even_near u by (intro mult_right_mono) simp_all
  finally show ?thesis using small by simp
qed (simp add: double_round_def)

lemma float64_accurate: "float_accurate float64"
  using double_round_error by (simp add: float_accurate_def float64_def)

lemma exact_accurate: "float_accurate exact"
  by (simp add: float_accurate_def exact_def)

text \<open>Rounding with the exponent given.\<close>

lemma double_round_at:
  assumes "2 powr of_int e \<le> x" and "x < 2 powr (of_int e + 1)"
  shows "double_round x = of_int (round_even (x / 2 powr (of_int e - 52))) * 2 powr (of_int e - 52)"
proof -
  have x: "0 < x" using assms(1) by (rule less_le_trans [rotated]) simp
  then have "\<lfloor>log 2 x\<rfloor> = e" using assms by (simp add: floor_log_eq_powr_iff)
  with x show ?thesis by (simp add: double_round_def Let_def)
qed

text \<open>
  The multiplication by 100 before the rounding down can lose a hundredth: 29 retransmissions among 10000
  segments are 0.29 per cent, and the gauge shows 0.28.
\<close>

lemma floor_loses_a_hundredth:
  "floorToTwoDecimals float64 (double_round (2900 / 10000)) = double_round (28 / 100)"
proof -
  have p: "2 powr (of_int (- 2) - 52 :: real) = 1 / 2 ^ 54" "2 powr (of_int 4 - 52 :: real) = 1 / 2 ^ 48"
    by (simp_all add: powr_minus powr_numeral)
  have e: "2 powr of_int (- 2) \<le> (2900 / 10000 :: real)" "(2900 / 10000 :: real) < 2 powr (of_int (- 2) + 1)"
    "2 powr of_int 4 \<le> (5224175567749775 * (1 / 2 ^ 54) * 100 :: real)" "(5224175567749775 * (1 / 2 ^ 54) * 100 :: real) < 2 powr (of_int 4 + 1)"
    by (simp_all add: powr_minus powr_numeral)
  have "2900 / 10000 / (1 / 2 ^ 54) = (130604389193744384 / 25 :: real)" by simp
  moreover have "\<lfloor>130604389193744384 / 25 :: real\<rfloor> = 5224175567749775" by (simp add: floor_eq_iff)
  ultimately have "round_even (2900 / 10000 / (1 / 2 ^ 54)) = 5224175567749775" by (simp only: round_even_def Let_def) simp
  with double_round_at [OF e(1,2)] have a: "double_round (2900 / 10000) = 5224175567749775 * (1 / 2 ^ 54)" by (simp only: p)
  have "5224175567749775 * (1 / 2 ^ 54) * 100 / (1 / 2 ^ 48) = (130604389193744375 / 16 :: real)" by simp
  moreover have "\<lfloor>130604389193744375 / 16 :: real\<rfloor> = 8162774324609023" by (simp add: floor_eq_iff)
  ultimately have "round_even (5224175567749775 * (1 / 2 ^ 54) * 100 / (1 / 2 ^ 48)) = 8162774324609023"
    by (simp only: round_even_def Let_def) simp
  with double_round_at [OF e(3,4)] have b: "double_round (5224175567749775 * (1 / 2 ^ 54) * 100) = 8162774324609023 * (1 / 2 ^ 48)"
    by (simp only: p)
  have "\<lfloor>8162774324609023 * (1 / 2 ^ 48) :: real\<rfloor> = 28" by (simp add: floor_eq_iff)
  then show ?thesis unfolding floorToTwoDecimals_def float64_def float_ops.simps a b by simp
qed

lemma double_round_int:
  assumes "0 < n" and "n < 2 ^ 53"
  shows "double_round (of_int n) = of_int n"
proof -
  let ?e = "\<lfloor>log 2 (of_int n :: real)\<rfloor>"
  have n: "1 \<le> (of_int n :: real)" using assms(1) by simp
  have "0 \<le> ?e" using n by simp
  moreover have "log 2 (of_int n) < (53 :: real)"
    using assms by (subst log_less_iff) (simp_all add: powr_numeral)
  then have "?e \<le> 52" by linarith
  ultimately obtain k where k: "52 - ?e = int k" by (metis nonneg_int_cases diff_ge_0_iff_ge)
  then have "(of_int ?e - 52 :: real) = - real k" by linarith
  then have u: "2 powr (of_int ?e - 52 :: real) = 1 / 2 ^ k" by (simp add: powr_minus powr_realpow divide_inverse)
  have "round_even (of_int n / (1 / 2 ^ k)) = n * 2 ^ k"
    using round_even_int [of "n * 2 ^ k"] by simp
  then have "of_int (round_even (of_int n / (1 / 2 ^ k))) * (1 / 2 ^ k) = (of_int n :: real)" by simp
  then show ?thesis using assms(1) unfolding double_round_def Let_def by (simp only: u abs_of_pos of_int_0_less_iff of_int_eq_0_iff) simp
qed

end
