(* ===== verification/Packet_Counts.thy ===== *)
theory Packet_Counts
  imports Detection
begin

text \<open>
  What one run of the TC program does to the maps, and what the exporter reads from the debug counters
  after many: each packet belongs to one class, its class names the counters that go up by one on the
  running CPU, and the totals are the numbers of the packets in the classes.
\<close>

subsection \<open>Counters by name\<close>

datatype debug_map =
    D_seen | D_not_ipv4 | D_not_tcp | D_tcp_short | D_tcp_pure_ack | D_tcp_payload | D_no_src_zone | D_no_dst_zone | D_tcp_zoned

fun debug_of :: "debug_map \<Rightarrow> bpf_state \<Rightarrow> percpu_map" where
  "debug_of D_seen s = debug_seen s" | "debug_of D_not_ipv4 s = debug_not_ipv4 s"
| "debug_of D_not_tcp s = debug_not_tcp s" | "debug_of D_tcp_short s = debug_tcp_short s"
| "debug_of D_tcp_pure_ack s = debug_tcp_pure_ack s" | "debug_of D_tcp_payload s = debug_tcp_payload s"
| "debug_of D_no_src_zone s = debug_no_src_zone s" | "debug_of D_no_dst_zone s = debug_no_dst_zone s"
| "debug_of D_tcp_zoned s = debug_tcp_zoned s"

text \<open>The counters a packet of a class goes through.\<close>

fun class_counts :: "packet_class \<Rightarrow> debug_map set" where
  "class_counts (Dropped Not_ipv4) = {D_seen, D_not_ipv4}"
| "class_counts (Dropped Not_tcp) = {D_seen, D_not_tcp}"
| "class_counts (Dropped Tcp_short) = {D_seen, D_tcp_short}"
| "class_counts (Dropped Tcp_pure_ack) = {D_seen, D_tcp_pure_ack}"
| "class_counts No_src_zone = {D_seen, D_tcp_payload, D_no_src_zone}"
| "class_counts No_dst_zone = {D_seen, D_tcp_payload, D_no_dst_zone}"
| "class_counts (Zoned sg z) = {D_seen, D_tcp_payload, D_tcp_zoned}"

lemma counter_of_inc:
  "present (debug_seen s) \<Longrightarrow> counter (debug_of d (s\<lparr>debug_seen := debug_inc (debug_seen s) c\<rparr>)) cpu =
     counter (debug_of d s) cpu + (if c = cpu \<and> d = D_seen then 1 else 0)"
  "present (debug_not_ipv4 s) \<Longrightarrow> counter (debug_of d (s\<lparr>debug_not_ipv4 := debug_inc (debug_not_ipv4 s) c\<rparr>)) cpu =
     counter (debug_of d s) cpu + (if c = cpu \<and> d = D_not_ipv4 then 1 else 0)"
  "present (debug_not_tcp s) \<Longrightarrow> counter (debug_of d (s\<lparr>debug_not_tcp := debug_inc (debug_not_tcp s) c\<rparr>)) cpu =
     counter (debug_of d s) cpu + (if c = cpu \<and> d = D_not_tcp then 1 else 0)"
  "present (debug_tcp_short s) \<Longrightarrow> counter (debug_of d (s\<lparr>debug_tcp_short := debug_inc (debug_tcp_short s) c\<rparr>)) cpu =
     counter (debug_of d s) cpu + (if c = cpu \<and> d = D_tcp_short then 1 else 0)"
  "present (debug_tcp_pure_ack s) \<Longrightarrow> counter (debug_of d (s\<lparr>debug_tcp_pure_ack := debug_inc (debug_tcp_pure_ack s) c\<rparr>)) cpu =
     counter (debug_of d s) cpu + (if c = cpu \<and> d = D_tcp_pure_ack then 1 else 0)"
  "present (debug_tcp_payload s) \<Longrightarrow> counter (debug_of d (s\<lparr>debug_tcp_payload := debug_inc (debug_tcp_payload s) c\<rparr>)) cpu =
     counter (debug_of d s) cpu + (if c = cpu \<and> d = D_tcp_payload then 1 else 0)"
  "present (debug_no_src_zone s) \<Longrightarrow> counter (debug_of d (s\<lparr>debug_no_src_zone := debug_inc (debug_no_src_zone s) c\<rparr>)) cpu =
     counter (debug_of d s) cpu + (if c = cpu \<and> d = D_no_src_zone then 1 else 0)"
  "present (debug_no_dst_zone s) \<Longrightarrow> counter (debug_of d (s\<lparr>debug_no_dst_zone := debug_inc (debug_no_dst_zone s) c\<rparr>)) cpu =
     counter (debug_of d s) cpu + (if c = cpu \<and> d = D_no_dst_zone then 1 else 0)"
  "present (debug_tcp_zoned s) \<Longrightarrow> counter (debug_of d (s\<lparr>debug_tcp_zoned := debug_inc (debug_tcp_zoned s) c\<rparr>)) cpu =
     counter (debug_of d s) cpu + (if c = cpu \<and> d = D_tcp_zoned then 1 else 0)"
  by (cases d; simp)+

lemma debug_of_frame [simp]:
  "debug_of d (s\<lparr>bloom_bits := m\<rparr>) = debug_of d s" "debug_of d (s\<lparr>bloom_epoch := em\<rparr>) = debug_of d s"
  "debug_of d (s\<lparr>stats_rb := evs\<rparr>) = debug_of d s"
  by (cases d; simp)+

lemma debug_of_present: "counters_wf s \<Longrightarrow> present (debug_of d s)"
  by (cases d) (simp_all add: counters_wf_def)

lemma debug_of_filter_step [simp]: "debug_of d (filter_step k iv sg z s) = debug_of d s"
  by (cases d) simp_all

text \<open>Counting a class as a chain of single increments.\<close>

lemma count_class_counter:
  assumes "counters_wf s"
  shows "counter (debug_of d (count_class c cl s)) cpu =
     counter (debug_of d s) cpu + (if c = cpu \<and> d \<in> class_counts cl then 1 else 0)"
  using assms unfolding counters_wf_def
  by (cases d; cases cl rule: class_counts.cases) (simp_all add: count_class_def Let_def)

lemma egress_effect_counter:
  assumes "counters_wf s"
  shows "counter (debug_of d (egress_effect k iv s)) cpu =
     counter (debug_of d s) cpu + (if iv_cpu iv = cpu \<and> d \<in> class_counts (classify k s (iv_skb iv)) then 1 else 0)"
  using count_class_counter [OF assms, of d "iv_cpu iv" "classify k s (iv_skb iv)" cpu]
  by (cases "classify k s (iv_skb iv)") (simp_all add: egress_effect_def)

subsection \<open>One packet\<close>

lemma bits_after_key:
  assumes "bloom_bits_wf (bloom_bits s)" and "bloom_epoch s 0 = Some e" and "segment_key k sg = Some key"
  shows "fst (retrans_check k sg s) =
       (\<forall>b\<in>set (key_bits key). bloom_test_bit_gen (bloom_bits s) b (ep_gen e) \<or>
          bloom_test_bit_gen (bloom_bits s) b (ep_gen e - 1)) \<and>
     (\<forall>b\<in>set (key_bits key). bloom_test_bit_gen (snd (retrans_check k sg s)) b (ep_gen e))"
proof -
  obtain sa da sp dp q where key: "key = (sa, da, sp, dp, q)" by (cases key)
  have "retrans_check k sg s = bloom_test_and_set (bloom_epoch s) (bloom_bits s) sa da sp dp q"
    using assms(3) key by (simp add: retrans_check_Some)
  with bloom.puts_test [OF assms(1) bloom_key_bits_valid] show ?thesis
    by (simp add: key bloom_test_and_set_eq [of "bloom_epoch s" e, OF assms(2)])
qed

text \<open>
  C10. What a run of the program leaves behind. The packet belongs to exactly one class, and the counters
  of that class go up by one on the running CPU; no other counter changes, and the prefix maps never do.
  Unless source and destination lie in known zones the filter and the ring buffer are untouched. If they
  do, the epoch is rolled when it is due, an event of the interface and the zone is appended, and a segment
  with a key leaves the bits of its key in the current generation; the event reports a retransmission
  exactly if every one of these bits was there before, in the current or the previous generation.
\<close>

theorem path_egress_effects:
  assumes "counters_wf s" and "filter_wf s"
  shows "\<exists>s'. path_egress k iv s = Some (TC_ACT_UNSPEC, s') \<and> counters_wf s' \<and> filter_wf s' \<and>
     (\<forall>d cpu. counter (debug_of d s') cpu = counter (debug_of d s) cpu +
        (if iv_cpu iv = cpu \<and> d \<in> class_counts (classify k s (iv_skb iv)) then 1 else 0)) \<and>
     zone_lpm s' = zone_lpm s \<and> src_zone_lpm s' = src_zone_lpm s \<and>
     (case classify k s (iv_skb iv) of
        Zoned sg z \<Rightarrow>
          bloom_epoch s' = bloom_maybe_roll_epoch (iv_now iv) (bloom_epoch s) \<and>
          (case segment_key k sg of
             None \<Rightarrow> bloom_bits s' = bloom_bits s \<and> stats_rb s' = stats_rb s @ event_of iv z False
           | Some key \<Rightarrow> \<exists>e. bloom_epoch s' 0 = Some e \<and>
               (\<forall>b\<in>set (key_bits key). bloom_test_bit_gen (bloom_bits s') b (ep_gen e)) \<and>
               stats_rb s' = stats_rb s @ event_of iv z (\<forall>b\<in>set (key_bits key).
                 bloom_test_bit_gen (bloom_bits s) b (ep_gen e) \<or> bloom_test_bit_gen (bloom_bits s) b (ep_gen e - 1)))
      | _ \<Rightarrow> bloom_bits s' = bloom_bits s \<and> bloom_epoch s' = bloom_epoch s \<and> stats_rb s' = stats_rb s)"
proof -
  let ?s = "egress_effect k iv s" and ?em = "bloom_maybe_roll_epoch (iv_now iv) (bloom_epoch s)"
  obtain e where e: "?em 0 = Some e" using assms(2) roll_epoch_present by (fastforce simp: filter_wf_def)
  have zoned: "bloom_epoch ?s = ?em \<and>
      (case segment_key k sg of
         None \<Rightarrow> bloom_bits ?s = bloom_bits s \<and> stats_rb ?s = stats_rb s @ event_of iv z False
       | Some key \<Rightarrow> \<exists>e. bloom_epoch ?s 0 = Some e \<and>
           (\<forall>b\<in>set (key_bits key). bloom_test_bit_gen (bloom_bits ?s) b (ep_gen e)) \<and>
           stats_rb ?s = stats_rb s @ event_of iv z (\<forall>b\<in>set (key_bits key).
             bloom_test_bit_gen (bloom_bits s) b (ep_gen e) \<or> bloom_test_bit_gen (bloom_bits s) b (ep_gen e - 1)))"
    if c: "classify k s (iv_skb iv) = Zoned sg z" for sg z
  proof -
    let ?t = "count_class (iv_cpu iv) (Zoned sg z) s\<lparr>bloom_epoch := ?em\<rparr>"
    have wf: "bloom_bits_wf (bloom_bits s)" using assms(2) by (simp add: filter_wf_def)
    show ?thesis
    proof (cases "segment_key k sg")
      case None
      then show ?thesis using c by (simp add: egress_effect_def filter_step_bits retrans_check_None)
    next
      case (Some key)
      have after: "fst (retrans_check k sg ?t) =
          (\<forall>b\<in>set (key_bits key). bloom_test_bit_gen (bloom_bits s) b (ep_gen e) \<or> bloom_test_bit_gen (bloom_bits s) b (ep_gen e - 1)) \<and>
        (\<forall>b\<in>set (key_bits key). bloom_test_bit_gen (snd (retrans_check k sg ?t)) b (ep_gen e))"
        using bits_after_key [of ?t e k sg key] wf e Some by simp
      show ?thesis using c e Some after by (simp add: egress_effect_def filter_step_bits)
    qed
  qed
  have rest: "bloom_bits ?s = bloom_bits s \<and> bloom_epoch ?s = bloom_epoch s \<and> stats_rb ?s = stats_rb s"
    if "\<forall>sg z. classify k s (iv_skb iv) \<noteq> Zoned sg z"
    using that by (simp add: egress_effect_def Let_def split: packet_class.split)
  show ?thesis
    using zoned rest egress_effect_counter [OF assms(1)] counters_wf_effect [OF assms(1)] filter_wf_effect [OF assms(2)]
    by (intro exI [of _ ?s]) (simp add: path_egress_eq split: packet_class.split)
qed

theorem path_egress_effects_witness:
  "\<exists>s'. path_egress (ref_kernel Little) (sample_invocation 48 16 0x18 5) sample_state = Some (TC_ACT_UNSPEC, s') \<and>
     counter (debug_seen s') 0 = 1 \<and> counter (debug_tcp_zoned s') 0 = 1 \<and> counter (debug_not_tcp s') 0 = 0 \<and>
     counter (debug_seen s') 1 = 0 \<and> length (stats_rb s') = 1"
proof -
  let ?k = "ref_kernel Little" and ?iv = "sample_invocation 48 16 0x18 5"
  have "counters_wf sample_state" by (simp add: sample_state_def bpf_init_wf)
  from path_egress_effects [OF this sample_state_wf, of ?k ?iv] obtain s' where
    run: "path_egress ?k ?iv sample_state = Some (TC_ACT_UNSPEC, s')" and
    counts: "\<forall>d cpu. counter (debug_of d s') cpu = counter (debug_of d sample_state) cpu +
        (if iv_cpu ?iv = cpu \<and> d \<in> class_counts (classify ?k sample_state (iv_skb ?iv)) then 1 else 0)" and
    evs: "\<exists>flag. stats_rb s' = stats_rb sample_state @ event_of ?iv 1 flag"
    by (auto simp: sample_invocation_def sample_data segment_key_sample)
  have c: "classify ?k sample_state (iv_skb ?iv) = Zoned (sample_segment 16 0x18 8) 1" and cpu: "iv_cpu ?iv = 0"
    by (simp_all add: sample_invocation_def sample_data)
  have zero: "counter (debug_of d sample_state) cpu = 0" for d cpu
    by (cases d) (simp_all add: sample_state_def bpf_init_def counter_def array_map_def)
  have "counter (debug_seen s') 0 = 1" "counter (debug_tcp_zoned s') 0 = 1" "counter (debug_not_tcp s') 0 = 0"
    "counter (debug_seen s') 1 = 0"
    using counts [rule_format, of D_seen 0] counts [rule_format, of D_tcp_zoned 0]
      counts [rule_format, of D_not_tcp 0] counts [rule_format, of D_seen 1]
      zero [of D_seen] zero [of D_tcp_zoned] zero [of D_not_tcp] by (simp_all add: c cpu)
  moreover have "length (stats_rb s') = 1"
    using evs by (auto simp: event_of_def sample_invocation_def sample_state_def bpf_init_def)
  ultimately show ?thesis using run by blast
qed

subsection \<open>The totals the exporter reads\<close>

lemma sum_single:
  "distinct cpus \<Longrightarrow> c \<in> set cpus \<Longrightarrow> (\<Sum>cpu\<leftarrow>cpus. if c = cpu \<and> P then (1 :: u64) else 0) = (if P then 1 else 0)"
proof (induction cpus)
  case (Cons x cpus)
  have "(\<Sum>cpu\<leftarrow>cpus. if c = cpu \<and> P then (1 :: u64) else 0) = 0" if "c \<notin> set cpus"
    using that by (induction cpus) auto
  with Cons show ?case by auto
qed simp

lemma run_counter_total:
  assumes "counters_wf s" and "distinct cpus" and "\<forall>iv\<in>set ivs. iv_cpu iv \<in> set cpus"
  shows "(\<Sum>cpu\<leftarrow>cpus. counter (debug_of d (foldl (\<lambda>s iv. egress_effect k iv s) s ivs)) cpu) =
     (\<Sum>cpu\<leftarrow>cpus. counter (debug_of d s) cpu) +
       of_nat (length (filter (\<lambda>c. d \<in> class_counts c) (map (\<lambda>iv. classify k s (iv_skb iv)) ivs)))"
  using assms(1,3)
proof (induction ivs arbitrary: s)
  case (Cons iv ivs)
  have cls: "classify k (egress_effect k iv s) = classify k s" by (intro ext classify_cong) simp_all
  have "(\<Sum>cpu\<leftarrow>cpus. counter (debug_of d (egress_effect k iv s)) cpu) =
      (\<Sum>cpu\<leftarrow>cpus. counter (debug_of d s) cpu) + (if d \<in> class_counts (classify k s (iv_skb iv)) then 1 else 0)"
    using Cons.prems assms(2)
    by (simp add: egress_effect_counter sum_list_addf sum_single del: sum_list_0)
  with Cons.IH [of "egress_effect k iv s"] Cons.prems show ?case
    by (simp add: counters_wf_effect cls)
qed simp

lemma init_counter_zero: "(\<Sum>cpu\<leftarrow>cpus. counter (debug_of d (bpf_init dst src)) cpu) = 0"
  by (cases d; induction cpus) (simp_all add: bpf_init_def counter_def array_map_def)

lemma in_class_counts:
  "D_seen \<in> class_counts c"
  "D_not_ipv4 \<in> class_counts c \<longleftrightarrow> c = Dropped Not_ipv4" "D_not_tcp \<in> class_counts c \<longleftrightarrow> c = Dropped Not_tcp"
  "D_tcp_short \<in> class_counts c \<longleftrightarrow> c = Dropped Tcp_short" "D_tcp_pure_ack \<in> class_counts c \<longleftrightarrow> c = Dropped Tcp_pure_ack"
  "D_tcp_payload \<in> class_counts c \<longleftrightarrow> (\<forall>r. c \<noteq> Dropped r)"
  "D_no_src_zone \<in> class_counts c \<longleftrightarrow> c = No_src_zone" "D_no_dst_zone \<in> class_counts c \<longleftrightarrow> c = No_dst_zone"
  "D_tcp_zoned \<in> class_counts c \<longleftrightarrow> (\<exists>sg z. c = Zoned sg z)"
  by (cases c rule: class_counts.cases; simp)+

text \<open>
  C13. Reading the debug counters from the CPUs the packets ran on succeeds after any sequence of packets,
  and each total is the number of the packets that belong to its class, modulo the 64-bit width: all of
  them under \<^verbatim>\<open>Seen\<close>, those that passed the parsing checks under \<^verbatim>\<open>TCPPackets\<close>, and so on.
\<close>

theorem read_counters_count_packets:
  assumes "distinct cpus" and "\<forall>iv\<in>set ivs. iv_cpu iv \<in> set cpus"
  shows "\<exists>s. run_egress k ivs (bpf_init dst src) = Some s \<and>
     (let classes = map (\<lambda>iv. classify k (bpf_init dst src) (iv_skb iv)) ivs;
          n = (\<lambda>P. of_nat (length (filter P classes)))
      in ReadDebugCounters cpus s = Some
           \<lparr>dc_Seen = of_nat (length ivs), dc_NotIPv4 = n (\<lambda>c. c = Dropped Not_ipv4),
            dc_NotTCP = n (\<lambda>c. c = Dropped Not_tcp), dc_TCPShort = n (\<lambda>c. c = Dropped Tcp_short),
            dc_TCPPureAck = n (\<lambda>c. c = Dropped Tcp_pure_ack), dc_TCPPackets = n (\<lambda>c. \<forall>r. c \<noteq> Dropped r),
            dc_NoSrcZone = n (\<lambda>c. c = No_src_zone), dc_NoDstZone = n (\<lambda>c. c = No_dst_zone),
            dc_TCPZoned = n (\<lambda>c. \<exists>sg z. c = Zoned sg z)\<rparr>)"
proof -
  let ?s = "foldl (\<lambda>s iv. egress_effect k iv s) (bpf_init dst src) ivs"
  have wf: "counters_wf ?s" using counters_run [OF bpf_init_wf(1,2)] by auto
  have total: "sumPerCPU (debug_of d ?s) cpus =
      Some (of_nat (length (filter (\<lambda>c. d \<in> class_counts c) (map (\<lambda>iv. classify k (bpf_init dst src) (iv_skb iv)) ivs))))" for d
    using run_counter_total [OF bpf_init_wf(1) assms, of d k dst src]
    by (simp add: sumPerCPU_eq debug_of_present [OF wf] init_counter_zero)
  note totals = total [of D_seen] total [of D_not_ipv4] total [of D_not_tcp] total [of D_tcp_short]
    total [of D_tcp_pure_ack] total [of D_tcp_payload] total [of D_no_src_zone] total [of D_no_dst_zone] total [of D_tcp_zoned]
  from totals show ?thesis
    by (simp add: run_egress_eq ReadDebugCounters_def in_class_counts Let_def del: filter_map)
qed

text \<open>Two data segments, one on each of two CPUs.\<close>

theorem read_counters_count_packets_witness:
  "\<exists>s dc. run_egress (ref_kernel Little)
        [sample_invocation 48 16 0x18 5, (sample_invocation 48 16 0x18 9)\<lparr>iv_cpu := 1\<rparr>] sample_state = Some s \<and>
     ReadDebugCounters [0, 1] s = Some dc \<and> dc_Seen dc = 2 \<and> dc_TCPPackets dc = 2 \<and> dc_TCPZoned dc = 2 \<and>
     dc_NotTCP dc = 0"
proof -
  let ?ivs = "[sample_invocation 48 16 0x18 5, (sample_invocation 48 16 0x18 9)\<lparr>iv_cpu := 1\<rparr>]"
  let ?d = "[lpm_canon Little (32 :: u32, word_of_mem Little [10, 1, 2, 3]) \<mapsto> 1 :: u8]"
  let ?s = "[lpm_canon Little (32 :: u32, word_of_mem Little [192, 168, 0, 1]) \<mapsto> 3 :: u8]"
  have "distinct [0, 1 :: nat]" and "\<forall>iv\<in>set ?ivs. iv_cpu iv \<in> set [0, 1]" by (simp_all add: sample_invocation_def)
  from read_counters_count_packets [OF this, of "ref_kernel Little" ?d ?s, folded sample_state_def]
  show ?thesis by (auto simp: Let_def sample_invocation_def sample_data)
qed

end
