(* ===== verification/Interfaces.thy ===== *)
theory Interfaces
  imports Config "HOL-Library.Multiset"
begin

text \<open>
  \<^verbatim>\<open>internal/config/interfaces.go\<close>: the interfaces the program is attached to, from the configuration
  or discovered.

  The system is the parameter \<open>host\<close>: \<^verbatim>\<open>net.InterfaceByName\<close>, \<^verbatim>\<open>net.Interfaces\<close>, \<^verbatim>\<open>os.Stat\<close> and
  \<^verbatim>\<open>os.ReadFile\<close>. The names of network interfaces contain no slash and are not dots, so
  \<^verbatim>\<open>filepath.Join\<close> is concatenation with slashes. File contents are ASCII.
\<close>

subsection \<open>The host\<close>

record net_iface =
  if_Name :: string
  if_Flags :: u32

definition FlagUp :: u32 where
  "FlagUp = 1"

definition FlagLoopback :: u32 where
  "FlagLoopback = 4"

record host =
  ho_InterfaceByName :: "string \<Rightarrow> net_iface option"
  ho_Interfaces :: "net_iface list option"
  ho_Stat :: "string \<Rightarrow> bool"
  ho_ReadFile :: "string \<Rightarrow> string option"

datatype iface_error =
  Lookup_failed string | Not_up string | No_interfaces_configured | List_interfaces | No_transit_interfaces

subsection \<open>Go library functions\<close>

definition is_space :: "char \<Rightarrow> bool" where
  "is_space c \<longleftrightarrow> c \<in> {CHR 0x09, CHR 0x0a, CHR 0x0b, CHR 0x0c, CHR 0x0d, CHR '' ''}"

definition TrimSpace :: "string \<Rightarrow> string" where
  "TrimSpace s = rev (dropWhile is_space (rev (dropWhile is_space s)))"

fun decimal :: "int \<Rightarrow> string \<Rightarrow> int option" where
  "decimal n [] = Some n"
| "decimal n (c # cs) = (if is_digit c then decimal (10 * n + int (digit_val c)) cs else None)"

text \<open>\<^verbatim>\<open>strconv.Atoi\<close> with a 64-bit \<^verbatim>\<open>int\<close>: an optional sign, at least one digit, no overflow.\<close>

definition Atoi :: "string \<Rightarrow> int option" where
  "Atoi s =
     (let (neg, ds) = (case s of [] \<Rightarrow> (False, [])
                       | c # cs \<Rightarrow> if c = CHR ''-'' then (True, cs) else if c = CHR ''+'' then (False, cs) else (False, s))
      in if ds = [] then None
         else case decimal 0 ds of
                None \<Rightarrow> None
              | Some n \<Rightarrow> let v = (if neg then - n else n) in if - (2 ^ 63) \<le> v \<and> v < 2 ^ 63 then Some v else None)"

subsection \<open>Interfaces\<close>

definition arphrdEther :: int where
  "arphrdEther = 1"

definition defaultIgnorePatterns :: "string list" where
  "defaultIgnorePatterns =
     [''lo'', ''docker0'', ''br-*'', ''veth*'', ''dummy*'', ''tun*'', ''tap*'', ''cilium*'', ''flannel*'',
      ''cni*'', ''kube*'', ''calico*'']"

fun resolve_loop :: "host \<Rightarrow> string list \<Rightarrow> string list \<Rightarrow> iface_error + string list" where
  "resolve_loop h [] out = Inr out"
| "resolve_loop h (name # names) out =
     (if name = '''' then resolve_loop h names out
      else if name \<in> set out then resolve_loop h names out
      else case ho_InterfaceByName h name of
             None \<Rightarrow> Inl (Lookup_failed name)
           | Some iface \<Rightarrow>
               if if_Flags iface AND FlagUp = 0 then Inl (Not_up name)
               else resolve_loop h names (out @ [name]))"

definition resolveInterfaceNames :: "host \<Rightarrow> string list \<Rightarrow> iface_error + string list" where
  "resolveInterfaceNames h names =
     (case resolve_loop h names [] of
        Inl e \<Rightarrow> Inl e
      | Inr out \<Rightarrow> if length out = 0 then Inl No_interfaces_configured else Inr (sort out))"

definition isWireguard :: "host \<Rightarrow> string \<Rightarrow> bool" where
  "isWireguard h name = ho_Stat h (''/sys/class/net/'' @ name @ ''/wireguard'')"

definition isEthernet :: "host \<Rightarrow> string \<Rightarrow> bool" where
  "isEthernet h name =
     (case ho_ReadFile h (''/sys/class/net/'' @ name @ ''/type'') of
        None \<Rightarrow> False
      | Some data \<Rightarrow> (case Atoi (TrimSpace data) of None \<Rightarrow> False | Some typ \<Rightarrow> typ = arphrdEther))"

fun discover_loop :: "host \<Rightarrow> net_iface list \<Rightarrow> string list" where
  "discover_loop h [] = []"
| "discover_loop h (iface # ifaces) =
     (if if_Flags iface AND FlagLoopback \<noteq> 0 then discover_loop h ifaces
      else if if_Flags iface AND FlagUp = 0 then discover_loop h ifaces
      else if ShouldIgnore (if_Name iface) defaultIgnorePatterns then discover_loop h ifaces
      else if isWireguard h (if_Name iface) \<or> isEthernet h (if_Name iface)
      then if_Name iface # discover_loop h ifaces
      else discover_loop h ifaces)"

definition DiscoverTransitInterfaces :: "host \<Rightarrow> iface_error + string list" where
  "DiscoverTransitInterfaces h =
     (case ho_Interfaces h of
        None \<Rightarrow> Inl List_interfaces
      | Some ifaces \<Rightarrow>
          let names = discover_loop h ifaces
          in if length names = 0 then Inl No_transit_interfaces else Inr (sort names))"

definition TransitInterfaceNames :: "host \<Rightarrow> config \<Rightarrow> iface_error + string list" where
  "TransitInterfaceNames h c =
     (if length (Interfaces c) > 0 then resolveInterfaceNames h (Interfaces c) else DiscoverTransitInterfaces h)"

subsection \<open>What is attached to\<close>

definition iface_up :: "host \<Rightarrow> string \<Rightarrow> bool" where
  "iface_up h name = (case ho_InterfaceByName h name of None \<Rightarrow> False | Some i \<Rightarrow> if_Flags i AND FlagUp \<noteq> 0)"

definition transit :: "host \<Rightarrow> net_iface \<Rightarrow> bool" where
  "transit h i \<longleftrightarrow>
     if_Flags i AND FlagLoopback = 0 \<and> if_Flags i AND FlagUp \<noteq> 0 \<and>
     \<not> ShouldIgnore (if_Name i) defaultIgnorePatterns \<and> (isWireguard h (if_Name i) \<or> isEthernet h (if_Name i))"

lemma resolve_loop_Inr:
  "resolve_loop h names out = Inr r \<Longrightarrow> distinct out \<Longrightarrow> \<forall>n\<in>set out. iface_up h n \<Longrightarrow>
     distinct r \<and> set r = set out \<union> (set names - {''''}) \<and> (\<forall>n\<in>set r. iface_up h n)"
proof (induction h names out rule: resolve_loop.induct)
  case (2 h name names out)
  then show ?case
    by (cases "ho_InterfaceByName h name") (auto simp: iface_up_def split: if_splits)
qed auto

lemma resolve_loop_succeeds: "\<forall>n\<in>set names - {''''}. iface_up h n \<Longrightarrow> \<exists>r. resolve_loop h names out = Inr r"
proof (induction h names out rule: resolve_loop.induct)
  case (2 h name names out)
  have up: "name = '''' \<or> iface_up h name" and rest: "\<forall>n\<in>set names - {''''}. iface_up h n" using "2.prems" by auto
  show ?case
  proof (cases "name = '''' \<or> name \<in> set out")
    case True
    with "2.IH"(1) [OF _ rest] "2.IH"(2) [OF _ _ rest] show ?thesis by auto
  next
    case False
    with up obtain i where "ho_InterfaceByName h name = Some i" "if_Flags i AND FlagUp \<noteq> 0"
      by (auto simp: iface_up_def split: option.splits)
    with "2.IH"(3) [OF _ _ _ _ rest] False show ?thesis by simp
  qed
qed simp

lemma resolveInterfaceNames_iff:
  "resolveInterfaceNames h names = Inr out \<longleftrightarrow>
     out \<noteq> [] \<and> sorted out \<and> distinct out \<and> set out = set names - {''''} \<and> (\<forall>n\<in>set out. iface_up h n)"
proof
  assume "resolveInterfaceNames h names = Inr out"
  then obtain r where r: "resolve_loop h names [] = Inr r" and out: "out = sort r" "r \<noteq> []"
    by (auto simp: resolveInterfaceNames_def split: sum.splits if_splits)
  have "sort r \<noteq> []" using out(2) by (metis length_0_conv length_sort)
  with resolve_loop_Inr [OF r] show "out \<noteq> [] \<and> sorted out \<and> distinct out \<and> set out = set names - {''''} \<and> (\<forall>n\<in>set out. iface_up h n)"
    by (simp add: out(1))
next
  assume out: "out \<noteq> [] \<and> sorted out \<and> distinct out \<and> set out = set names - {''''} \<and> (\<forall>n\<in>set out. iface_up h n)"
  then obtain r where r: "resolve_loop h names [] = Inr r" using resolve_loop_succeeds [of names h "[]"] by metis
  with resolve_loop_Inr [OF r] out have "distinct r" "set r = set out" by auto
  moreover from this out have "sort r = out" by (intro sorted_distinct_set_unique) auto
  ultimately show "resolveInterfaceNames h names = Inr out" using r out by (auto simp: resolveInterfaceNames_def)
qed

lemma discover_loop_filter: "discover_loop h ifaces = map if_Name (filter (transit h) ifaces)"
  by (induction ifaces) (auto simp: transit_def)

text \<open>
  C27. The interfaces to attach to: with interfaces in the configuration, exactly the named ones
  (empty names apart), each once, in order, and only if each of them exists and is up; otherwise
  exactly the interfaces of the host that are up, not loopback, not on the list of patterns to ignore
  and WireGuard or Ethernet. An empty result is an error.
\<close>

theorem transit_interfaces:
  "TransitInterfaceNames h c = Inr out \<longleftrightarrow>
     out \<noteq> [] \<and> sorted out \<and>
     (if Interfaces c \<noteq> []
      then distinct out \<and> set out = set (Interfaces c) - {''''} \<and> list_all (iface_up h) out
      else case ho_Interfaces h of
             None \<Rightarrow> False
           | Some ifaces \<Rightarrow> mset out = mset (map if_Name (filter (transit h) ifaces)))"
proof (cases "Interfaces c = []")
  case True
  have eq: "sort xs = out \<longleftrightarrow> sorted out \<and> mset out = mset xs" for xs :: "string list"
    by (metis mset_sort properties_for_sort sorted_sort)
  show ?thesis
  proof (cases "ho_Interfaces h")
    case (Some ifaces)
    let ?xs = "map if_Name (filter (transit h) ifaces)"
    have "?xs = [] \<longleftrightarrow> out = []" if "mset out = mset ?xs" using that by (metis mset_zero_iff)
    then show ?thesis using True Some eq [of ?xs]
      by (auto simp: TransitInterfaceNames_def DiscoverTransitInterfaces_def discover_loop_filter Let_def)
  qed (use True in \<open>simp add: TransitInterfaceNames_def DiscoverTransitInterfaces_def\<close>)
next
  case False
  then show ?thesis
    by (auto simp: TransitInterfaceNames_def resolveInterfaceNames_iff list_all_iff)
qed

lemma TransitInterfaceNames_nonempty: "TransitInterfaceNames h c = Inr names \<Longrightarrow> names \<noteq> []"
  by (auto simp: TransitInterfaceNames_def resolveInterfaceNames_def DiscoverTransitInterfaces_def Let_def
      split: if_splits sum.splits option.splits dest: arg_cong [where f = length])

lemma TransitInterfaceNames_distinct:
  assumes "TransitInterfaceNames h c = Inr names"
    and "\<forall>ifs. ho_Interfaces h = Some ifs \<longrightarrow> distinct (map if_Name ifs)"
  shows "distinct names"
proof (cases "length (Interfaces c) > 0")
  case True
  with assms(1) obtain out where "resolve_loop h (Interfaces c) [] = Inr out" "names = sort out"
    by (auto simp: TransitInterfaceNames_def resolveInterfaceNames_def split: sum.splits if_splits)
  with resolve_loop_Inr [of h "Interfaces c" "[]" out] show ?thesis by simp
next
  case False
  with assms(1) obtain ifs where "ho_Interfaces h = Some ifs" "names = sort (discover_loop h ifs)"
    by (auto simp: TransitInterfaceNames_def DiscoverTransitInterfaces_def Let_def split: option.splits if_splits)
  with assms(2) show ?thesis by (simp add: discover_loop_filter distinct_map_filter)
qed

end
