(* ===== verification/Attach.thy ===== *)
theory Attach
  imports Prelude
begin

text \<open>
  \<^verbatim>\<open>internal/tcattach/attach.go\<close> and the links of \<^verbatim>\<open>bpf.Collection\<close>: attaching the TC program to
  the egress side of the interfaces, detaching it, and removing what a crashed instance left behind.

  The packages \<^verbatim>\<open>netlink\<close>, \<^verbatim>\<open>net\<close> and \<^verbatim>\<open>link\<close> and the kernel behind them are the parameter \<open>N\<close>, a
  record of the calls the code makes, over a type of worlds. What the code relies on are the laws of
  the locale \<open>tc_kernel\<close>; \<open>reliable_tc_kernel\<close> adds that deleting a listed filter succeeds. A
  \<^verbatim>\<open>clsactFilter\<close> is shared by the attachment and the collection, which both close it, so these
  objects live in a heap and are referred to by their position.
\<close>

subsection \<open>The interface to the kernel\<close>

record bpf_filter =
  bf_Fd :: int
  bf_Name :: string
  bf_Tag :: string
  bf_DirectAction :: bool

text \<open>A \<^verbatim>\<open>netlink.Filter\<close>; \<open>tf_bpf\<close> is present when its type is \<^verbatim>\<open>*netlink.BpfFilter\<close>.\<close>

record tc_filter =
  tf_LinkIndex :: nat
  tf_Parent :: u32
  tf_Handle :: u32
  tf_Protocol :: u16
  tf_Priority :: u16
  tf_bpf :: "bpf_filter option"

record qdisc =
  qd_LinkIndex :: nat
  qd_Handle :: u32
  qd_Parent :: u32
  qd_Type :: string

datatype qdisc_error = EEXIST | Qdisc_errno

record prog_info =
  pi_Name :: string
  pi_Tag :: string

record 'w netlink =
  nl_InterfaceByName :: "'w \<Rightarrow> string \<Rightarrow> nat option"
  nl_LinkByIndex :: "'w \<Rightarrow> nat \<Rightarrow> bool"
  nl_FilterList :: "'w \<Rightarrow> nat \<Rightarrow> u32 \<Rightarrow> tc_filter list option"
  nl_FilterAdd :: "'w \<Rightarrow> tc_filter \<Rightarrow> 'w option"
  nl_FilterDel :: "'w \<Rightarrow> tc_filter \<Rightarrow> 'w option"
  nl_QdiscAdd :: "'w \<Rightarrow> qdisc \<Rightarrow> qdisc_error option \<times> 'w"
  nl_QdiscList :: "'w \<Rightarrow> nat \<Rightarrow> qdisc list option"
  nl_AttachTCX :: "'w \<Rightarrow> nat \<Rightarrow> int \<Rightarrow> (u32 \<times> 'w) option"
  nl_LinkClose :: "'w \<Rightarrow> u32 \<Rightarrow> bool \<times> 'w"
  nl_ProgTag :: "int \<Rightarrow> string"

definition HANDLE_CLSACT :: u32 where
  "HANDLE_CLSACT = 0xFFFFFFF1"

definition HANDLE_MIN_EGRESS :: u32 where
  "HANDLE_MIN_EGRESS = 0xFFFFFFF3"

definition MakeHandle :: "u16 \<Rightarrow> u16 \<Rightarrow> u32" where
  "MakeHandle major minor = push_bit 16 (ucast major) OR ucast minor"

definition ETH_P_ALL :: u16 where
  "ETH_P_ALL = 3"

definition AttachTCXEgress :: u32 where
  "AttachTCXEgress = 47"

subsection \<open>Filter handles and the clsact qdisc\<close>

datatype attach_error =
  Interface_error string | Attach_clsact string attach_error | Netlink_lookup | Add_clsact_qdisc
  | List_qdiscs | Non_clsact_qdisc string | List_filters | No_free_handles | Add_bpf_filter
  | Lookup_index nat | Delete_filter | Handle_not_found u32 string | Link_close | Attach_TCX
  | Program_info | No_program_tag | Own_program_tag attach_error | Delete_stale_filter string

definition filterHandleBase :: u32 where
  "filterHandleBase = 0x1600"

function scan_handles :: "u32 list \<Rightarrow> u32 \<Rightarrow> u32 option" where
  "scan_handles used handle =
     (if handle < 0xffff
      then (if handle \<notin> set used then Some handle else scan_handles used (handle + 1))
      else None)"
  by auto
termination
proof (relation "measure (\<lambda>(used, handle). 0xffff - unat handle)")
  fix used and handle :: u32
  assume "handle < 0xffff"
  then have "unat handle < 0xffff" by (simp add: word_less_nat_alt)
  then have "unat (handle + 1) = unat handle + 1" by (simp add: unat_word_ariths)
  with \<open>unat handle < 0xffff\<close> show "((used, handle + 1), used, handle) \<in> measure (\<lambda>(used, handle). 0xffff - unat handle)"
    by simp
qed simp

declare scan_handles.simps [simp del]

definition nextFilterHandle :: "'w netlink \<Rightarrow> 'w \<Rightarrow> nat \<Rightarrow> u32 \<Rightarrow> attach_error + u32" where
  "nextFilterHandle N w link parent =
     (case nl_FilterList N w link parent of
        None \<Rightarrow> Inl List_filters
      | Some filters \<Rightarrow>
          (case scan_handles (map tf_Handle filters) filterHandleBase of
             Some handle \<Rightarrow> Inr handle
           | None \<Rightarrow> Inl No_free_handles))"

definition verifyClsAct :: "'w netlink \<Rightarrow> 'w \<Rightarrow> nat \<Rightarrow> attach_error option" where
  "verifyClsAct N w link =
     (case nl_QdiscList N w link of
        None \<Rightarrow> Some List_qdiscs
      | Some qdiscs \<Rightarrow>
          (case find (\<lambda>q. qd_Parent q = HANDLE_CLSACT) qdiscs of
             Some q \<Rightarrow> if qd_Type q = ''clsact'' then None else Some (Non_clsact_qdisc (qd_Type q))
           | None \<Rightarrow> None))"

definition ensureClsAct :: "'w netlink \<Rightarrow> 'w \<Rightarrow> nat \<Rightarrow> attach_error option \<times> 'w" where
  "ensureClsAct N w link =
     (case nl_QdiscAdd N w \<lparr>qd_LinkIndex = link, qd_Handle = MakeHandle 0xffff 0,
                            qd_Parent = HANDLE_CLSACT, qd_Type = ''clsact''\<rparr> of
        (None, w') \<Rightarrow> (None, w')
      | (Some EEXIST, w') \<Rightarrow> (verifyClsAct N w' link, w')
      | (Some Qdisc_errno, w') \<Rightarrow> (Some Add_clsact_qdisc, w'))"

subsection \<open>Filters, attachments and the collection\<close>

record clsactFilter =
  cf_ifaceName :: string
  cf_ifaceIdx :: nat
  cf_handle :: u32
  cf_parent :: u32

definition clsact_Close :: "'w netlink \<Rightarrow> 'w \<Rightarrow> clsactFilter \<Rightarrow> attach_error option \<times> clsactFilter \<times> 'w" where
  "clsact_Close N w c =
     (if cf_handle c = 0 then (None, c, w)
      else if \<not> nl_LinkByIndex N w (cf_ifaceIdx c) then (Some (Lookup_index (cf_ifaceIdx c)), c, w)
      else case nl_FilterList N w (cf_ifaceIdx c) (cf_parent c) of
             None \<Rightarrow> (Some List_filters, c, w)
           | Some filters \<Rightarrow>
               (case find (\<lambda>f. tf_Handle f = cf_handle c) filters of
                  None \<Rightarrow> (Some (Handle_not_found (cf_handle c) (cf_ifaceName c)), c, w)
                | Some f \<Rightarrow>
                    (case nl_FilterDel N w f of
                       None \<Rightarrow> (Some Delete_filter, c, w)
                     | Some w' \<Rightarrow> (None, c\<lparr>cf_handle := 0\<rparr>, w'))))"

definition attachClsActEgress ::
    "'w netlink \<Rightarrow> 'w \<Rightarrow> string \<Rightarrow> nat \<Rightarrow> int \<Rightarrow> (attach_error + clsactFilter) \<times> 'w" where
  "attachClsActEgress N w ifaceName ifaceIdx progFD =
     (if \<not> nl_LinkByIndex N w ifaceIdx then (Inl Netlink_lookup, w)
      else case ensureClsAct N w ifaceIdx of
             (Some e, w) \<Rightarrow> (Inl e, w)
           | (None, w) \<Rightarrow>
               let parent = HANDLE_MIN_EGRESS in
               (case nextFilterHandle N w ifaceIdx parent of
                  Inl e \<Rightarrow> (Inl e, w)
                | Inr handle \<Rightarrow>
                    (case nl_FilterAdd N w
                        \<lparr>tf_LinkIndex = ifaceIdx, tf_Parent = parent, tf_Handle = handle,
                         tf_Protocol = ETH_P_ALL, tf_Priority = 1,
                         tf_bpf = Some \<lparr>bf_Fd = progFD, bf_Name = ''path_egress'', bf_Tag = '''', bf_DirectAction = True\<rparr>\<rparr> of
                       None \<Rightarrow> (Inl Add_bpf_filter, w)
                     | Some w \<Rightarrow>
                         (Inr \<lparr>cf_ifaceName = ifaceName, cf_ifaceIdx = ifaceIdx, cf_handle = handle, cf_parent = parent\<rparr>, w))))"

datatype closer = TCX_link u32 | Clsact_filter nat

record attachment =
  at_link :: "u32 option"
  at_clsact :: "nat option"
  at_ifaceIdx :: nat

record 'w attach_state =
  st_world :: 'w
  cls_heap :: "clsactFilter list"
  coll_links :: "closer list"

definition AddLink :: "closer \<Rightarrow> 'w attach_state \<Rightarrow> 'w attach_state" where
  "AddLink l s = s\<lparr>coll_links := coll_links s @ [l]\<rparr>"

definition AttachEgress ::
    "'w netlink \<Rightarrow> string \<Rightarrow> int \<Rightarrow> 'w attach_state \<Rightarrow> (attach_error + attachment) \<times> 'w attach_state" where
  "AttachEgress N ifaceName progFD s =
     (case nl_InterfaceByName N (st_world s) ifaceName of
        None \<Rightarrow> (Inl (Interface_error ifaceName), s)
      | Some idx \<Rightarrow>
          (case attachClsActEgress N (st_world s) ifaceName idx progFD of
             (Inl e, w) \<Rightarrow> (Inl (Attach_clsact ifaceName e), s\<lparr>st_world := w\<rparr>)
           | (Inr cls, w) \<Rightarrow>
               let r = length (cls_heap s);
                   s = AddLink (Clsact_filter r) (s\<lparr>st_world := w, cls_heap := cls_heap s @ [cls]\<rparr>)
               in (Inr \<lparr>at_link = None, at_clsact = Some r, at_ifaceIdx = idx\<rparr>, s)))"

definition attachTCXEgress ::
    "'w netlink \<Rightarrow> nat \<Rightarrow> int \<Rightarrow> 'w attach_state \<Rightarrow> (attach_error + attachment) \<times> 'w attach_state" where
  "attachTCXEgress N idx progFD s =
     (case nl_AttachTCX N (st_world s) idx progFD of
        None \<Rightarrow> (Inl Attach_TCX, s)
      | Some (l, w) \<Rightarrow>
          (Inr \<lparr>at_link = Some l, at_clsact = None, at_ifaceIdx = idx\<rparr>, AddLink (TCX_link l) (s\<lparr>st_world := w\<rparr>)))"

text \<open>Closing through a reference; \<open>None\<close> in the heap cannot happen for a reference the code made.\<close>

definition close_link :: "'w netlink \<Rightarrow> u32 \<Rightarrow> 'w attach_state \<Rightarrow> attach_error option \<times> 'w attach_state" where
  "close_link N l s =
     (let (ok, w) = nl_LinkClose N (st_world s) l in (if ok then None else Some Link_close, s\<lparr>st_world := w\<rparr>))"

definition close_clsact :: "'w netlink \<Rightarrow> nat \<Rightarrow> 'w attach_state \<Rightarrow> attach_error option \<times> 'w attach_state" where
  "close_clsact N r s =
     (if r < length (cls_heap s)
      then let (e, c, w) = clsact_Close N (st_world s) (cls_heap s ! r)
           in (e, s\<lparr>st_world := w, cls_heap := (cls_heap s)[r := c]\<rparr>)
      else (None, s))"

definition Attachment_Close :: "'w netlink \<Rightarrow> attachment \<Rightarrow> 'w attach_state \<Rightarrow> attach_error option \<times> 'w attach_state" where
  "Attachment_Close N a s =
     (case at_link a of
        Some l \<Rightarrow> close_link N l s
      | None \<Rightarrow> (case at_clsact a of Some r \<Rightarrow> close_clsact N r s | None \<Rightarrow> (None, s)))"

fun close_all :: "'w netlink \<Rightarrow> attachment list \<Rightarrow> 'w attach_state \<Rightarrow> 'w attach_state" where
  "close_all N [] s = s"
| "close_all N (a # as) s = close_all N as (snd (Attachment_Close N a s))"

fun attach_loop ::
    "'w netlink \<Rightarrow> int \<Rightarrow> string list \<Rightarrow> attachment list \<Rightarrow> 'w attach_state \<Rightarrow>
     (attach_error + attachment list) \<times> 'w attach_state" where
  "attach_loop N progFD [] attachments s = (Inr attachments, s)"
| "attach_loop N progFD (name # names) attachments s =
     (case AttachEgress N name progFD s of
        (Inl e, s) \<Rightarrow> (Inl e, close_all N attachments s)
      | (Inr a, s) \<Rightarrow> attach_loop N progFD names (attachments @ [a]) s)"

definition AttachAll ::
    "'w netlink \<Rightarrow> string list \<Rightarrow> int \<Rightarrow> 'w attach_state \<Rightarrow> (attach_error + attachment list) \<times> 'w attach_state" where
  "AttachAll N names progFD s = attach_loop N progFD names [] s"

text \<open>\<^verbatim>\<open>Collection.Close\<close>; \<open>objs\<close> is the result of closing the loaded objects.\<close>

fun close_links :: "'w netlink \<Rightarrow> closer list \<Rightarrow> attach_error option \<Rightarrow> 'w attach_state \<Rightarrow> attach_error option \<times> 'w attach_state" where
  "close_links N [] first s = (first, s)"
| "close_links N (l # ls) first s =
     (let (e, s) = (case l of TCX_link i \<Rightarrow> close_link N i s | Clsact_filter r \<Rightarrow> close_clsact N r s)
      in close_links N ls (if e \<noteq> None \<and> first = None then e else first) s)"

definition Collection_Close :: "'w netlink \<Rightarrow> attach_error option \<Rightarrow> 'w attach_state \<Rightarrow> attach_error option \<times> 'w attach_state" where
  "Collection_Close N objs s =
     (let (first, s) = close_links N (coll_links s) None s
      in (if objs \<noteq> None \<and> first = None then objs else first, s))"

subsection \<open>Cleaning up after a crash\<close>

definition isStaleEgressProg :: "string \<Rightarrow> bool" where
  "isStaleEgressProg name \<longleftrightarrow> HasPrefix name ''path_egress'' \<or> HasPrefix name ''transit_egress''"

text \<open>\<open>pinfo\<close> is the result of \<^verbatim>\<open>prog.Info\<close>.\<close>

definition programTag :: "prog_info option \<Rightarrow> attach_error + string" where
  "programTag pinfo =
     (case pinfo of
        None \<Rightarrow> Inl Program_info
      | Some info \<Rightarrow> if pi_Tag info = '''' then Inl No_program_tag else Inr (pi_Tag info))"

text \<open>Recognising an old kernel from the text of an error; \<^verbatim>\<open>None\<close> is \<^verbatim>\<open>nil\<close>. Nothing calls it.\<close>

definition isTCXUnsupported :: "string option \<Rightarrow> bool" where
  "isTCXUnsupported err =
     (case err of
        None \<Rightarrow> False
      | Some text \<Rightarrow>
          let msg = ToLower text
          in Contains msg ''tcx not supported'' \<or> Contains msg ''not supported'' \<and> Contains msg ''tcx'')"

lemma isTCXUnsupported_iff:
  "isTCXUnsupported (Some text) \<longleftrightarrow> Contains (ToLower text) ''not supported'' \<and> Contains (ToLower text) ''tcx''"
proof -
  have "Contains msg ''not supported'' \<and> Contains msg ''tcx''" if c: "Contains msg ''tcx not supported''" for msg
  proof -
    from c obtain a b where "msg = a @ ''tcx not supported'' @ b" by (auto simp: Contains_iff)
    then have "msg = (a @ ''tcx '') @ ''not supported'' @ b" "msg = a @ ''tcx'' @ ('' not supported'' @ b)" by simp_all
    then show ?thesis unfolding Contains_iff by blast
  qed
  then show ?thesis by (auto simp: isTCXUnsupported_def Let_def)
qed

text \<open>
  What \<^verbatim>\<open>link.Iterator\<close> yields: the identifier, whether \<^verbatim>\<open>Take\<close> gives the link, the result of
  \<^verbatim>\<open>Info\<close>, in it the interface and attach type of a TCX link, and what is known of its program
  (\<open>None\<close> when opening it or \<^verbatim>\<open>prog.Info\<close> fails).
\<close>

record link_info =
  li_TCX :: "(u32 \<times> u32) option"
  li_prog :: "prog_info option"

record link_entry =
  le_id :: u32
  le_taken :: bool
  le_info :: "link_info option"

datatype detach_log = Detached u32 string | Detach_failed u32 string

fun detach_loop ::
    "'w netlink \<Rightarrow> nat \<Rightarrow> string \<Rightarrow> link_entry list \<Rightarrow> 'w \<Rightarrow> detach_log list \<Rightarrow> 'w \<times> detach_log list" where
  "detach_loop N idx ownTag [] w out = (w, out)"
| "detach_loop N idx ownTag (e # es) w out =
     (if \<not> le_taken e then detach_loop N idx ownTag es w out
      else case le_info e of
             None \<Rightarrow>
               (let (_, w) = nl_LinkClose N w (le_id e)
                in detach_loop N idx ownTag es w out)
           | Some info \<Rightarrow>
               (case li_TCX info of
                  None \<Rightarrow>
                    (let (_, w) = nl_LinkClose N w (le_id e)
                     in detach_loop N idx ownTag es w out)
                | Some (ifindex, attach) \<Rightarrow>
                    if ifindex \<noteq> of_nat idx then
                      (let (_, w) = nl_LinkClose N w (le_id e)
                       in detach_loop N idx ownTag es w out)
                    else if attach \<noteq> AttachTCXEgress then
                      (let (_, w) = nl_LinkClose N w (le_id e)
                       in detach_loop N idx ownTag es w out)
                    else case li_prog info of
                           None \<Rightarrow>
                             (let (_, w) = nl_LinkClose N w (le_id e)
                              in detach_loop N idx ownTag es w out)
                         | Some prog \<Rightarrow>
                             if isStaleEgressProg (pi_Name prog) \<and> pi_Tag prog = ownTag then
                               (case nl_LinkClose N w (le_id e) of
                                  (False, w) \<Rightarrow>
                                    detach_loop N idx ownTag es w (out @ [Detach_failed (le_id e) (pi_Name prog)])
                                | (True, w) \<Rightarrow>
                                    detach_loop N idx ownTag es w (out @ [Detached (le_id e) (pi_Name prog)]))
                             else
                               (let (_, w) = nl_LinkClose N w (le_id e)
                                in detach_loop N idx ownTag es w out)))"

definition detachStaleTCXLinks ::
    "'w netlink \<Rightarrow> link_entry list \<Rightarrow> string \<Rightarrow> string \<Rightarrow> 'w \<Rightarrow> 'w \<times> detach_log list" where
  "detachStaleTCXLinks N links ifaceName ownTag w =
     (case nl_InterfaceByName N w ifaceName of
        None \<Rightarrow> (w, [])
      | Some idx \<Rightarrow> detach_loop N idx ownTag links w [])"

fun cleanup_loop :: "'w netlink \<Rightarrow> string \<Rightarrow> string \<Rightarrow> tc_filter list \<Rightarrow> nat \<Rightarrow> 'w \<Rightarrow> (attach_error + nat) \<times> 'w" where
  "cleanup_loop N ifaceName ownTag [] removed w = (Inr removed, w)"
| "cleanup_loop N ifaceName ownTag (f # fs) removed w =
     (case tf_bpf f of
        None \<Rightarrow> cleanup_loop N ifaceName ownTag fs removed w
      | Some bf \<Rightarrow>
          if \<not> isStaleEgressProg (bf_Name bf) \<or> bf_Tag bf \<noteq> ownTag
          then cleanup_loop N ifaceName ownTag fs removed w
          else case nl_FilterDel N w f of
                 None \<Rightarrow> (Inl (Delete_stale_filter ifaceName), w)
               | Some w' \<Rightarrow> cleanup_loop N ifaceName ownTag fs (removed + 1) w')"

definition CleanupEgress ::
    "'w netlink \<Rightarrow> link_entry list \<Rightarrow> string \<Rightarrow> prog_info option \<Rightarrow> 'w \<Rightarrow> (attach_error + nat) \<times> 'w" where
  "CleanupEgress N links ifaceName pinfo w =
     (case programTag pinfo of
        Inl e \<Rightarrow> (Inl (Own_program_tag e), w)
      | Inr ownTag \<Rightarrow>
          let w = fst (detachStaleTCXLinks N links ifaceName ownTag w) in
          (case nl_InterfaceByName N w ifaceName of
             None \<Rightarrow> (Inl (Interface_error ifaceName), w)
           | Some idx \<Rightarrow>
               if \<not> nl_LinkByIndex N w idx then (Inl Netlink_lookup, w)
               else case nl_FilterList N w idx HANDLE_MIN_EGRESS of
                      None \<Rightarrow> (Inl List_filters, w)
                    | Some filters \<Rightarrow> cleanup_loop N ifaceName ownTag filters 0 w))"

subsection \<open>Choosing a handle\<close>

lemma scan_handles_Some:
  assumes "scan_handles used h = Some r"
  shows "h \<le> r \<and> r < 0xffff \<and> r \<notin> set used"
  using assms
proof (induction used h rule: scan_handles.induct)
  case (1 used h)
  show ?case
  proof (cases "h < 0xffff \<and> h \<in> set used")
    case True
    then have "scan_handles used (h + 1) = Some r" using "1.prems" by (subst (asm) scan_handles.simps) simp
    with True "1.IH" have "h + 1 \<le> r \<and> r < 0xffff \<and> r \<notin> set used" by blast
    moreover have "h \<le> h + 1" using True by (simp add: word_le_nat_alt word_less_nat_alt unat_word_ariths)
    ultimately show ?thesis by auto
  next
    case False
    with "1.prems" show ?thesis by (subst (asm) scan_handles.simps) (auto split: if_splits)
  qed
qed

lemma scan_handles_None:
  assumes "scan_handles used h = None"
  shows "{unat h..<0xffff} \<subseteq> unat ` set used"
  using assms
proof (induction used h rule: scan_handles.induct)
  case (1 used h)
  show ?case
  proof (cases "h < 0xffff")
    case True
    have mem: "h \<in> set used" and none: "scan_handles used (h + 1) = None"
      using "1.prems" True by (subst (asm) scan_handles.simps, simp split: if_splits)+
    have "unat (h + 1) = Suc (unat h)"
      using True by (simp add: word_less_nat_alt unat_word_ariths)
    then have "{Suc (unat h)..<0xffff} \<subseteq> unat ` set used" using "1.IH" True mem none by simp
    moreover have "{unat h..<0xffff} \<subseteq> insert (unat h) {Suc (unat h)..<0xffff}" by auto
    ultimately show ?thesis using mem by blast
  next
    case False
    then show ?thesis by (simp add: word_less_nat_alt)
  qed
qed

lemma nextFilterHandle_fresh:
  assumes "nextFilterHandle N w i p = Inr h"
  obtains fs where "nl_FilterList N w i p = Some fs" "h \<notin> tf_Handle ` set fs" "h \<noteq> 0"
  using assms scan_handles_Some
  by (fastforce simp: nextFilterHandle_def filterHandleBase_def split: option.splits)

text \<open>
  The search for a filter handle ends: with fewer than \<open>0xffff - 0x1600\<close> filters on the
  interface a handle is found, it lies between the base and \<open>0xffff\<close>, so it is not the 0 that
  marks a closed filter, and no filter has it; with an unlistable interface it fails.
\<close>

theorem nextFilterHandle_finds:
  assumes "nl_FilterList N w i p = Some fs" and "length fs < 0xffff - 0x1600"
  shows "\<exists>h. nextFilterHandle N w i p = Inr h \<and> filterHandleBase \<le> h \<and> h < 0xffff \<and> h \<notin> tf_Handle ` set fs"
proof -
  let ?used = "map tf_Handle fs"
  have "scan_handles ?used filterHandleBase \<noteq> None"
  proof
    assume "scan_handles ?used filterHandleBase = None"
    then have "{0x1600..<0xffff} \<subseteq> unat ` set ?used"
      using scan_handles_None [of ?used filterHandleBase] by (simp add: filterHandleBase_def)
    then have "card {0x1600..<0xffff::nat} \<le> card (unat ` set ?used)" by (rule card_mono [rotated]) simp
    also have "\<dots> \<le> length ?used" by (rule order_trans [OF card_image_le [OF finite_set] card_length])
    finally show False using assms(2) by simp
  qed
  then obtain h where "scan_handles ?used filterHandleBase = Some h" by blast
  with scan_handles_Some [OF this] assms(1) show ?thesis by (auto simp: nextFilterHandle_def)
qed

subsection \<open>What the kernel promises\<close>

definition listed :: "'w netlink \<Rightarrow> 'w \<Rightarrow> nat \<Rightarrow> u32 \<Rightarrow> tc_filter set" where
  "listed N w i p = (case nl_FilterList N w i p of None \<Rightarrow> {} | Some fs \<Rightarrow> set fs)"

text \<open>
  The kernel fills in further attributes of a filter; those that identify it stay, and the tag it
  reports is that of the program \<open>nl_ProgTag\<close> with the given descriptor.
\<close>

definition same_filter :: "'w netlink \<Rightarrow> tc_filter \<Rightarrow> tc_filter \<Rightarrow> bool" where
  "same_filter N f g \<longleftrightarrow>
     tf_LinkIndex f = tf_LinkIndex g \<and> tf_Parent f = tf_Parent g \<and> tf_Handle f = tf_Handle g \<and>
     map_option bf_Name (tf_bpf f) = map_option bf_Name (tf_bpf g) \<and>
     map_option bf_Tag (tf_bpf f) = map_option (\<lambda>b. nl_ProgTag N (bf_Fd b)) (tf_bpf g)"

text \<open>Interfaces stay, and a list of filters that could be read can still be read.\<close>

definition keeps_interfaces :: "'w netlink \<Rightarrow> 'w \<Rightarrow> 'w \<Rightarrow> bool" where
  "keeps_interfaces N w w' \<longleftrightarrow>
     nl_InterfaceByName N w' = nl_InterfaceByName N w \<and> nl_LinkByIndex N w' = nl_LinkByIndex N w \<and>
     (\<forall>i p. nl_FilterList N w i p \<noteq> None \<longrightarrow> nl_FilterList N w' i p \<noteq> None)"

locale tc_kernel =
  fixes N :: "'w netlink"
  assumes listed_at: "f \<in> listed N w i p \<Longrightarrow> tf_LinkIndex f = i \<and> tf_Parent f = p"
    and listed_once: "nl_FilterList N w i p = Some fs \<Longrightarrow> distinct fs"
    and add: "nl_FilterAdd N w f = Some w' \<Longrightarrow>
      keeps_interfaces N w w' \<and>
      (\<exists>g. same_filter N g f \<and> (\<forall>i p. listed N w' i p =
         (if i = tf_LinkIndex f \<and> p = tf_Parent f then insert g (listed N w i p) else listed N w i p)))"
    and del: "nl_FilterDel N w f = Some w' \<Longrightarrow> f \<in> listed N w (tf_LinkIndex f) (tf_Parent f) \<Longrightarrow>
      keeps_interfaces N w w' \<and> (\<forall>i p. listed N w' i p = listed N w i p - {f})"
    and qdisc_add: "nl_QdiscAdd N w q = (r, w') \<Longrightarrow> keeps_interfaces N w w' \<and> listed N w' = listed N w"
    and link_close: "nl_LinkClose N w l = (ok, w') \<Longrightarrow> keeps_interfaces N w w' \<and> listed N w' = listed N w"

locale reliable_tc_kernel = tc_kernel +
  assumes del_listed: "f \<in> listed N w i p \<Longrightarrow> nl_FilterDel N w f \<noteq> None"

lemma keeps_interfaces_refl [simp]: "keeps_interfaces N w w"
  by (simp add: keeps_interfaces_def)

lemma keeps_interfaces_trans: "keeps_interfaces N u v \<Longrightarrow> keeps_interfaces N v w \<Longrightarrow> keeps_interfaces N u w"
  by (simp add: keeps_interfaces_def)

lemma listed_Some: "nl_FilterList N w i p = Some fs \<Longrightarrow> listed N w i p = set fs"
  by (simp add: listed_def)

subsection \<open>Attaching and detaching\<close>

text \<open>
  \<open>holds N s a g\<close>: the attachment \<open>a\<close> stands for the listed filter \<open>g\<close>, the only one of its handle.
  \<open>tracks N base s as gs\<close>: beyond the filters \<open>base\<close>, exactly those of the open attachments \<open>as\<close> are
  there, and the collection refers to every filter object, the closed ones included.
\<close>

definition holds :: "'w netlink \<Rightarrow> 'w attach_state \<Rightarrow> attachment \<Rightarrow> tc_filter \<Rightarrow> bool" where
  "holds N s a g \<longleftrightarrow>
     at_link a = None \<and> tf_Handle g \<noteq> 0 \<and>
     (\<exists>r<length (cls_heap s). at_clsact a = Some r \<and> cf_handle (cls_heap s ! r) = tf_Handle g \<and>
        cf_ifaceIdx (cls_heap s ! r) = tf_LinkIndex g \<and> cf_parent (cls_heap s ! r) = tf_Parent g) \<and>
     nl_LinkByIndex N (st_world s) (tf_LinkIndex g) \<and>
     nl_FilterList N (st_world s) (tf_LinkIndex g) (tf_Parent g) \<noteq> None \<and>
     (\<forall>f\<in>listed N (st_world s) (tf_LinkIndex g) (tf_Parent g). tf_Handle f = tf_Handle g \<longrightarrow> f = g)"

definition tracks ::
    "'w netlink \<Rightarrow> (nat \<Rightarrow> u32 \<Rightarrow> tc_filter set) \<Rightarrow> 'w attach_state \<Rightarrow> attachment list \<Rightarrow> tc_filter list \<Rightarrow> bool" where
  "tracks N base s as gs \<longleftrightarrow>
     list_all2 (holds N s) as gs \<and> distinct (map at_clsact as) \<and> distinct gs \<and>
     (\<forall>i p. listed N (st_world s) i p = base i p \<union> {g \<in> set gs. tf_LinkIndex g = i \<and> tf_Parent g = p}) \<and>
     (\<forall>g\<in>set gs. \<forall>i p. g \<notin> base i p) \<and>
     coll_links s = map Clsact_filter [0..<length (cls_heap s)] \<and>
     (\<forall>r<length (cls_heap s). Some r \<in> at_clsact ` set as \<or> cf_handle (cls_heap s ! r) = 0)"

lemma holds_mono:
  assumes "holds N s a g" and "keeps_interfaces N (st_world s) w'"
    and "\<And>f. f \<in> listed N w' (tf_LinkIndex g) (tf_Parent g) \<Longrightarrow>
      f \<in> listed N (st_world s) (tf_LinkIndex g) (tf_Parent g) \<or> tf_Handle f \<noteq> tf_Handle g"
    and "length (cls_heap s) \<le> length h'"
    and "\<And>r. at_clsact a = Some r \<Longrightarrow> r < length (cls_heap s) \<Longrightarrow> h' ! r = cls_heap s ! r"
  shows "holds N (s\<lparr>st_world := w', cls_heap := h', coll_links := ls\<rparr>) a g"
proof -
  obtain r where r: "r < length (cls_heap s)" "at_clsact a = Some r" using assms(1) by (auto simp: holds_def)
  then have "h' ! r = cls_heap s ! r" "r < length h'" using assms(4,5) by auto
  moreover have "nl_LinkByIndex N w' (tf_LinkIndex g)" "nl_FilterList N w' (tf_LinkIndex g) (tf_Parent g) \<noteq> None"
    using assms(1,2) by (auto simp: holds_def keeps_interfaces_def)
  moreover have "\<forall>f\<in>listed N w' (tf_LinkIndex g) (tf_Parent g). tf_Handle f = tf_Handle g \<longrightarrow> f = g"
    using assms(1,3) unfolding holds_def by blast
  ultimately show ?thesis using assms(1) r by (simp add: holds_def)
qed

lemma holds_refs: "list_all2 (holds N s) as gs \<Longrightarrow> at_clsact ` set as \<subseteq> Some ` {..<length (cls_heap s)}"
  by (induction rule: list_all2_induct) (auto simp: holds_def)

lemma tracks_world:
  assumes "tracks N base s as gs" and "keeps_interfaces N (st_world s) w'" and "listed N w' = listed N (st_world s)"
  shows "tracks N base (s\<lparr>st_world := w'\<rparr>) as gs"
proof -
  have "holds N (s\<lparr>st_world := w'\<rparr>) a g" if "holds N s a g" for a g
    using holds_mono [OF that assms(2), of "cls_heap s" "coll_links s"] assms(3) by simp
  then show ?thesis
    using assms(1,3) unfolding tracks_def by (auto elim: list.rel_mono_strong)
qed

text \<open>\<open>g\<close> runs the program \<open>fd\<close> on the egress side of the interface \<open>name\<close>.\<close>

definition attached_to :: "'w netlink \<Rightarrow> int \<Rightarrow> 'w \<Rightarrow> string \<Rightarrow> tc_filter \<Rightarrow> bool" where
  "attached_to N fd w name g \<longleftrightarrow>
     nl_InterfaceByName N w name = Some (tf_LinkIndex g) \<and> tf_Parent g = HANDLE_MIN_EGRESS \<and>
     map_option bf_Name (tf_bpf g) = Some ''path_egress'' \<and> map_option bf_Tag (tf_bpf g) = Some (nl_ProgTag N fd)"

text \<open>The filter that \<^verbatim>\<open>attachClsActEgress\<close> asks for.\<close>

definition egress_filter :: "nat \<Rightarrow> u32 \<Rightarrow> int \<Rightarrow> tc_filter" where
  "egress_filter ifaceIdx handle progFD =
     \<lparr>tf_LinkIndex = ifaceIdx, tf_Parent = HANDLE_MIN_EGRESS, tf_Handle = handle,
      tf_Protocol = ETH_P_ALL, tf_Priority = 1,
      tf_bpf = Some \<lparr>bf_Fd = progFD, bf_Name = ''path_egress'', bf_Tag = '''', bf_DirectAction = True\<rparr>\<rparr>"

context tc_kernel
begin

lemma ensureClsAct_keeps:
  assumes "ensureClsAct N w i = (r, w')"
  shows "keeps_interfaces N w w' \<and> listed N w' = listed N w"
proof -
  let ?q = "\<lparr>qd_LinkIndex = i, qd_Handle = MakeHandle 0xffff 0, qd_Parent = HANDLE_CLSACT, qd_Type = ''clsact''\<rparr>"
  obtain e w1 where q: "nl_QdiscAdd N w ?q = (e, w1)" by fastforce
  then have "w' = w1" using assms by (auto simp: ensureClsAct_def split: option.splits qdisc_error.splits)
  with qdisc_add [OF q] show ?thesis by simp
qed

lemma attachClsActEgress_fails:
  assumes "attachClsActEgress N w name i fd = (Inl e, w')"
  shows "keeps_interfaces N w w' \<and> listed N w' = listed N w"
proof (cases "nl_LinkByIndex N w i")
  case True
  obtain r w1 where en: "ensureClsAct N w i = (r, w1)" by fastforce
  then have "w' = w1" using assms True
    by (auto simp: attachClsActEgress_def Let_def split: option.splits sum.splits)
  with ensureClsAct_keeps [OF en] show ?thesis by simp
next
  case False
  then show ?thesis using assms by (simp add: attachClsActEgress_def)
qed

lemma attachClsActEgress_adds:
  assumes "attachClsActEgress N w name i fd = (Inr c, w')"
  shows "\<exists>g. keeps_interfaces N w w' \<and> nl_LinkByIndex N w i \<and> nl_FilterList N w' i HANDLE_MIN_EGRESS \<noteq> None \<and>
    tf_LinkIndex g = i \<and> tf_Parent g = HANDLE_MIN_EGRESS \<and> tf_Handle g \<noteq> 0 \<and>
    map_option bf_Name (tf_bpf g) = Some ''path_egress'' \<and> map_option bf_Tag (tf_bpf g) = Some (nl_ProgTag N fd) \<and>
    cf_handle c = tf_Handle g \<and> cf_ifaceIdx c = i \<and> cf_parent c = HANDLE_MIN_EGRESS \<and>
    (\<forall>f\<in>listed N w i HANDLE_MIN_EGRESS. tf_Handle f \<noteq> tf_Handle g) \<and>
    (\<forall>j p. listed N w' j p = (if j = i \<and> p = HANDLE_MIN_EGRESS then insert g (listed N w j p) else listed N w j p))"
proof -
  obtain r w1 where en: "ensureClsAct N w i = (r, w1)" by fastforce
  from assms en obtain h where link: "nl_LinkByIndex N w i" and nx: "nextFilterHandle N w1 i HANDLE_MIN_EGRESS = Inr h"
    and c: "c = \<lparr>cf_ifaceName = name, cf_ifaceIdx = i, cf_handle = h, cf_parent = HANDLE_MIN_EGRESS\<rparr>"
    and ad: "nl_FilterAdd N w1 (egress_filter i h fd) = Some w'"
    by (auto simp: attachClsActEgress_def egress_filter_def Let_def split: if_splits option.splits sum.splits)
  obtain fs where fs: "nl_FilterList N w1 i HANDLE_MIN_EGRESS = Some fs" and fresh: "h \<notin> tf_Handle ` set fs" "h \<noteq> 0"
    using nextFilterHandle_fresh [OF nx] .
  from add [OF ad] obtain g where k: "keeps_interfaces N w1 w'" and g: "same_filter N g (egress_filter i h fd)"
    and l: "\<forall>j p. listed N w' j p = (if j = i \<and> p = HANDLE_MIN_EGRESS then insert g (listed N w1 j p) else listed N w1 j p)"
    by (auto simp: egress_filter_def)
  note en' = ensureClsAct_keeps [OF en]
  have "nl_FilterList N w' i HANDLE_MIN_EGRESS \<noteq> None" using k fs by (auto simp: keeps_interfaces_def)
  moreover have "\<forall>f\<in>listed N w i HANDLE_MIN_EGRESS. tf_Handle f \<noteq> h"
    using fresh listed_Some [OF fs] en' by auto
  ultimately show ?thesis
    using keeps_interfaces_trans [of N w w1 w'] k en' link g c fresh(2) l
    by (intro exI [of _ g]) (simp add: same_filter_def egress_filter_def)
qed

end

context tc_kernel
begin

text \<open>One interface: on failure no filter has changed, on success one attachment more is tracked.\<close>

lemma AttachEgress_fails:
  assumes "AttachEgress N name fd s = (Inl e, s')" and "tracks N base s as gs"
  shows "tracks N base s' as gs \<and> keeps_interfaces N (st_world s) (st_world s')"
proof (cases "nl_InterfaceByName N (st_world s) name")
  case (Some idx)
  with assms(1) obtain e' w where "attachClsActEgress N (st_world s) name idx fd = (Inl e', w)" "s' = s\<lparr>st_world := w\<rparr>"
    by (auto simp: AttachEgress_def Let_def split: prod.splits sum.splits)
  with attachClsActEgress_fails [OF this(1)] tracks_world [OF assms(2)] show ?thesis by simp
qed (use assms in \<open>simp add: AttachEgress_def\<close>)

lemma AttachEgress_adds:
  assumes "AttachEgress N name fd s = (Inr a, s')" and tr: "tracks N base s as gs"
  shows "\<exists>g. tracks N base s' (as @ [a]) (gs @ [g]) \<and> keeps_interfaces N (st_world s) (st_world s') \<and>
    attached_to N fd (st_world s) name g"
proof -
  let ?n = "length (cls_heap s)"
  obtain idx c w where idx: "nl_InterfaceByName N (st_world s) name = Some idx"
    and at: "attachClsActEgress N (st_world s) name idx fd = (Inr c, w)"
    and a: "a = \<lparr>at_link = None, at_clsact = Some ?n, at_ifaceIdx = idx\<rparr>"
    and s': "s' = s\<lparr>st_world := w, cls_heap := cls_heap s @ [c], coll_links := coll_links s @ [Clsact_filter ?n]\<rparr>"
    using assms(1) by (auto simp: AttachEgress_def AddLink_def Let_def split: option.splits prod.splits sum.splits)
  obtain g where k: "keeps_interfaces N (st_world s) w" "nl_LinkByIndex N (st_world s) idx"
      "nl_FilterList N w idx HANDLE_MIN_EGRESS \<noteq> None"
    and g: "tf_LinkIndex g = idx" "tf_Parent g = HANDLE_MIN_EGRESS" "tf_Handle g \<noteq> 0"
      "map_option bf_Name (tf_bpf g) = Some ''path_egress''" "map_option bf_Tag (tf_bpf g) = Some (nl_ProgTag N fd)"
      "cf_handle c = tf_Handle g" "cf_ifaceIdx c = idx" "cf_parent c = HANDLE_MIN_EGRESS"
    and fresh: "\<forall>f\<in>listed N (st_world s) idx HANDLE_MIN_EGRESS. tf_Handle f \<noteq> tf_Handle g"
    and l: "\<forall>j p. listed N w j p = (if j = idx \<and> p = HANDLE_MIN_EGRESS then insert g (listed N (st_world s) j p)
        else listed N (st_world s) j p)"
    using attachClsActEgress_adds [OF at] by blast
  have lst: "\<forall>i p. listed N (st_world s) i p = base i p \<union> {g \<in> set gs. tf_LinkIndex g = i \<and> tf_Parent g = p}"
    using tr by (simp add: tracks_def)
  have all: "list_all2 (holds N s) as gs" using tr by (simp add: tracks_def)
  have old: "holds N s' b h" if "holds N s b h" "h \<in> set gs" for b h
  proof -
    have "h \<in> listed N (st_world s) (tf_LinkIndex h) (tf_Parent h)" using that(2) lst by auto
    then have "f \<in> listed N (st_world s) (tf_LinkIndex h) (tf_Parent h) \<or> tf_Handle f \<noteq> tf_Handle h"
      if "f \<in> listed N w (tf_LinkIndex h) (tf_Parent h)" for f
      using that l fresh by (cases "tf_LinkIndex h = idx \<and> tf_Parent h = HANDLE_MIN_EGRESS") auto
    from holds_mono [OF \<open>holds N s b h\<close> k(1) this] show ?thesis by (simp add: s' nth_append)
  qed
  have "list_all2 (holds N s') as gs"
    using all by (rule list.rel_mono_strong) (use old in blast)
  moreover have "holds N s' a g"
    using g k l fresh by (auto simp: holds_def a s' nth_append keeps_interfaces_def)
  ultimately have "list_all2 (holds N s') (as @ [a]) (gs @ [g])" by (intro list_all2_appendI) simp_all
  moreover have "Some ?n \<notin> at_clsact ` set as" using holds_refs [OF all] by auto
  moreover have notin: "g \<notin> base i p" for i p
  proof
    assume "g \<in> base i p"
    then have "g \<in> listed N (st_world s) i p" using lst by simp
    with listed_at [OF this] fresh g show False by auto
  qed
  moreover have "g \<notin> set gs" using fresh lst g by auto
  ultimately have "tracks N base s' (as @ [a]) (gs @ [g])"
    using tr l lst g unfolding tracks_def by (auto simp: s' a nth_append less_Suc_eq)
  with k idx g show ?thesis by (auto simp: s' attached_to_def)
qed

end

context reliable_tc_kernel
begin

lemma Attachment_Close_removes:
  assumes tr: "tracks N base s (a # as) (g # gs)"
  shows "\<exists>s'. Attachment_Close N a s = (None, s') \<and> tracks N base s' as gs \<and> keeps_interfaces N (st_world s) (st_world s')"
proof -
  have h: "holds N s a g" and all: "list_all2 (holds N s) as gs" using tr by (auto simp: tracks_def)
  have lst: "\<forall>i p. listed N (st_world s) i p = base i p \<union> {f \<in> set (g # gs). tf_LinkIndex f = i \<and> tf_Parent f = p}"
    using tr by (simp add: tracks_def)
  from h obtain r fs where r: "at_link a = None" "r < length (cls_heap s)" "at_clsact a = Some r"
      "cf_handle (cls_heap s ! r) = tf_Handle g" "cf_ifaceIdx (cls_heap s ! r) = tf_LinkIndex g"
      "cf_parent (cls_heap s ! r) = tf_Parent g" "tf_Handle g \<noteq> 0" "nl_LinkByIndex N (st_world s) (tf_LinkIndex g)"
    and fs: "nl_FilterList N (st_world s) (tf_LinkIndex g) (tf_Parent g) = Some fs"
    and one: "\<forall>f\<in>listed N (st_world s) (tf_LinkIndex g) (tf_Parent g). tf_Handle f = tf_Handle g \<longrightarrow> f = g"
    by (auto simp: holds_def)
  have g: "g \<in> listed N (st_world s) (tf_LinkIndex g) (tf_Parent g)" using lst by simp
  then have "\<exists>f\<in>set fs. tf_Handle f = tf_Handle g" using listed_Some [OF fs] by auto
  then obtain f where fnd: "find (\<lambda>f. tf_Handle f = tf_Handle g) fs = Some f" 
    by (cases "find (\<lambda>f. tf_Handle f = tf_Handle g) fs") (auto simp: find_None_iff)
  then have "f = g" using one listed_Some [OF fs] by (auto simp: find_Some_iff)
  obtain w where w: "nl_FilterDel N (st_world s) g = Some w" using del_listed [OF g] by blast
  note d = del [OF w g]
  let ?s = "s\<lparr>st_world := w, cls_heap := (cls_heap s)[r := (cls_heap s ! r)\<lparr>cf_handle := 0\<rparr>]\<rparr>"
  have cl: "Attachment_Close N a s = (None, ?s)"
    using r fs fnd w \<open>f = g\<close> by (simp add: Attachment_Close_def close_clsact_def clsact_Close_def Let_def)
  have "holds N ?s b k" if "holds N s b k" "b \<in> set as" for b k
  proof -
    have "Some r \<notin> at_clsact ` set as" using tr r(3) by (simp add: tracks_def)
    with that(2) have "at_clsact b \<noteq> Some r" by (metis imageI)
    then have "cls_heap ?s ! q = cls_heap s ! q" if "at_clsact b = Some q" for q using that by auto
    then show ?thesis
      using holds_mono [OF that(1), of w "cls_heap ?s" "coll_links s"] d by simp
  qed
  then have "list_all2 (holds N ?s) as gs" using all by (auto elim: list.rel_mono_strong)
  moreover have "listed N w i p = base i p \<union> {f \<in> set gs. tf_LinkIndex f = i \<and> tf_Parent f = p}" for i p
    using d lst tr by (auto simp: tracks_def)
  ultimately have "tracks N base ?s as gs"
    using tr r unfolding tracks_def by (auto simp: nth_list_update)
  with cl d show ?thesis by auto
qed

lemma close_all_restores:
  "tracks N base s as gs \<Longrightarrow> tracks N base (close_all N as s) [] []"
proof (induction as arbitrary: s gs)
  case (Cons a as)
  then obtain g gs' where "gs = g # gs'" by (auto simp: tracks_def list_all2_Cons1)
  with Attachment_Close_removes Cons show ?case by fastforce
qed (simp add: tracks_def)

lemma attach_loop_result:
  assumes "tracks N base s as gs" and "attach_loop N fd names as s = (r, s')"
  shows "case r of
      Inl e \<Rightarrow> tracks N base s' [] []
    | Inr bs \<Rightarrow> keeps_interfaces N (st_world s) (st_world s') \<and>
        (\<exists>new. tracks N base s' bs (gs @ new) \<and> list_all2 (attached_to N fd (st_world s)) names new)"
  using assms
proof (induction names arbitrary: s as gs)
  case (Cons name names)
  obtain x s1 where x: "AttachEgress N name fd s = (x, s1)" by fastforce
  show ?case
  proof (cases x)
    case (Inl e)
    with x Cons.prems AttachEgress_fails [of name fd s e s1 base as gs] show ?thesis
      by (auto intro: close_all_restores)
  next
    case (Inr a)
    with x AttachEgress_adds [of name fd s a s1 base as gs] Cons.prems(1) obtain g where
      g: "tracks N base s1 (as @ [a]) (gs @ [g])" and k: "keeps_interfaces N (st_world s) (st_world s1)"
      "attached_to N fd (st_world s) name g" by blast
    have "attach_loop N fd names (as @ [a]) s1 = (r, s')" using Cons.prems(2) x Inr by simp
    note IH = Cons.IH [OF g this]
    have "attached_to N fd (st_world s1) = attached_to N fd (st_world s)"
      using k(1) by (simp add: attached_to_def keeps_interfaces_def fun_eq_iff)
    with IH k(2) keeps_interfaces_trans [OF k(1)] show ?thesis
      by (fastforce split: sum.splits intro: list_all2_Cons [THEN iffD2])
  qed
qed (auto intro: exI [of _ "[]"])

end

lemma AttachAll_tracks:
  assumes "reliable_tc_kernel N"
    and "AttachAll N names fd \<lparr>st_world = w, cls_heap = [], coll_links = []\<rparr> = (r, s)"
  shows "case r of Inl e \<Rightarrow> tracks N (listed N w) s [] []
    | Inr as \<Rightarrow> keeps_interfaces N w (st_world s) \<and>
        (\<exists>gs. tracks N (listed N w) s as gs \<and> list_all2 (attached_to N fd w) names gs)"
proof -
  let ?s0 = "\<lparr>st_world = w, cls_heap = [], coll_links = []\<rparr>"
  have "tracks N (listed N w) ?s0 [] []" by (simp add: tracks_def)
  from reliable_tc_kernel.attach_loop_result [OF assms(1) this assms(2) [unfolded AttachAll_def]] show ?thesis
    by (cases r) simp_all
qed

text \<open>Closing filters that are closed already changes nothing.\<close>

lemma close_links_closed:
  "(\<forall>r<length (cls_heap s). cf_handle (cls_heap s ! r) = 0) \<Longrightarrow>
     close_links N (map Clsact_filter rs) first s = (first, s)"
proof (induction rs)
  case (Cons r rs)
  have "close_clsact N r s = (None, s)"
    using Cons.prems by (auto simp: close_clsact_def clsact_Close_def Let_def)
  with Cons show ?case by (simp add: Let_def)
qed simp

lemma tracks_closed: "tracks N base s [] [] \<Longrightarrow> listed N (st_world s) = base \<and> Collection_Close N objs s = (objs, s)"
  using close_links_closed [of s N _ None] by (auto simp: tracks_def Collection_Close_def Let_def fun_eq_iff)

text \<open>
  C24. \<^verbatim>\<open>AttachAll\<close> is all or nothing: when it fails, every interface has the filters it had before.
  When it succeeds, every named interface has one filter more, a \<^verbatim>\<open>path_egress\<close> of a new handle, and
  closing the attachments, as at shutdown, takes exactly these away again; that the collection then
  closes the same filters a second time does no harm.
\<close>

theorem attach_all_or_nothing:
  assumes "reliable_tc_kernel N"
    and "AttachAll N names fd \<lparr>st_world = w, cls_heap = [], coll_links = []\<rparr> = (r, s)"
  shows "case r of
      Inl e \<Rightarrow> listed N (st_world s) = listed N w
    | Inr as \<Rightarrow>
        (\<exists>gs. distinct gs \<and>
           list_all2 (attached_to N fd w) names gs \<and>
           (\<forall>g\<in>set gs. \<forall>i p. g \<notin> listed N w i p) \<and>
           (\<forall>i p. listed N (st_world s) i p = listed N w i p \<union> {g \<in> set gs. tf_LinkIndex g = i \<and> tf_Parent g = p})) \<and>
        (let s' = close_all N as s in
           listed N (st_world s') = listed N w \<and> (\<forall>objs. Collection_Close N objs s' = (objs, s')))"
proof -
  note res = AttachAll_tracks [OF assms]
  show ?thesis
  proof (cases r)
    case (Inl e)
    with res show ?thesis by (simp add: tracks_closed)
  next
    case (Inr as)
    with res obtain gs where tr: "tracks N (listed N w) s as gs" and names: "list_all2 (attached_to N fd w) names gs" by auto
    have "tracks N (listed N w) (close_all N as s) [] []"
      using reliable_tc_kernel.close_all_restores [OF assms(1) tr] .
    then have "listed N (st_world (close_all N as s)) = listed N w \<and>
        (\<forall>objs. Collection_Close N objs (close_all N as s) = (objs, close_all N as s))"
      using tracks_closed by blast
    moreover have "distinct gs \<and> (\<forall>g\<in>set gs. \<forall>i p. g \<notin> listed N w i p) \<and>
        (\<forall>i p. listed N (st_world s) i p = listed N w i p \<union> {g \<in> set gs. tf_LinkIndex g = i \<and> tf_Parent g = p})"
      using tr by (simp add: tracks_def)
    ultimately show ?thesis using Inr names by (auto simp: Let_def)
  qed
qed

subsection \<open>Cleaning up\<close>

text \<open>The attributes by which \<^verbatim>\<open>CleanupEgress\<close> recognises a filter of its own.\<close>

definition own_stale :: "string \<Rightarrow> tc_filter \<Rightarrow> bool" where
  "own_stale tag f \<longleftrightarrow> (case tf_bpf f of None \<Rightarrow> False | Some bf \<Rightarrow> isStaleEgressProg (bf_Name bf) \<and> bf_Tag bf = tag)"

text \<open>Whether a link is one of its own on the interface, and the program it names.\<close>

definition stale_link :: "nat \<Rightarrow> string \<Rightarrow> link_entry \<Rightarrow> prog_info option" where
  "stale_link idx tag e =
     (case le_info e of
        None \<Rightarrow> None
      | Some info \<Rightarrow>
          (case (li_TCX info, li_prog info) of
             (Some (ifindex, attach), Some prog) \<Rightarrow>
               if ifindex = of_nat idx \<and> attach = AttachTCXEgress \<and> isStaleEgressProg (pi_Name prog) \<and> pi_Tag prog = tag
               then Some prog else None
           | _ \<Rightarrow> None))"

fun logged_link :: "detach_log \<Rightarrow> u32 \<times> string" where
  "logged_link (Detached i name) = (i, name)"
| "logged_link (Detach_failed i name) = (i, name)"

lemma detach_loop_Cons:
  "detach_loop N idx tag (e # es) w out =
     (if \<not> le_taken e then detach_loop N idx tag es w out
      else let (ok, w') = nl_LinkClose N w (le_id e)
           in detach_loop N idx tag es w'
                (case stale_link idx tag e of
                   None \<Rightarrow> out
                 | Some prog \<Rightarrow> out @ [(if ok then Detached else Detach_failed) (le_id e) (pi_Name prog)]))"
  by (cases "nl_LinkClose N w (le_id e)")
     (auto simp: stale_link_def split: option.splits bool.splits)

lemma detach_loop_world:
  "fst (detach_loop N idx tag es w out) = foldl (\<lambda>w e. snd (nl_LinkClose N w (le_id e))) w (filter le_taken es)"
  by (induction es arbitrary: w out) (auto simp del: detach_loop.simps(2) simp: detach_loop_Cons Let_def case_prod_unfold)

lemma detach_loop_log:
  "map logged_link (snd (detach_loop N idx tag es w out)) =
     map logged_link out @ [(le_id e, pi_Name prog). e \<leftarrow> es, le_taken e, Some prog \<leftarrow> [stale_link idx tag e]]"
  by (induction es arbitrary: w out)
     (auto simp del: detach_loop.simps(2) simp: detach_loop_Cons Let_def case_prod_unfold split: option.split)

context tc_kernel
begin

lemma cleanup_loop_removes:
  assumes "cleanup_loop N name tag fs n w = (r, w')" and "set fs \<subseteq> listed N w i p" and "distinct fs"
  shows "\<exists>D. D \<subseteq> {f \<in> set fs. own_stale tag f} \<and> (\<forall>j q. listed N w' j q = listed N w j q - D) \<and>
       (\<forall>m. r = Inr m \<longrightarrow> D = {f \<in> set fs. own_stale tag f}) \<and> keeps_interfaces N w w'"
  using assms
proof (induction fs arbitrary: n w)
  case (Cons f fs)
  show ?case
  proof (cases "own_stale tag f")
    case False
    then have "cleanup_loop N name tag fs n w = (r, w')" and skip: "{g \<in> set (f # fs). own_stale tag g} = {g \<in> set fs. own_stale tag g}"
      using Cons.prems(1) by (auto simp: own_stale_def split: option.splits if_splits)
    with Cons show ?thesis unfolding skip by simp
  next
    case True
    show ?thesis
    proof (cases "nl_FilterDel N w f")
      case None
      with True Cons.prems(1) show ?thesis by (intro exI [of _ "{}"]) (auto simp: own_stale_def split: option.splits)
    next
      case (Some w1)
      with True have rest: "cleanup_loop N name tag fs (n + 1) w1 = (r, w')"
        using Cons.prems(1) by (auto simp: own_stale_def split: option.splits)
      have "f \<in> listed N w (tf_LinkIndex f) (tf_Parent f)" using Cons.prems(2) listed_at [of f w i p] by auto
      note d = del [OF Some this]
      have "set fs \<subseteq> listed N w1 i p" using Cons.prems(2,3) d by auto
      with Cons.IH [OF rest] Cons.prems(3) obtain D where D: "D \<subseteq> {f \<in> set fs. own_stale tag f}"
        "\<forall>j q. listed N w' j q = listed N w1 j q - D" "\<forall>m. r = Inr m \<longrightarrow> D = {f \<in> set fs. own_stale tag f}"
        "keeps_interfaces N w1 w'" by auto
      with d True keeps_interfaces_trans [of N w w1 w'] show ?thesis by (intro exI [of _ "insert f D"]) auto
    qed
  qed
qed auto

lemma close_links_keep:
  "keeps_interfaces N w (foldl (\<lambda>w e. snd (nl_LinkClose N w (le_id e))) w es) \<and>
   listed N (foldl (\<lambda>w e. snd (nl_LinkClose N w (le_id e))) w es) = listed N w"
proof (induction es rule: rev_induct)
  case (snoc e es)
  let ?w = "foldl (\<lambda>w e. snd (nl_LinkClose N w (le_id e))) w es"
  have "keeps_interfaces N ?w (snd (nl_LinkClose N ?w (le_id e))) \<and> listed N (snd (nl_LinkClose N ?w (le_id e))) = listed N ?w"
    by (rule link_close [of _ _ "fst (nl_LinkClose N ?w (le_id e))"]) simp
  with snoc show ?case using keeps_interfaces_trans [of N w ?w] by simp
qed simp

lemma detach_keeps:
  "keeps_interfaces N w (fst (detachStaleTCXLinks N links name tag w)) \<and>
   listed N (fst (detachStaleTCXLinks N links name tag w)) = listed N w"
  using close_links_keep by (auto simp: detachStaleTCXLinks_def detach_loop_world split: option.splits)

lemma CleanupEgress_effect:
  assumes "CleanupEgress N links name pinfo w = (r, w')"
  shows "\<exists>D. keeps_interfaces N w w' \<and> (\<forall>i p. listed N w' i p = listed N w i p - D) \<and>
     (\<forall>f\<in>D. nl_InterfaceByName N w name = Some (tf_LinkIndex f) \<and> tf_Parent f = HANDLE_MIN_EGRESS \<and>
        (\<exists>info. pinfo = Some info \<and> own_stale (pi_Tag info) f)) \<and>
     (\<forall>n. r = Inr n \<longrightarrow> (\<exists>idx info. nl_InterfaceByName N w name = Some idx \<and> pinfo = Some info \<and>
        (\<forall>f\<in>listed N w' idx HANDLE_MIN_EGRESS. \<not> own_stale (pi_Tag info) f)))"
proof (cases "programTag pinfo")
  case (Inl e)
  with assms show ?thesis by (intro exI [of _ "{}"]) (auto simp: CleanupEgress_def)
next
  case (Inr tag)
  then obtain info where info: "pinfo = Some info" "pi_Tag info = tag" by (auto simp: programTag_def split: option.splits if_splits)
  define w1 where "w1 = fst (detachStaleTCXLinks N links name tag w)"
  have k: "keeps_interfaces N w w1" "listed N w1 = listed N w"
    unfolding w1_def using detach_keeps by auto
  have res: "(case nl_InterfaceByName N w1 name of None \<Rightarrow> (Inl (Interface_error name), w1)
     | Some idx \<Rightarrow> if \<not> nl_LinkByIndex N w1 idx then (Inl Netlink_lookup, w1)
         else case nl_FilterList N w1 idx HANDLE_MIN_EGRESS of None \<Rightarrow> (Inl List_filters, w1)
           | Some filters \<Rightarrow> cleanup_loop N name tag filters 0 w1) = (r, w')"
    using assms by (simp add: CleanupEgress_def Inr Let_def flip: w1_def)
  show ?thesis
  proof (cases "\<exists>idx fs. nl_InterfaceByName N w name = Some idx \<and> nl_LinkByIndex N w1 idx \<and> nl_FilterList N w1 idx HANDLE_MIN_EGRESS = Some fs")
    case True
    then obtain idx fs where idx: "nl_InterfaceByName N w name = Some idx" "nl_LinkByIndex N w1 idx"
      and fs: "nl_FilterList N w1 idx HANDLE_MIN_EGRESS = Some fs" by blast
    have "cleanup_loop N name tag fs 0 w1 = (r, w')" using res idx fs k by (simp add: keeps_interfaces_def)
    from cleanup_loop_removes [OF this _ listed_once [OF fs], of idx HANDLE_MIN_EGRESS]
    obtain D where D: "D \<subseteq> {f \<in> set fs. own_stale tag f}" "\<forall>j q. listed N w' j q = listed N w1 j q - D"
      "\<forall>m. r = Inr m \<longrightarrow> D = {f \<in> set fs. own_stale tag f}"
      "keeps_interfaces N w1 w'" using listed_Some [OF fs] by auto
    have at: "tf_LinkIndex f = idx \<and> tf_Parent f = HANDLE_MIN_EGRESS" if "f \<in> set fs" for f
      using listed_at [of f w1] listed_Some [OF fs] that by blast
    show ?thesis using D at idx info k listed_Some [OF fs] keeps_interfaces_trans [OF k(1) D(4)] by (intro exI [of _ D]) auto
  next
    case False
    with res k have "w' = w1 \<and> (\<forall>n. r \<noteq> Inr n)"
      by (auto simp: keeps_interfaces_def split: option.splits if_splits)
    with k show ?thesis by (intro exI [of _ "{}"]) auto
  qed
qed

end

context reliable_tc_kernel
begin

lemma cleanup_loop_succeeds:
  "set fs \<subseteq> listed N w i p \<Longrightarrow> distinct fs \<Longrightarrow> \<exists>m w'. cleanup_loop N name tag fs n w = (Inr m, w')"
proof (induction fs arbitrary: n w)
  case (Cons f fs)
  obtain w1 where del': "nl_FilterDel N w f = Some w1" using del_listed [of f w i p] Cons.prems(1) by auto
  have "f \<in> listed N w (tf_LinkIndex f) (tf_Parent f)" using Cons.prems(1) listed_at [of f w i p] by auto
  from del [OF del' this] have "set fs \<subseteq> listed N w1 i p" using Cons.prems by auto
  with Cons del' show ?case by (auto split: option.split)
qed simp

text \<open>On an interface that can be looked up, nothing of the exporter's own is left.\<close>

lemma CleanupEgress_clears:
  assumes "CleanupEgress N links name (Some info) w = (r, w')" and "pi_Tag info \<noteq> ''''"
    and idx: "nl_InterfaceByName N w name = Some idx" "nl_LinkByIndex N w idx"
  shows "\<forall>f\<in>listed N w' idx HANDLE_MIN_EGRESS. \<not> own_stale (pi_Tag info) f"
proof -
  define w1 where "w1 = fst (detachStaleTCXLinks N links name (pi_Tag info) w)"
  have k: "keeps_interfaces N w w1" "listed N w1 = listed N w" using detach_keeps by (auto simp: w1_def)
  have tag: "programTag (Some info) = Inr (pi_Tag info)" using assms(2) by (simp add: programTag_def)
  have res: "(case nl_FilterList N w1 idx HANDLE_MIN_EGRESS of None \<Rightarrow> (Inl List_filters, w1)
           | Some filters \<Rightarrow> cleanup_loop N name (pi_Tag info) filters 0 w1) = (r, w')"
    using assms(1) idx k(1) by (simp add: CleanupEgress_def tag Let_def keeps_interfaces_def flip: w1_def)
  show ?thesis
  proof (cases "nl_FilterList N w1 idx HANDLE_MIN_EGRESS")
    case None
    with res show ?thesis by (auto simp: listed_def)
  next
    case (Some fs)
    note fs = listed_Some [OF Some]
    from cleanup_loop_succeeds [OF _ listed_once [OF Some], of w1 idx HANDLE_MIN_EGRESS name "pi_Tag info" 0] fs res Some
    obtain m where "cleanup_loop N name (pi_Tag info) fs 0 w1 = (r, w')" "r = Inr m" by auto
    with cleanup_loop_removes [OF this(1) _ listed_once [OF Some], of idx HANDLE_MIN_EGRESS] fs show ?thesis by auto
  qed
qed

end

text \<open>
  C25. \<^verbatim>\<open>CleanupEgress\<close> only ever removes filters that are on the egress side of the given interface,
  have one of the exporter's program names and carry the bytecode tag of the exporter's own program;
  when it reports no error, no such filter is left there.
\<close>

theorem cleanup_removes_only_own:
  assumes "tc_kernel N" and "CleanupEgress N links name pinfo w = (r, w')"
  shows "\<exists>D. (\<forall>i p. listed N w' i p = listed N w i p - D) \<and>
     (\<forall>f\<in>D. nl_InterfaceByName N w name = Some (tf_LinkIndex f) \<and> tf_Parent f = HANDLE_MIN_EGRESS \<and>
        (\<exists>info. pinfo = Some info \<and> own_stale (pi_Tag info) f)) \<and>
     (\<forall>n. r = Inr n \<longrightarrow> (\<exists>idx info. nl_InterfaceByName N w name = Some idx \<and> pinfo = Some info \<and>
        (\<forall>f\<in>listed N w' idx HANDLE_MIN_EGRESS. \<not> own_stale (pi_Tag info) f)))"
  using tc_kernel.CleanupEgress_effect [OF assms] by blast

text \<open>
  C28. The checks of \<^verbatim>\<open>detachStaleTCXLinks\<close> decide only what is logged: each of its branches closes the
  link, so that every link the iterator yields is closed once and in order, whatever its interface, attach
  type, program name and tag; the log names exactly the links of the interface's egress whose program is one
  of its own.
\<close>

theorem detach_closes_every_link_alike:
  "fst (detachStaleTCXLinks N links name tag w) =
     (case nl_InterfaceByName N w name of
        None \<Rightarrow> w
      | Some idx \<Rightarrow> foldl (\<lambda>w e. snd (nl_LinkClose N w (le_id e))) w (filter le_taken links)) \<and>
   map logged_link (snd (detachStaleTCXLinks N links name tag w)) =
     (case nl_InterfaceByName N w name of
        None \<Rightarrow> []
      | Some idx \<Rightarrow> [(le_id e, pi_Name prog). e \<leftarrow> links, le_taken e, Some prog \<leftarrow> [stale_link idx tag e]])"
  by (simp add: detachStaleTCXLinks_def detach_loop_world detach_loop_log split: option.split)

subsection \<open>A kernel that keeps the promises\<close>

text \<open>The world is the list of all filters; qdiscs and TCX links have no effect on it.\<close>

definition ref_listing :: "tc_filter \<Rightarrow> tc_filter" where
  "ref_listing f = f\<lparr>tf_bpf := map_option (\<lambda>b. b\<lparr>bf_Tag := ''a1''\<rparr>) (tf_bpf f)\<rparr>"

definition ref_netlink :: "(string \<times> nat) list \<Rightarrow> tc_filter list netlink" where
  "ref_netlink ifs =
     \<lparr>nl_InterfaceByName = (\<lambda>w. map_of ifs),
      nl_LinkByIndex = (\<lambda>w i. i \<in> snd ` set ifs),
      nl_FilterList = (\<lambda>w i p. if i \<in> snd ` set ifs
         then Some (remdups (filter (\<lambda>f. tf_LinkIndex f = i \<and> tf_Parent f = p) w)) else None),
      nl_FilterAdd = (\<lambda>w f. if tf_LinkIndex f \<in> snd ` set ifs then Some (ref_listing f # w) else None),
      nl_FilterDel = (\<lambda>w f. if f \<in> set w then Some (removeAll f w) else None),
      nl_QdiscAdd = (\<lambda>w q. (None, w)),
      nl_QdiscList = (\<lambda>w i. Some []),
      nl_AttachTCX = (\<lambda>w i fd. None),
      nl_LinkClose = (\<lambda>w l. (True, w)), nl_ProgTag = (\<lambda>fd. ''a1'')\<rparr>"

lemma listed_ref:
  "listed (ref_netlink ifs) w i p = (if i \<in> snd ` set ifs then {f \<in> set w. tf_LinkIndex f = i \<and> tf_Parent f = p} else {})"
  by (simp add: listed_def ref_netlink_def)

lemma ref_netlink_sel:
  "nl_FilterDel (ref_netlink ifs) w f = (if f \<in> set w then Some (removeAll f w) else None)"
  "nl_QdiscAdd (ref_netlink ifs) w q = (None, w)" "nl_LinkClose (ref_netlink ifs) w l = (True, w)"
  "nl_ProgTag (ref_netlink ifs) fd = ''a1''"
  by (simp_all add: ref_netlink_def)

lemma keeps_ref: "keeps_interfaces (ref_netlink ifs) w w'"
  by (simp add: keeps_interfaces_def ref_netlink_def)

interpretation ref_tc: reliable_tc_kernel "ref_netlink ifs"
proof
  fix w f w'
  assume "nl_FilterAdd (ref_netlink ifs) w f = Some w'"
  then have "w' = ref_listing f # w" "tf_LinkIndex f \<in> snd ` set ifs" by (auto simp: ref_netlink_def split: if_splits)
  then show "keeps_interfaces (ref_netlink ifs) w w' \<and>
    (\<exists>g. same_filter (ref_netlink ifs) g f \<and> (\<forall>i p. listed (ref_netlink ifs) w' i p =
      (if i = tf_LinkIndex f \<and> p = tf_Parent f then insert g (listed (ref_netlink ifs) w i p) else listed (ref_netlink ifs) w i p)))"
    by (intro conjI exI [of _ "ref_listing f"])
      (auto simp: keeps_ref same_filter_def listed_ref ref_listing_def ref_netlink_sel option.map_comp comp_def)
next
  fix w i p fs
  assume "nl_FilterList (ref_netlink ifs) w i p = Some fs"
  then show "distinct fs" by (auto simp: ref_netlink_def split: if_splits)
next
  fix f w w'
  assume "nl_FilterDel (ref_netlink ifs) w f = Some w'"
  then show "keeps_interfaces (ref_netlink ifs) w w' \<and> (\<forall>i p. listed (ref_netlink ifs) w' i p = listed (ref_netlink ifs) w i p - {f})"
    by (auto simp: keeps_ref listed_ref) (auto simp: ref_netlink_def split: if_splits)
qed (auto simp: keeps_ref listed_ref ref_netlink_sel split: if_splits)

theorem nextFilterHandle_finds_witness:
  "\<exists>h. nextFilterHandle (ref_netlink [(''eth0'', 2)]) [egress_filter 2 0x1600 7] 2 HANDLE_MIN_EGRESS = Inr h \<and> h \<noteq> 0x1600"
proof -
  have "nl_FilterList (ref_netlink [(''eth0'', 2)]) [egress_filter 2 0x1600 7] 2 HANDLE_MIN_EGRESS = Some [egress_filter 2 0x1600 7]"
    by (simp add: ref_netlink_def egress_filter_def)
  from nextFilterHandle_finds [OF this] show ?thesis by (auto simp: egress_filter_def)
qed

theorem attach_all_or_nothing_witness:
  "\<exists>as s. AttachAll (ref_netlink [(''eth0'', 2), (''wg0'', 5)]) [''eth0'', ''wg0''] 7
       \<lparr>st_world = [], cls_heap = [], coll_links = []\<rparr> = (Inr as, s) \<and>
     length as = 2 \<and> listed (ref_netlink [(''eth0'', 2), (''wg0'', 5)]) (st_world (close_all (ref_netlink [(''eth0'', 2), (''wg0'', 5)]) as s)) =
       listed (ref_netlink [(''eth0'', 2), (''wg0'', 5)]) []"
proof -
  let ?N = "ref_netlink [(''eth0'', 2), (''wg0'', 5)]"
  let ?h = "scan_handles [] filterHandleBase"
  have h: "?h = Some filterHandleBase" by (simp add: scan_handles.simps filterHandleBase_def)
  let ?c = "\<lambda>name i. \<lparr>cf_ifaceName = name, cf_ifaceIdx = i, cf_handle = filterHandleBase, cf_parent = HANDLE_MIN_EGRESS\<rparr>"
  have at: "attachClsActEgress ?N [] ''eth0'' 2 7 = (Inr (?c ''eth0'' 2), [ref_listing (egress_filter 2 filterHandleBase 7)])"
    "attachClsActEgress ?N [ref_listing (egress_filter 2 filterHandleBase 7)] ''wg0'' 5 7 =
       (Inr (?c ''wg0'' 5), [ref_listing (egress_filter 5 filterHandleBase 7), ref_listing (egress_filter 2 filterHandleBase 7)])"
    by (simp_all add: ref_listing_def attachClsActEgress_def ensureClsAct_def nextFilterHandle_def ref_netlink_def h egress_filter_def Let_def)
  have "nl_InterfaceByName ?N w ''eth0'' = Some 2" "nl_InterfaceByName ?N w ''wg0'' = Some 5" for w
    by (simp_all add: ref_netlink_def)
  with at obtain as s where run: "AttachAll ?N [''eth0'', ''wg0''] 7 \<lparr>st_world = [], cls_heap = [], coll_links = []\<rparr> = (Inr as, s)"
    and "length as = 2" by (simp add: AttachAll_def AttachEgress_def AddLink_def Let_def)
  with attach_all_or_nothing [OF ref_tc.reliable_tc_kernel_axioms run] show ?thesis by (auto simp: Let_def)
qed

text \<open>A filter of a crashed instance and one of the same name from another program.\<close>

definition stale_filters :: "tc_filter list" where
  "stale_filters =
     [(egress_filter 2 0x1600 7)\<lparr>tf_bpf := Some \<lparr>bf_Fd = 7, bf_Name = ''path_egress'', bf_Tag = ''a1'', bf_DirectAction = True\<rparr>\<rparr>,
      (egress_filter 2 0x1601 8)\<lparr>tf_bpf := Some \<lparr>bf_Fd = 8, bf_Name = ''path_egress'', bf_Tag = ''b2'', bf_DirectAction = True\<rparr>\<rparr>]"

theorem cleanup_removes_only_own_witness:
  "\<exists>w'. CleanupEgress (ref_netlink [(''eth0'', 2)]) [] ''eth0'' (Some \<lparr>pi_Name = ''path_egress'', pi_Tag = ''a1''\<rparr>) stale_filters = (Inr 1, w') \<and>
     (\<forall>f\<in>listed (ref_netlink [(''eth0'', 2)]) w' 2 HANDLE_MIN_EGRESS. \<not> own_stale ''a1'' f) \<and>
     stale_filters ! 1 \<in> listed (ref_netlink [(''eth0'', 2)]) w' 2 HANDLE_MIN_EGRESS"
proof -
  let ?N = "ref_netlink [(''eth0'', 2)]"
  let ?info = "\<lparr>pi_Name = ''path_egress'', pi_Tag = ''a1''\<rparr>"
  obtain w' where run: "CleanupEgress ?N [] ''eth0'' (Some ?info) stale_filters = (Inr 1, w')"
    by (simp add: CleanupEgress_def programTag_def detachStaleTCXLinks_def Let_def ref_netlink_def stale_filters_def
        egress_filter_def isStaleEgressProg_def HasPrefix_def)
  have at: "stale_filters ! 1 \<in> listed ?N stale_filters 2 HANDLE_MIN_EGRESS" and no: "\<not> own_stale ''a1'' (stale_filters ! 1)"
    by (simp_all add: listed_ref stale_filters_def egress_filter_def own_stale_def)
  from cleanup_removes_only_own [OF ref_tc.tc_kernel_axioms run] obtain D where
    D: "\<forall>i p. listed ?N w' i p = listed ?N stale_filters i p - D"
      "\<forall>f\<in>D. \<exists>info. Some ?info = Some info \<and> own_stale (pi_Tag info) f"
      "\<exists>idx info. nl_InterfaceByName ?N stale_filters ''eth0'' = Some idx \<and> Some ?info = Some info \<and>
         (\<forall>f\<in>listed ?N w' idx HANDLE_MIN_EGRESS. \<not> own_stale (pi_Tag info) f)" by blast
  have idx: "nl_InterfaceByName ?N stale_filters ''eth0'' = Some 2" by (simp add: ref_netlink_def)
  have "stale_filters ! 1 \<notin> D" using D(2) no by auto
  with D(1) at have "stale_filters ! 1 \<in> listed ?N w' 2 HANDLE_MIN_EGRESS" by simp
  moreover have "\<forall>f\<in>listed ?N w' 2 HANDLE_MIN_EGRESS. \<not> own_stale ''a1'' f" using D(3) idx by auto
  ultimately show ?thesis using run by blast
qed

end
