(* ===== verification/Startup.thy ===== *)
theory Startup
  imports Publish Interfaces Attach
begin

text \<open>
  The life of the process, \<^verbatim>\<open>main\<close> in \<^verbatim>\<open>cmd/ebpf-packet-loss-exporter/main.go\<close>: from the configuration to
  the attached program, and the ways it ends.

  \<^verbatim>\<open>log.Fatalf\<close> exits without running the deferred calls, a panic and the return of \<^verbatim>\<open>main\<close> run them.
  The environment \<open>env\<close> holds what the process meets: the file and its decoding, the orders of the
  loops over maps, the kernel and the loaded objects, the host, the links found by the cleanup of
  each interface, and whether the ring buffer can be opened. What the process leaves behind in the
  kernel is the world \<open>w\<close> of \<open>Attach\<close>. The HTTP server appears only through its failure.
\<close>

subsection \<open>Start\<close>

record environment =
  en_data :: "string option"
  en_unmarshal :: "config \<Rightarrow> string \<Rightarrow> config option"
  en_ords :: "string list \<times> string list \<times> string list \<times> string list"
  en_kernel :: kernel
  en_objs :: "bpf_state option"
  en_host :: host
  en_prog :: int
  en_info :: "prog_info option"
  en_links :: "string \<Rightarrow> link_entry list"
  en_ringbuf :: bool
  en_objs_close :: "attach_error option"

datatype fatal =
  Fatal_config config_error | Fatal_zone_entries config_error | Fatal_source_zone_entries config_error
  | Fatal_bpf_load load_error | Fatal_interfaces iface_error | Fatal_tc_attach attach_error
  | Fatal_ringbuf_reader | Panic_division

record 'w running =
  ru_cfg :: config
  ru_zones :: "resolved_zone list"
  ru_bpf :: bpf_state
  ru_polls :: poll_state
  ru_attachments :: "attachment list"
  ru_attach :: "'w attach_state"

definition listen_address :: "config \<Rightarrow> string \<Rightarrow> string" where
  "listen_address cfg listen = (if listen \<noteq> '''' then listen else Listen cfg)"

text \<open>The cleanup of all interfaces, with the errors that are only logged.\<close>

fun cleanup_all :: "'w netlink \<Rightarrow> environment \<Rightarrow> string list \<Rightarrow> 'w \<Rightarrow> (string \<times> attach_error) list \<times> 'w" where
  "cleanup_all N env [] w = ([], w)"
| "cleanup_all N env (name # names) w =
     (let (r, w) = CleanupEgress N (en_links env name) name (en_info env) w;
          (log, w) = cleanup_all N env names w
      in (case r of Inl e \<Rightarrow> (name, e) # log | Inr _ \<Rightarrow> log, w))"

text \<open>The deferred calls: the attachments first, then the collection.\<close>

definition run_deferred :: "'w netlink \<Rightarrow> environment \<Rightarrow> attachment list \<Rightarrow> 'w attach_state \<Rightarrow> 'w" where
  "run_deferred N env attachments s =
     st_world (snd (Collection_Close N (en_objs_close env) (close_all N attachments s)))"

text \<open>From the attached program to the poll loop.\<close>

definition main_attached ::
    "'w netlink \<Rightarrow> environment \<Rightarrow> config \<Rightarrow> resolved_zone list \<Rightarrow> bpf_state \<Rightarrow> attachment list \<Rightarrow> 'w attach_state \<Rightarrow>
     (fatal + 'w running) \<times> 'w" where
  "main_attached N env cfg zones b attachments s =
     (if \<not> en_ringbuf env then (Inl Fatal_ringbuf_reader, st_world s)
      else case start_polls cfg zones of
             None \<Rightarrow> (Inl Panic_division, run_deferred N env attachments s)
           | Some p \<Rightarrow>
               (Inr \<lparr>ru_cfg = cfg, ru_zones = zones, ru_bpf = b, ru_polls = p, ru_attachments = attachments, ru_attach = s\<rparr>,
                st_world s))"

definition main_start :: "'w netlink \<Rightarrow> environment \<Rightarrow> 'w \<Rightarrow> (fatal + 'w running) \<times> 'w" where
  "main_start N env w =
     (let (ord1, ord2, ord3, ord4) = en_ords env in
      case Load_config (en_unmarshal env) (en_data env) ord1 ord2 of
        Inl e \<Rightarrow> (Inl (Fatal_config e), w)
      | Inr cfg \<Rightarrow>
          (case ZoneLPMEntries ord3 cfg of
             Inl e \<Rightarrow> (Inl (Fatal_zone_entries e), w)
           | Inr zoneEntries \<Rightarrow>
               (case SourceZoneLPMEntries cfg of
                  Inl e \<Rightarrow> (Inl (Fatal_source_zone_entries e), w)
                | Inr srcZoneEntries \<Rightarrow>
                    (case Load_bpf (en_kernel env) (en_objs env) zoneEntries srcZoneEntries of
                       Inl e \<Rightarrow> (Inl (Fatal_bpf_load e), w)
                     | Inr b \<Rightarrow>
                         (case TransitInterfaceNames (en_host env) cfg of
                            Inl e \<Rightarrow> (Inl (Fatal_interfaces e), w)
                          | Inr names \<Rightarrow>
                              let zones = RemoteZones ord4 cfg;
                                  (log, w) = cleanup_all N env names w
                              in (case AttachAll N names (en_prog env) \<lparr>st_world = w, cls_heap = [], coll_links = []\<rparr> of
                                    (Inl e, s) \<Rightarrow> (Inl (Fatal_tc_attach e), st_world s)
                                  | (Inr attachments, s) \<Rightarrow> main_attached N env cfg zones b attachments s))))))"

subsection \<open>End\<close>

text \<open>
  A signal ends the poll loop and \<^verbatim>\<open>main\<close> returns; an error of the HTTP server is fatal; or the process
  is killed. \<open>w\<close> is the world at that moment.
\<close>

datatype ending = Signalled | Http_fatal | Killed

fun main_end :: "'w netlink \<Rightarrow> environment \<Rightarrow> 'w running \<Rightarrow> 'w \<Rightarrow> ending \<Rightarrow> 'w" where
  "main_end N env r w Signalled = run_deferred N env (ru_attachments r) ((ru_attach r)\<lparr>st_world := w\<rparr>)"
| "main_end N env r w Http_fatal = w"
| "main_end N env r w Killed = w"

subsection \<open>The stages of a start\<close>

text \<open>A start goes through the cleanup to \<^verbatim>\<open>AttachAll\<close>, or ends before it touches the kernel.\<close>

lemma Load_config_poll: "Load_config unmarshal data ord1 ord2 = Inr cfg \<Longrightarrow> 0 < PollInterval cfg"
  by (auto simp: Load_config_def Validate_def split: option.splits sum.splits if_splits)

definition attach_stage ::
    "'w netlink \<Rightarrow> environment \<Rightarrow> 'w \<Rightarrow> config \<Rightarrow> string list \<Rightarrow> attach_error + attachment list \<Rightarrow> 'w attach_state \<Rightarrow>
     (fatal + 'w running) \<Rightarrow> 'w \<Rightarrow> bool" where
  "attach_stage N env w cfg names x s r w' \<longleftrightarrow>
     TransitInterfaceNames (en_host env) cfg = Inr names \<and>
     Load_config (en_unmarshal env) (en_data env) (fst (en_ords env)) (fst (snd (en_ords env))) = Inr cfg \<and>
     AttachAll N names (en_prog env) \<lparr>st_world = snd (cleanup_all N env names w), cls_heap = [], coll_links = []\<rparr> = (x, s) \<and>
     (case x of Inl e \<Rightarrow> r = Inl (Fatal_tc_attach e) \<and> w' = st_world s
      | Inr as \<Rightarrow> \<exists>b zones. main_attached N env cfg zones b as s = (r, w'))"

lemma main_start_cases:
  assumes "main_start N env w = (r, w')"
  shows "(\<exists>e. r = Inl e \<and> w' = w \<and> e \<noteq> Fatal_ringbuf_reader) \<or> (\<exists>cfg names x s. attach_stage N env w cfg names x s r w')"
proof -
  obtain ord1 ord2 ord3 ord4 where ords: "en_ords env = (ord1, ord2, ord3, ord4)" by (cases "en_ords env") auto
  show ?thesis
  proof (cases "Load_config (en_unmarshal env) (en_data env) ord1 ord2")
    case (Inl e)
    with assms have "r = Inl (Fatal_config e) \<and> w' = w" by (simp add: main_start_def ords)
    then show ?thesis by simp
  next
    case (Inr cfg)
    show ?thesis
    proof (cases "\<exists>ds ss b names. ZoneLPMEntries ord3 cfg = Inr ds \<and> SourceZoneLPMEntries cfg = Inr ss \<and>
        Load_bpf (en_kernel env) (en_objs env) ds ss = Inr b \<and> TransitInterfaceNames (en_host env) cfg = Inr names")
      case True
      then obtain ds ss b names where t: "ZoneLPMEntries ord3 cfg = Inr ds" "SourceZoneLPMEntries cfg = Inr ss"
        "Load_bpf (en_kernel env) (en_objs env) ds ss = Inr b" "TransitInterfaceNames (en_host env) cfg = Inr names" by blast
      obtain x s where at: "AttachAll N names (en_prog env)
          \<lparr>st_world = snd (cleanup_all N env names w), cls_heap = [], coll_links = []\<rparr> = (x, s)" by fastforce
      have "case x of Inl e \<Rightarrow> r = Inl (Fatal_tc_attach e) \<and> w' = st_world s
        | Inr as \<Rightarrow> main_attached N env cfg (RemoteZones ord4 cfg) b as s = (r, w')"
        using assms at by (simp add: main_start_def ords Inr t Let_def case_prod_unfold split: sum.splits)
      with t(4) Inr at have "attach_stage N env w cfg names x s r w'"
        by (cases x) (auto simp: attach_stage_def ords)
      then show ?thesis by blast
    next
      case False
      with assms Inr show ?thesis by (auto simp: main_start_def ords split: sum.splits)
    qed
  qed
qed

lemma start_polls_Some: "0 < PollInterval cfg \<Longrightarrow> \<exists>p. start_polls cfg zones = Some p"
  by (auto simp: start_polls_def NewEMAStore_def instantWindowCap_def Let_def)

text \<open>The filters \<open>D\<close> are those that the cleanup of the exporter may take away.\<close>

definition own_filters :: "environment \<Rightarrow> tc_filter set \<Rightarrow> bool" where
  "own_filters env D \<longleftrightarrow>
     (\<forall>f\<in>D. tf_Parent f = HANDLE_MIN_EGRESS \<and> (\<exists>info. en_info env = Some info \<and> own_stale (pi_Tag info) f))"

lemma list_all2_left: "list_all2 P xs ys \<Longrightarrow> x \<in> set xs \<Longrightarrow> \<exists>y\<in>set ys. P x y"
  by (induction rule: list_all2_induct) auto

lemma list_all2_right: "list_all2 P xs ys \<Longrightarrow> y \<in> set ys \<Longrightarrow> \<exists>x\<in>set xs. P x y"
  by (induction rule: list_all2_induct) auto

lemma list_all2_unique:
  assumes "list_all2 P xs ys" and "distinct xs" and "y \<in> set ys" and "z \<in> set ys"
    and only: "\<And>n. n \<in> set xs \<Longrightarrow> P n y \<or> P n z \<Longrightarrow> n = x"
  shows "y = z"
proof -
  obtain i j where ij: "i < length ys" "y = ys ! i" "j < length ys" "z = ys ! j" using assms(3,4) by (auto simp: in_set_conv_nth)
  with assms(1) have "P (xs ! i) y" "P (xs ! j) z" "i < length xs" "j < length xs" by (auto simp: list_all2_conv_all_nth)
  with only have "xs ! i = x" "xs ! j = x" by auto
  with assms(2) \<open>i < length xs\<close> \<open>j < length xs\<close> have "i = j" by (simp add: distinct_conv_nth) metis
  with ij show ?thesis by simp
qed

lemma tracks_holds: "tracks N base s as gs \<Longrightarrow> g \<in> set gs \<Longrightarrow> \<exists>a. holds N s a g"
  by (auto simp: tracks_def dest: list_all2_right)

text \<open>Between the start and the end others may change filters, as long as those of the held handles stay.\<close>

definition same_held :: "'w netlink \<Rightarrow> clsactFilter list \<Rightarrow> 'w \<Rightarrow> 'w \<Rightarrow> bool" where
  "same_held N h w w' \<longleftrightarrow> keeps_interfaces N w w' \<and>
     (\<forall>c\<in>set h. \<forall>f. tf_Handle f = cf_handle c \<longrightarrow>
        f \<in> listed N w' (cf_ifaceIdx c) (cf_parent c) \<longleftrightarrow> f \<in> listed N w (cf_ifaceIdx c) (cf_parent c))"

definition held_by :: "clsactFilter list \<Rightarrow> tc_filter set" where
  "held_by h = {f. \<exists>c\<in>set h. cf_handle c \<noteq> 0 \<and> tf_LinkIndex f = cf_ifaceIdx c \<and> tf_Parent f = cf_parent c \<and> tf_Handle f = cf_handle c}"

context tc_kernel
begin

lemma cleanup_all_effect:
  "\<exists>D. own_filters env D \<and> keeps_interfaces N w (snd (cleanup_all N env names w)) \<and>
     (\<forall>i p. listed N (snd (cleanup_all N env names w)) i p = listed N w i p - D)"
proof (induction names arbitrary: w)
  case Nil
  show ?case by (intro exI [of _ "{}"]) (simp add: own_filters_def)
next
  case (Cons name names)
  obtain r w1 where c: "CleanupEgress N (en_links env name) name (en_info env) w = (r, w1)" by fastforce
  from CleanupEgress_effect [OF c] obtain D where k: "keeps_interfaces N w w1" "\<forall>i p. listed N w1 i p = listed N w i p - D"
    and own: "\<forall>f\<in>D. nl_InterfaceByName N w name = Some (tf_LinkIndex f) \<and> tf_Parent f = HANDLE_MIN_EGRESS \<and>
      (\<exists>info. en_info env = Some info \<and> own_stale (pi_Tag info) f)" by blast
  from own have D: "own_filters env D" unfolding own_filters_def by blast
  from Cons [of w1] obtain E where E: "own_filters env E" "keeps_interfaces N w1 (snd (cleanup_all N env names w1))"
    "\<forall>i p. listed N (snd (cleanup_all N env names w1)) i p = listed N w1 i p - E" by blast
  have rest: "snd (cleanup_all N env (name # names) w) = snd (cleanup_all N env names w1)"
    by (simp add: c Let_def case_prod_unfold)
  have "own_filters env (D \<union> E)" using D E(1) unfolding own_filters_def by blast
  moreover have "\<forall>i p. listed N (snd (cleanup_all N env names w1)) i p = listed N w i p - (D \<union> E)"
    using k(2) E(3) by (simp add: Diff_eq Int_assoc)
  ultimately show ?case unfolding rest using keeps_interfaces_trans [OF k(1) E(2)] by blast
qed

end

context reliable_tc_kernel
begin

lemma cleanup_all_clears:
  assumes "en_info env = Some info" and "pi_Tag info \<noteq> ''''"
    and "name \<in> set names" and "nl_InterfaceByName N w name = Some idx" and "nl_LinkByIndex N w idx"
  shows "\<forall>f\<in>listed N (snd (cleanup_all N env names w)) idx HANDLE_MIN_EGRESS. \<not> own_stale (pi_Tag info) f"
  using assms(3-5)
proof (induction names arbitrary: w)
  case (Cons n names)
  obtain r w1 where c: "CleanupEgress N (en_links env n) n (en_info env) w = (r, w1)" by fastforce
  have rest: "snd (cleanup_all N env (n # names) w) = snd (cleanup_all N env names w1)"
    by (simp add: c Let_def case_prod_unfold)
  have k: "keeps_interfaces N w w1" using CleanupEgress_effect [OF c] by blast
  show ?case
  proof (cases "n = name")
    case True
    have "\<forall>f\<in>listed N w1 idx HANDLE_MIN_EGRESS. \<not> own_stale (pi_Tag info) f"
      using CleanupEgress_clears [of _ name info w r w1 idx] c assms(1,2) Cons.prems True by simp
    moreover have "listed N (snd (cleanup_all N env names w1)) idx HANDLE_MIN_EGRESS \<subseteq> listed N w1 idx HANDLE_MIN_EGRESS"
      using cleanup_all_effect [of env w1 names] by auto
    ultimately show ?thesis unfolding rest by blast
  next
    case False
    with Cons.prems k have "name \<in> set names" "nl_InterfaceByName N w1 name = Some idx" "nl_LinkByIndex N w1 idx"
      by (auto simp: keeps_interfaces_def)
    from Cons.IH [OF this] show ?thesis unfolding rest .
  qed
qed simp

text \<open>What a start leaves in the kernel, and what the running process keeps track of.\<close>

lemma main_start_failed:
  assumes "main_start N env w = (Inl e, w')" and "e \<noteq> Fatal_ringbuf_reader"
  shows "\<exists>D. own_filters env D \<and> (\<forall>i p. listed N w' i p = listed N w i p - D)"
proof (cases "w' = w")
  case True
  then show ?thesis by (intro exI [of _ "{}"]) (simp add: own_filters_def)
next
  case False
  with main_start_cases [OF assms(1)] obtain cfg names x s where st: "attach_stage N env w cfg names x s (Inl e) w'" by blast
  note at = st [unfolded attach_stage_def, THEN conjunct2, THEN conjunct2, THEN conjunct1]
  obtain e' where e': "x = Inl e'"
  proof (cases x)
    case (Inr as)
    with st obtain b zones where ma: "main_attached N env cfg zones b as s = (Inl e, w')" "0 < PollInterval cfg"
      by (auto simp: attach_stage_def dest: Load_config_poll)
    with start_polls_Some [of cfg zones] assms(2) show ?thesis by (auto simp: main_attached_def split: if_splits)
  qed blast
  with st AttachAll_tracks [OF reliable_tc_kernel_axioms at]
  have "listed N w' = listed N (snd (cleanup_all N env names w))"
    by (auto simp: attach_stage_def dest: tracks_closed)
  with cleanup_all_effect [of env w names] show ?thesis by auto
qed

lemma main_start_attached:
  assumes "main_start N env w = (r, w')" and "r = Inl Fatal_ringbuf_reader \<or> r = Inr ru"
  obtains D cfg names s as gs where "own_filters env D"
    "Load_config (en_unmarshal env) (en_data env) (fst (en_ords env)) (fst (snd (en_ords env))) = Inr cfg"
    "TransitInterfaceNames (en_host env) cfg = Inr names"
    "w' = st_world s" "tracks N (\<lambda>i p. listed N w i p - D) s as gs"
    "list_all2 (attached_to N (en_prog env) w) names gs"
    "\<forall>i p. listed N (snd (cleanup_all N env names w)) i p = listed N w i p - D"
    "\<forall>ru. r = Inr ru \<longrightarrow> ru_cfg ru = cfg \<and> ru_attachments ru = as \<and> ru_attach ru = s"
    "keeps_interfaces N w (st_world s)"
proof -
  from main_start_cases [OF assms(1)] assms(2) obtain cfg names x s where st: "attach_stage N env w cfg names x s r w'" by blast
  let ?w1 = "snd (cleanup_all N env names w)"
  from st have t: "TransitInterfaceNames (en_host env) cfg = Inr names"
    and load: "Load_config (en_unmarshal env) (en_data env) (fst (en_ords env)) (fst (snd (en_ords env))) = Inr cfg"
    and at: "AttachAll N names (en_prog env) \<lparr>st_world = ?w1, cls_heap = [], coll_links = []\<rparr> = (x, s)"
    by (simp_all add: attach_stage_def)
  from st assms(2) obtain as b zones where as: "x = Inr as" "main_attached N env cfg zones b as s = (r, w')"
    by (cases x) (auto simp: attach_stage_def)
  obtain D where D: "own_filters env D" "keeps_interfaces N w ?w1" and l: "\<forall>i p. listed N ?w1 i p = listed N w i p - D"
    using cleanup_all_effect [of env w names] by blast
  have base: "listed N ?w1 = (\<lambda>i p. listed N w i p - D)" using l by (simp add: fun_eq_iff)
  have att: "attached_to N fd ?w1 = attached_to N fd w" for fd
    using D(2) by (simp add: attached_to_def keeps_interfaces_def fun_eq_iff)
  obtain gs where gs: "tracks N (\<lambda>i p. listed N w i p - D) s as gs" "list_all2 (attached_to N (en_prog env) w) names gs"
    and k: "keeps_interfaces N ?w1 (st_world s)"
    using AttachAll_tracks [OF reliable_tc_kernel_axioms at, unfolded base att] as by auto
  obtain p where p: "start_polls cfg zones = Some p" using start_polls_Some [OF Load_config_poll [OF load]] by blast
  have "w' = st_world s \<and> (\<forall>ru. r = Inr ru \<longrightarrow> ru_cfg ru = cfg \<and> ru_attachments ru = as \<and> ru_attach ru = s)"
    using as p assms(2) by (auto simp: main_attached_def split: if_splits)
  then show thesis by (intro that [OF D(1) load t _ gs l _ keeps_interfaces_trans [OF D(2) k]]) auto
qed

lemma tracks_held:
  assumes "tracks N base s as gs"
  shows "g \<in> set gs \<longleftrightarrow> g \<in> held_by (cls_heap s) \<and> g \<in> listed N (st_world s) (tf_LinkIndex g) (tf_Parent g)"
proof
  assume g: "g \<in> set gs"
  then obtain a where "holds N s a g" using tracks_holds [OF assms] by blast
  then obtain r where "r < length (cls_heap s)" "cf_handle (cls_heap s ! r) = tf_Handle g" "tf_Handle g \<noteq> 0"
    "cf_ifaceIdx (cls_heap s ! r) = tf_LinkIndex g" "cf_parent (cls_heap s ! r) = tf_Parent g" by (auto simp: holds_def)
  then have "g \<in> held_by (cls_heap s)" unfolding held_by_def by (intro CollectI bexI [of _ "cls_heap s ! r"]) simp_all
  moreover have "g \<in> listed N (st_world s) (tf_LinkIndex g) (tf_Parent g)" using g assms by (simp add: tracks_def)
  ultimately show "g \<in> held_by (cls_heap s) \<and> g \<in> listed N (st_world s) (tf_LinkIndex g) (tf_Parent g)"
    by simp
next
  assume R: "g \<in> held_by (cls_heap s) \<and> g \<in> listed N (st_world s) (tf_LinkIndex g) (tf_Parent g)"
  then obtain r where r: "r < length (cls_heap s)" "cf_handle (cls_heap s ! r) = tf_Handle g" "tf_Handle g \<noteq> 0"
    "cf_ifaceIdx (cls_heap s ! r) = tf_LinkIndex g" "cf_parent (cls_heap s ! r) = tf_Parent g"
    by (auto simp: held_by_def in_set_conv_nth)
  then obtain a where a: "a \<in> set as" "at_clsact a = Some r" using assms by (auto simp: tracks_def)
  then obtain h where h: "h \<in> set gs" "holds N s a h"
    using assms by (auto simp: tracks_def dest: list_all2_left)
  then have "cf_handle (cls_heap s ! r) = tf_Handle h" "cf_ifaceIdx (cls_heap s ! r) = tf_LinkIndex h"
    "cf_parent (cls_heap s ! r) = tf_Parent h"
    and one: "\<forall>f\<in>listed N (st_world s) (tf_LinkIndex h) (tf_Parent h). tf_Handle f = tf_Handle h \<longrightarrow> f = h"
    using a by (auto simp: holds_def)
  with r R have "g = h" by simp
  with h show "g \<in> set gs" by simp
qed

lemma tracks_later:
  assumes tr: "tracks N base s as gs" and same: "same_held N (cls_heap s) (st_world s) w'"
  shows "tracks N (\<lambda>i p. listed N w' i p - set gs) (s\<lparr>st_world := w'\<rparr>) as gs"
proof -
  have held: "f \<in> listed N w' (tf_LinkIndex g) (tf_Parent g) \<longleftrightarrow> f \<in> listed N (st_world s) (tf_LinkIndex g) (tf_Parent g)"
    if "holds N s a g" "tf_Handle f = tf_Handle g" for a f g
  proof -
    obtain r where "r < length (cls_heap s)" "cf_handle (cls_heap s ! r) = tf_Handle g"
      "cf_ifaceIdx (cls_heap s ! r) = tf_LinkIndex g" "cf_parent (cls_heap s ! r) = tf_Parent g"
      using \<open>holds N s a g\<close> by (auto simp: holds_def)
    with same that(2) show ?thesis unfolding same_held_def by (metis nth_mem)
  qed
  have "holds N (s\<lparr>st_world := w'\<rparr>) a g" if h: "holds N s a g" for a g
    using holds_mono [OF h, of w' "cls_heap s" "coll_links s"] same held [OF h] by (auto simp: same_held_def)
  then have "list_all2 (holds N (s\<lparr>st_world := w'\<rparr>)) as gs"
    using tr by (auto simp: tracks_def elim: list.rel_mono_strong)
  moreover have "g \<in> listed N w' (tf_LinkIndex g) (tf_Parent g)" if "g \<in> set gs" for g
  proof -
    obtain a where "holds N s a g" using tracks_holds [OF tr \<open>g \<in> set gs\<close>] by blast
    with held [OF this, of g] that tr show ?thesis by (simp add: tracks_def)
  qed
  ultimately show ?thesis using tr listed_at [of _ w'] unfolding tracks_def by auto
qed

lemma run_deferred_removes:
  assumes "tracks N base s as gs" and "same_held N (cls_heap s) (st_world s) v"
  shows "listed N (run_deferred N env as (s\<lparr>st_world := v\<rparr>)) = (\<lambda>i p. listed N v i p - held_by (cls_heap s))"
proof -
  note later = tracks_later [OF assms]
  have "listed N v i p - set gs = listed N v i p - held_by (cls_heap s)" for i p
    using tracks_held [OF later] listed_at [of _ v i p] by auto
  with tracks_closed [OF close_all_restores [OF later]] show ?thesis by (simp add: run_deferred_def)
qed

lemma tracks_unheld:
  assumes "tracks N base s as gs"
  shows "listed N (st_world s) i p - held_by (cls_heap s) = base i p"
proof -
  have "listed N (st_world s) i p - held_by (cls_heap s) = listed N (st_world s) i p - set gs"
    using tracks_held [OF assms] listed_at [of _ "st_world s" i p] by auto
  with assms show ?thesis by (auto simp: tracks_def)
qed

end

subsection \<open>What a stop leaves behind\<close>

text \<open>
  C19. A start that fails before the program is attached everywhere has at most removed stale filters
  of the exporter's own; the one failure after that, of the ring buffer reader, is not covered (it leaves the
  program attached, see below). When a start succeeds and a signal ends the process later, the exit removes
  the filters that the process holds and no others: with the removal of the stale ones this is all that
  the exporter changed. It makes no difference if others change filters in between, provided they leave
  those alone that have the handle, interface and parent of one that the process holds.
\<close>

theorem stop_undoes_start:
  assumes "reliable_tc_kernel N" and "main_start N env w = (r, w')"
  shows "case r of
      Inl e \<Rightarrow> e \<noteq> Fatal_ringbuf_reader \<longrightarrow> (\<exists>D. own_filters env D \<and> (\<forall>i p. listed N w' i p = listed N w i p - D))
    | Inr ru \<Rightarrow> let held = held_by (cls_heap (ru_attach ru)) in
        (\<exists>D. own_filters env D \<and> (\<forall>i p. listed N w' i p - held = listed N w i p - D \<and>
           listed N (main_end N env ru w' Signalled) i p = listed N w i p - D)) \<and>
        (\<forall>v. same_held N (cls_heap (ru_attach ru)) w' v \<longrightarrow>
           listed N (main_end N env ru v Signalled) = (\<lambda>i p. listed N v i p - held))"
proof (cases r)
  case (Inl e)
  with reliable_tc_kernel.main_start_failed [OF assms(1)] assms(2) show ?thesis by simp
next
  case (Inr ru)
  from reliable_tc_kernel.main_start_attached [OF assms(1,2) disjI2 [OF Inr]] obtain D s as gs where
    D: "own_filters env D" "w' = st_world s" and tr: "tracks N (\<lambda>i p. listed N w i p - D) s as gs"
    and ru: "ru_attachments ru = as" "ru_attach ru = s" using Inr by metis
  have later: "listed N (main_end N env ru v Signalled) = (\<lambda>i p. listed N v i p - held_by (cls_heap s))"
    if "same_held N (cls_heap s) w' v" for v
    using reliable_tc_kernel.run_deferred_removes [OF assms(1) tr] that D(2) ru by simp
  note own = reliable_tc_kernel.tracks_unheld [OF assms(1) tr, folded D(2)]
  have "listed N (main_end N env ru w' Signalled) i p = listed N w i p - D" for i p
    using later [of w'] own by (simp add: same_held_def)
  with later own D(1) Inr ru show ?thesis by (auto simp: Let_def)
qed

text \<open>
  C21. A fatal error after the program was attached (the ring buffer cannot be opened, or the HTTP server
  fails) leaves it attached: \<^verbatim>\<open>log.Fatalf\<close> skips the deferred calls, and every one of the transit
  interfaces of the configuration that was loaded keeps the filter that the start added.
\<close>

theorem fatal_exit_leaves_filters:
  assumes "reliable_tc_kernel N" and "main_start N env w = (r, w')"
    and "r = Inl Fatal_ringbuf_reader \<and> v = w' \<or> r = Inr ru \<and> v = main_end N env ru w' Http_fatal"
  shows "\<exists>cfg names gs.
     Load_config (en_unmarshal env) (en_data env) (fst (en_ords env)) (fst (snd (en_ords env))) = Inr cfg \<and>
     (r = Inr ru \<longrightarrow> ru_cfg ru = cfg) \<and>
     TransitInterfaceNames (en_host env) cfg = Inr names \<and> names \<noteq> [] \<and> distinct gs \<and>
     list_all2 (attached_to N (en_prog env) w) names gs \<and>
     (\<forall>g\<in>set gs. g \<in> listed N v (tf_LinkIndex g) HANDLE_MIN_EGRESS)"
proof -
  have "r = Inl Fatal_ringbuf_reader \<or> r = Inr ru" and v: "v = w'" using assms(3) by auto
  from reliable_tc_kernel.main_start_attached [OF assms(1,2) this(1)] obtain D cfg names s as gs where
    load: "Load_config (en_unmarshal env) (en_data env) (fst (en_ords env)) (fst (snd (en_ords env))) = Inr cfg" and
    ru: "\<forall>ru. r = Inr ru \<longrightarrow> ru_cfg ru = cfg \<and> ru_attachments ru = as \<and> ru_attach ru = s" and
    t: "TransitInterfaceNames (en_host env) cfg = Inr names" "w' = st_world s"
    and tr: "tracks N (\<lambda>i p. listed N w i p - D) s as gs" and at: "list_all2 (attached_to N (en_prog env) w) names gs" by metis
  have "g \<in> listed N v (tf_LinkIndex g) HANDLE_MIN_EGRESS" if "g \<in> set gs" for g
    using that tr list_all2_right [OF at that] by (auto simp: tracks_def attached_to_def v t(2))
  with load ru t at tr TransitInterfaceNames_nonempty [OF t(1)] show ?thesis by (auto simp: tracks_def)
qed

text \<open>
  C20. Whatever earlier instances left behind, after a start that succeeds every interface the program
  is attached to has exactly one filter that runs this very program: the stale ones are
  gone, so that no packet is counted twice.
\<close>

theorem restart_leaves_one_filter:
  assumes kernel: "reliable_tc_kernel N" and start: "main_start N env w = (Inr ru, w')"
    and info: "en_info env = Some info" "pi_Tag info = nl_ProgTag N (en_prog env)" "pi_Tag info \<noteq> ''''"
    and inj: "inj_on (nl_InterfaceByName N w) {n. nl_InterfaceByName N w n \<noteq> None}"
    and host: "\<forall>ifs. ho_Interfaces (en_host env) = Some ifs \<longrightarrow> distinct (map if_Name ifs)"
  shows "\<exists>names. TransitInterfaceNames (en_host env) (ru_cfg ru) = Inr names \<and>
     (\<forall>name\<in>set names. \<exists>idx. nl_InterfaceByName N w name = Some idx \<and>
        (\<exists>!f. f \<in> listed N w' idx HANDLE_MIN_EGRESS \<and> own_stale (pi_Tag info) f))"
proof -
  from reliable_tc_kernel.main_start_attached [OF kernel start disjI2 [OF refl]] obtain D names s as gs where
    t: "TransitInterfaceNames (en_host env) (ru_cfg ru) = Inr names" and w': "w' = st_world s"
    and tr: "tracks N (\<lambda>i p. listed N w i p - D) s as gs" and at: "list_all2 (attached_to N (en_prog env) w) names gs"
    and cl: "\<forall>i p. listed N (snd (cleanup_all N env names w)) i p = listed N w i p - D"
    and k: "keeps_interfaces N w (st_world s)" by metis
  have lst: "listed N w' i p = (listed N w i p - D) \<union> {g \<in> set gs. tf_LinkIndex g = i \<and> tf_Parent g = p}" for i p
    using tr by (simp add: tracks_def w')
  have "\<exists>idx. nl_InterfaceByName N w name = Some idx \<and>
        (\<exists>!f. f \<in> listed N w' idx HANDLE_MIN_EGRESS \<and> own_stale (pi_Tag info) f)" if name: "name \<in> set names" for name
  proof -
    obtain g where g: "g \<in> set gs" and ag: "attached_to N (en_prog env) w name g" using list_all2_left [OF at name] by blast
    then have idx: "nl_InterfaceByName N w name = Some (tf_LinkIndex g)" by (simp add: attached_to_def)
    obtain a where "holds N s a g" using tracks_holds [OF tr g] by blast
    then have "nl_LinkByIndex N w (tf_LinkIndex g)" using k by (simp add: holds_def keeps_interfaces_def)
    with reliable_tc_kernel.cleanup_all_clears [OF kernel info(1,3) name idx] cl
    have none: "\<forall>f\<in>listed N w (tf_LinkIndex g) HANDLE_MIN_EGRESS - D. \<not> own_stale (pi_Tag info) f" by simp
    have own: "own_stale (pi_Tag info) g" using ag info(2) by (auto simp: attached_to_def own_stale_def isStaleEgressProg_def HasPrefix_def)
    have only: "n = name" if "attached_to N (en_prog env) w n f" "tf_LinkIndex f = tf_LinkIndex g" for n f
    proof (rule inj_onD [OF inj])
      show "nl_InterfaceByName N w n = nl_InterfaceByName N w name" using that idx by (simp add: attached_to_def)
    qed (use that idx in \<open>auto simp: attached_to_def\<close>)
    have "f = g" if f: "f \<in> listed N w' (tf_LinkIndex g) HANDLE_MIN_EGRESS" "own_stale (pi_Tag info) f" for f
    proof -
      have fg: "f \<in> set gs" "tf_LinkIndex f = tf_LinkIndex g" using f none lst by auto
      show ?thesis
        by (rule list_all2_unique [OF at TransitInterfaceNames_distinct [OF t host] fg(1) g, of name]) (use only fg in auto)
    qed
    with g ag own idx show ?thesis by (intro exI [of _ "tf_LinkIndex g"] conjI ex1I [of _ g]) (auto simp: lst attached_to_def)
  qed
  with t show ?thesis by blast
qed

subsection \<open>A sample start\<close>

definition sample_env :: "bool \<Rightarrow> environment" where
  "sample_env rb =
     \<lparr>en_data = Some '''', en_unmarshal = (\<lambda>c d. Some (sample_config\<lparr>Interfaces := [''eth0'']\<rparr>)),
      en_ords = ([''c'', ''f''], [''f'', ''c''], [''f'', ''c''], [''c'', ''f'']),
      en_kernel = ref_kernel Little, en_objs = Some (bpf_init Map.empty Map.empty),
      en_host = \<lparr>ho_InterfaceByName = [''eth0'' \<mapsto> \<lparr>if_Name = ''eth0'', if_Flags = 1\<rparr>], ho_Interfaces = None,
        ho_Stat = (\<lambda>p. False), ho_ReadFile = Map.empty\<rparr>,
      en_prog = 7, en_info = Some \<lparr>pi_Name = ''path_egress'', pi_Tag = ''a1''\<rparr>, en_links = (\<lambda>n. []),
      en_ringbuf = rb, en_objs_close = None\<rparr>"

lemma sample_env_loads:
  "\<exists>c ds ss b. Load_config (en_unmarshal (sample_env rb)) (en_data (sample_env rb)) [''c'', ''f''] [''f'', ''c''] = Inr c \<and>
     ZoneLPMEntries [''f'', ''c''] c = Inr ds \<and> SourceZoneLPMEntries c = Inr ss \<and>
     Load_bpf (en_kernel (sample_env rb)) (en_objs (sample_env rb)) ds ss = Inr b \<and>
     TransitInterfaceNames (en_host (sample_env rb)) c = Inr [''eth0'']"
proof -
  let ?c = "sample_config\<lparr>Interfaces := [''eth0''], zoneIDs := [''c'' \<mapsto> 1, ''f'' \<mapsto> 2]\<rparr>"
  let ?dst = "map (\<lambda>e. e\<lparr>ZoneID := 1\<rparr>) sample_dst" and ?src = "map (\<lambda>e. e\<lparr>ZoneID := 2\<rparr>) sample_src"
  have "Load_config (en_unmarshal (sample_env rb)) (en_data (sample_env rb)) [''c'', ''f''] [''f'', ''c''] = Inr ?c"
    by (simp add: Load_config_def applyDefaults_def sample_env_def Validate_def sample_config_def default_config_def
        ParseCIDR_10_0 ParseCIDR_10_1 ParseCIDR_192 assignZoneIDs_def Let_def second_def number_zones_def)
  moreover have "ZoneLPMEntries [''f'', ''c''] ?c = Inr ?dst" "SourceZoneLPMEntries ?c = Inr ?src"
    by (simp_all add: SourceZoneLPMEntries_def sample_config_def default_config_def ParseCIDR_10_0 ParseCIDR_10_1
        ParseCIDR_192 sample_dst_def sample_src_def)
  moreover obtain b where "Load_bpf (en_kernel (sample_env rb)) (en_objs (sample_env rb)) ?dst ?src = Inr b"
    using Load_bpf_ref [of ?dst ?src Little] sample_v4 lpmKey_v4 by (force simp: sample_env_def)
  moreover have "TransitInterfaceNames (en_host (sample_env rb)) ?c = Inr [''eth0'']"
    by (simp add: TransitInterfaceNames_def resolveInterfaceNames_def sample_env_def FlagUp_def)
  ultimately show ?thesis by blast
qed

lemma sample_attach:
  "\<exists>as s. AttachAll (ref_netlink [(''eth0'', 2)]) [''eth0''] 7 \<lparr>st_world = [stale_filters ! 1], cls_heap = [], coll_links = []\<rparr> =
     (Inr as, s)"
  by (simp add: AttachAll_def AttachEgress_def AddLink_def Let_def attachClsActEgress_def ensureClsAct_def nextFilterHandle_def
      ref_netlink_def stale_filters_def egress_filter_def scan_handles.simps filterHandleBase_def)

lemma sample_cleanup:
  "snd (cleanup_all (ref_netlink [(''eth0'', 2)]) (sample_env rb) [''eth0''] stale_filters) = [stale_filters ! 1]"
  by (simp add: CleanupEgress_def programTag_def detachStaleTCXLinks_def Let_def ref_netlink_def stale_filters_def
      egress_filter_def isStaleEgressProg_def HasPrefix_def sample_env_def)

lemma sample_starts:
  "\<exists>r w'. main_start (ref_netlink [(''eth0'', 2)]) (sample_env rb) stale_filters = (r, w') \<and>
     (if rb then \<exists>ru. r = Inr ru else r = Inl Fatal_ringbuf_reader)"
proof -
  obtain c ds ss b where l: "Load_config (en_unmarshal (sample_env rb)) (en_data (sample_env rb)) [''c'', ''f''] [''f'', ''c''] = Inr c"
    "ZoneLPMEntries [''f'', ''c''] c = Inr ds" "SourceZoneLPMEntries c = Inr ss"
    "Load_bpf (en_kernel (sample_env rb)) (en_objs (sample_env rb)) ds ss = Inr b"
    "TransitInterfaceNames (en_host (sample_env rb)) c = Inr [''eth0'']"
    using sample_env_loads [of rb] by blast
  have sel: "en_ords (sample_env rb) = ([''c'', ''f''], [''f'', ''c''], [''f'', ''c''], [''c'', ''f''])"
    "en_prog (sample_env rb) = 7" "en_ringbuf (sample_env rb) = rb" by (simp_all add: sample_env_def)
  obtain as s where at: "AttachAll (ref_netlink [(''eth0'', 2)]) [''eth0''] 7
      \<lparr>st_world = [stale_filters ! 1], cls_heap = [], coll_links = []\<rparr> = (Inr as, s)" using sample_attach by blast
  obtain p where p: "start_polls c (RemoteZones [''c'', ''f''] c) = Some p" using start_polls_Some [OF Load_config_poll [OF l(1)]] by blast
  show ?thesis
    by (simp add: main_start_def sel l case_prod_unfold sample_cleanup at [unfolded One_nat_def] main_attached_def p Let_def
        del: cleanup_all.simps ZoneLPMEntries.simps)
qed

theorem stop_undoes_start_witness:
  "\<exists>ru w'. main_start (ref_netlink [(''eth0'', 2)]) (sample_env True) stale_filters = (Inr ru, w') \<and>
     (\<exists>D. own_filters (sample_env True) D \<and>
        listed (ref_netlink [(''eth0'', 2)]) (main_end (ref_netlink [(''eth0'', 2)]) (sample_env True) ru w' Signalled) 2 HANDLE_MIN_EGRESS =
        listed (ref_netlink [(''eth0'', 2)]) stale_filters 2 HANDLE_MIN_EGRESS - D)"
proof -
  obtain ru w' where s: "main_start (ref_netlink [(''eth0'', 2)]) (sample_env True) stale_filters = (Inr ru, w')"
    using sample_starts [of True] by auto
  from stop_undoes_start [OF ref_tc.reliable_tc_kernel_axioms s] s show ?thesis unfolding Let_def by auto
qed

theorem fatal_exit_leaves_filters_witness:
  "\<exists>w'. main_start (ref_netlink [(''eth0'', 2)]) (sample_env False) stale_filters = (Inl Fatal_ringbuf_reader, w') \<and>
     (\<exists>g. tf_LinkIndex g = 2 \<and> g \<in> listed (ref_netlink [(''eth0'', 2)]) w' 2 HANDLE_MIN_EGRESS)"
proof -
  let ?N = "ref_netlink [(''eth0'', 2)]"
  obtain w' where s: "main_start ?N (sample_env False) stale_filters = (Inl Fatal_ringbuf_reader, w')"
    using sample_starts [of False] by auto
  from fatal_exit_leaves_filters [OF ref_tc.reliable_tc_kernel_axioms s, of w'] obtain names gs where
    gs: "names \<noteq> []" "list_all2 (attached_to ?N (en_prog (sample_env False)) stale_filters) names gs"
    "\<forall>g\<in>set gs. g \<in> listed ?N w' (tf_LinkIndex g) HANDLE_MIN_EGRESS" by auto
  then obtain g where g: "g \<in> set gs" by (cases gs) auto
  with gs(3) have "g \<in> listed ?N w' (tf_LinkIndex g) HANDLE_MIN_EGRESS" by blast
  moreover from this have "tf_LinkIndex g = 2" by (auto simp: listed_ref split: if_splits)
  ultimately show ?thesis using s by auto
qed

theorem restart_leaves_one_filter_witness:
  "\<exists>ru w'. main_start (ref_netlink [(''eth0'', 2)]) (sample_env True) stale_filters = (Inr ru, w') \<and>
     (\<exists>names. TransitInterfaceNames (en_host (sample_env True)) (ru_cfg ru) = Inr names \<and>
        (\<forall>name\<in>set names. \<exists>idx. nl_InterfaceByName (ref_netlink [(''eth0'', 2)]) stale_filters name = Some idx \<and>
           (\<exists>!f. f \<in> listed (ref_netlink [(''eth0'', 2)]) w' idx HANDLE_MIN_EGRESS \<and> own_stale ''a1'' f)))"
proof -
  let ?info = "\<lparr>pi_Name = ''path_egress'', pi_Tag = ''a1''\<rparr>"
  obtain ru w' where s: "main_start (ref_netlink [(''eth0'', 2)]) (sample_env True) stale_filters = (Inr ru, w')"
    using sample_starts [of True] by auto
  have inj: "inj_on (nl_InterfaceByName (ref_netlink [(''eth0'', 2)]) stale_filters)
      {n. nl_InterfaceByName (ref_netlink [(''eth0'', 2)]) stale_filters n \<noteq> None}"
    by (auto simp: ref_netlink_def inj_on_def split: if_splits)
  have info: "en_info (sample_env True) = Some ?info" "pi_Tag ?info = nl_ProgTag (ref_netlink [(''eth0'', 2)]) (en_prog (sample_env True))"
    "pi_Tag ?info \<noteq> ''''" and host: "\<forall>ifs. ho_Interfaces (en_host (sample_env True)) = Some ifs \<longrightarrow> distinct (map if_Name ifs)"
    by (simp_all add: sample_env_def ref_netlink_sel)
  from restart_leaves_one_filter [OF ref_tc.reliable_tc_kernel_axioms s info inj host] s show ?thesis by auto
qed

end
