(* ===== verification/Map_Sizes.thy ===== *)
theory Map_Sizes
  imports Loader Detection
begin

text \<open>
  The maps of \<^verbatim>\<open>bpf/packet_loss.bpf.c\<close> as they are declared: type, number of entries, key and value size.

  The prefix maps hold at most \<^verbatim>\<open>MAX_ZONE_ENTRIES\<close> prefixes. The locale \<open>bounded_lpm_trie\<close> adds this
  to the interface of the kernel's map: an update that would need one entry more is refused.
  \<open>lpm_bounded_update\<close> implements it. The bits of the filter are laid out over the array \<^verbatim>\<open>bloom_bits\<close> without
  gap or overlap.
\<close>

subsection \<open>Declarations\<close>

definition MAX_ZONE_ENTRIES :: nat where
  "MAX_ZONE_ENTRIES = 64"

record map_decl =
  mp_name :: string
  mp_type :: bpf_map_type
  mp_max_entries :: nat
  mp_key_size :: nat
  mp_value_size :: nat

definition bloom_word_layout :: cstruct where
  "bloom_word_layout = [(''gen'', CU64), (''bits'', CU64)]"

definition bloom_epoch_layout :: cstruct where
  "bloom_epoch_layout = [(''gen'', CU64), (''start_ns'', CU64)]"

definition zoneLpmKey_layout :: cstruct where
  "zoneLpmKey_layout = [(''PrefixLen'', CU32), (''Addr'', CU32)]"

definition lpm_decl :: "string \<Rightarrow> map_decl" where
  "lpm_decl name =
     \<lparr>mp_name = name, mp_type = BPF_MAP_TYPE_LPM_TRIE, mp_max_entries = MAX_ZONE_ENTRIES,
      mp_key_size = ctype_size CU32 + ctype_size CU32, mp_value_size = ctype_size CU8\<rparr>"

definition array_decl :: "string \<Rightarrow> bpf_map_type \<Rightarrow> nat \<Rightarrow> nat \<Rightarrow> map_decl" where
  "array_decl name t n v =
     \<lparr>mp_name = name, mp_type = t, mp_max_entries = n, mp_key_size = ctype_size CU32, mp_value_size = v\<rparr>"

text \<open>For the ring buffer \<^verbatim>\<open>max_entries\<close> is its size in bytes, and it has no key and value size.\<close>

definition declared_maps :: "map_decl list" where
  "declared_maps =
     [lpm_decl ''zone_lpm'', lpm_decl ''src_zone_lpm'',
      array_decl ''bloom_bits'' BPF_MAP_TYPE_ARRAY (2 * BLOOM_WORDS) (sizeof bloom_word_layout),
      array_decl ''bloom_epoch'' BPF_MAP_TYPE_ARRAY 1 (sizeof bloom_epoch_layout),
      \<lparr>mp_name = ''stats_rb'', mp_type = BPF_MAP_TYPE_RINGBUF, mp_max_entries = 2 ^ 16, mp_key_size = 0, mp_value_size = 0\<rparr>,
      array_decl ''debug_tcp_payload'' BPF_MAP_TYPE_PERCPU_ARRAY 1 (ctype_size CU64),
      array_decl ''debug_tcp_zoned'' BPF_MAP_TYPE_PERCPU_ARRAY 1 (ctype_size CU64),
      array_decl ''debug_seen'' BPF_MAP_TYPE_PERCPU_ARRAY 1 (ctype_size CU64),
      array_decl ''debug_not_ipv4'' BPF_MAP_TYPE_PERCPU_ARRAY 1 (ctype_size CU64),
      array_decl ''debug_not_tcp'' BPF_MAP_TYPE_PERCPU_ARRAY 1 (ctype_size CU64),
      array_decl ''debug_tcp_short'' BPF_MAP_TYPE_PERCPU_ARRAY 1 (ctype_size CU64),
      array_decl ''debug_tcp_pure_ack'' BPF_MAP_TYPE_PERCPU_ARRAY 1 (ctype_size CU64),
      array_decl ''debug_no_src_zone'' BPF_MAP_TYPE_PERCPU_ARRAY 1 (ctype_size CU64),
      array_decl ''debug_no_dst_zone'' BPF_MAP_TYPE_PERCPU_ARRAY 1 (ctype_size CU64)]"

definition declared :: "string \<Rightarrow> nat" where
  "declared name = (case find (\<lambda>d. mp_name d = name) declared_maps of None \<Rightarrow> 0 | Some d \<Rightarrow> mp_max_entries d)"

lemma declared_values [simp]:
  "declared ''zone_lpm'' = 64" "declared ''src_zone_lpm'' = 64" "declared ''bloom_bits'' = 2 * BLOOM_WORDS"
  "declared ''bloom_epoch'' = 1" "declared ''debug_tcp_payload'' = 1" "declared ''debug_tcp_zoned'' = 1"
  "declared ''debug_seen'' = 1" "declared ''debug_not_ipv4'' = 1" "declared ''debug_not_tcp'' = 1"
  "declared ''debug_tcp_short'' = 1" "declared ''debug_tcp_pure_ack'' = 1" "declared ''debug_no_src_zone'' = 1"
  "declared ''debug_no_dst_zone'' = 1"
  by (simp_all add: declared_def declared_maps_def lpm_decl_def array_decl_def MAX_ZONE_ENTRIES_def)

subsection \<open>A prefix map of bounded size\<close>

locale bounded_lpm_trie = lpm_trie +
  fixes n :: nat
  assumes update_iff: "finite (dom m) \<Longrightarrow>
      update m q v \<noteq> None \<longleftrightarrow> unat (fst q) \<le> 32 \<and> (lpm_canon bo q \<in> dom m \<or> card (dom m) < n)"
begin

lemma update_bounded:
  assumes "update m q v = Some m'" and "finite (dom m)" and "card (dom m) \<le> n"
  shows "finite (dom m') \<and> card (dom m') \<le> n"
proof -
  have "lpm_canon bo q \<in> dom m \<or> card (dom m) < n" using update_iff [OF assms(2), of q v] assms(1) by blast
  with update_Some [OF assms(1)] assms(2,3) show ?thesis by (auto simp: card_insert_if insert_absorb)
qed

end

definition lpm_bounded_update :: "byte_order \<Rightarrow> nat \<Rightarrow> lpm_map \<Rightarrow> u32 \<times> u32 \<Rightarrow> u8 \<Rightarrow> lpm_map option" where
  "lpm_bounded_update bo n m q v =
     (if lpm_canon bo q \<in> dom m \<or> card (dom m) < n then lpm_ref_update bo m q v else None)"

interpretation lpm_bounded: bounded_lpm_trie bo "lpm_ref_lookup bo" "lpm_bounded_update bo n" n for bo n
proof
  fix m q v m'
  assume "lpm_bounded_update bo n m q v = Some m'"
  then show "unat (fst q) \<le> 32 \<and> m' = m(lpm_canon bo q \<mapsto> v)"
    using lpm_ref.update_Some [of bo m q v m'] by (auto simp: lpm_bounded_update_def split: if_splits)
qed (use lpm_ref.lookup_Some lpm_ref.lookup_None in \<open>auto simp: lpm_bounded_update_def lpm_ref_update_def\<close>)

text \<open>Filling a table succeeds exactly if the table fits.\<close>

lemma put_entries_iff:
  assumes trie: "bounded_lpm_trie (k_order k) (k_lpm_lookup k) (k_lpm_update k) n"
    and "finite (dom m)" and "card (dom m) \<le> n"
  shows "(\<exists>m'. put_entries k m es = Inr m') \<longleftrightarrow>
     (\<forall>e\<in>set es. unat (fst (entry_key (k_order k) e)) \<le> 32) \<and> card (dom m \<union> entry_key (k_order k) ` set es) \<le> n"
  using assms(2,3)
proof (induction es arbitrary: m)
  case (Cons e es)
  let ?key = "entry_key (k_order k) e"
  note iff = bounded_lpm_trie.update_iff [OF trie Cons.prems(1), of "lpmKeyFromNet (k_order k) (Prefix e)" "ZoneID e"]
  show ?case
  proof (cases "k_lpm_update k m (lpmKeyFromNet (k_order k) (Prefix e)) (ZoneID e)")
    case None
    then have "unat (fst ?key) > 32 \<or> ?key \<notin> dom m \<and> card (dom m) \<ge> n"
      using iff by (auto simp: entry_key_def)
    moreover have "card (dom m) < card (dom m \<union> entry_key (k_order k) ` set (e # es))" if "?key \<notin> dom m"
      by (rule psubset_card_mono) (use Cons.prems(1) that in auto)
    ultimately have "\<not> ((\<forall>f\<in>set (e # es). unat (fst (entry_key (k_order k) f)) \<le> 32) \<and>
        card (dom m \<union> entry_key (k_order k) ` set (e # es)) \<le> n)" by fastforce
    with None show ?thesis by simp
  next
    case (Some m1)
    have m1: "dom m1 = insert ?key (dom m)" "unat (fst ?key) \<le> 32"
      using lpm_trie.update_Some [OF bounded_lpm_trie.axioms(1) [OF trie] Some] by (simp_all add: entry_key_def)
    have b: "finite (dom m1)" "card (dom m1) \<le> n"
      using bounded_lpm_trie.update_bounded [OF trie Some Cons.prems] by auto
    from Cons.IH [OF b] show ?thesis using Some m1 by simp
  qed
qed simp

text \<open>
  C22. Loading succeeds exactly if the tables fit the prefix maps: every prefix length is at most 32 and
  neither table has more than \<^verbatim>\<open>MAX_ZONE_ENTRIES\<close> different prefixes. Nothing in the validation
  of the configuration ensures this.
\<close>

theorem load_succeeds_iff_tables_fit:
  assumes "bounded_lpm_trie (k_order k) (k_lpm_lookup k) (k_lpm_update k) MAX_ZONE_ENTRIES"
  shows "(\<exists>s. Load_bpf k (Some (bpf_init Map.empty Map.empty)) ds ss = Inr s) \<longleftrightarrow>
     (\<forall>e\<in>set (ds @ ss). unat (fst (lpmKeyFromNet (k_order k) (Prefix e))) \<le> 32) \<and>
     card (entry_key (k_order k) ` set ds) \<le> 64 \<and> card (entry_key (k_order k) ` set ss) \<le> 64"
proof -
  have put: "(\<exists>m. put_entries k Map.empty es = Inr m) \<longleftrightarrow>
      (\<forall>e\<in>set es. unat (fst (lpmKeyFromNet (k_order k) (Prefix e))) \<le> 32) \<and> card (entry_key (k_order k) ` set es) \<le> 64" for es
    using put_entries_iff [OF assms, of Map.empty es] by (simp add: MAX_ZONE_ENTRIES_def entry_key_def)
  have "(\<exists>s. Load_bpf k (Some (bpf_init Map.empty Map.empty)) ds ss = Inr s) \<longleftrightarrow>
      (\<exists>m. put_entries k Map.empty ds = Inr m) \<and> (\<exists>m. put_entries k Map.empty ss = Inr m)"
    by (auto simp: Load_bpf_def bpf_init_def split: sum.splits)
  with put show ?thesis by auto
qed

subsection \<open>The addresses of the filter bits\<close>

text \<open>Half of the array, word in it and bit of the word, from the bit number and the generation.\<close>

lemma bloom_mask_mod: "bloom_mask b = push_bit (unat b mod 64) 1"
  by (simp add: bloom_mask_def unat_bloom_mask_pos)

lemma single_bit_eq:
  assumes "push_bit m 1 = (push_bit n 1 :: u64)" and "m < 64"
  shows "m = n"
proof -
  have "bit (push_bit m 1 :: u64) m" using assms(2) by (simp only: bit_push_bit_iff bit_1_iff) simp
  then have "bit (push_bit n 1 :: u64) m" unfolding assms(1) .
  then show ?thesis unfolding bit_push_bit_iff bit_1_iff by simp
qed

lemma filter_address_unique:
  assumes "valid_bit b" and "valid_bit c" and "unat (bloom_idx b g) = unat (bloom_idx c h)" and "bloom_mask b = bloom_mask c"
  shows "b = c \<and> unat g mod 2 = unat h mod 2"
proof -
  have lt: "unat b div 64 < BLOOM_WORDS" "unat c div 64 < BLOOM_WORDS"
    using assms(1,2) by (auto simp: valid_bit_def BLOOM_WORDS_def)
  have eq: "unat g mod 2 * BLOOM_WORDS + unat b div 64 = unat h mod 2 * BLOOM_WORDS + unat c div 64"
    using assms(1-3) by (simp add: unat_bloom_idx)
  then have half: "unat g mod 2 = unat h mod 2" using lt by (rule half_unique)
  with eq have "unat b div 64 = unat c div 64" by simp
  moreover have "unat b mod 64 = unat c mod 64"
    using assms(4) by (intro single_bit_eq) (simp_all add: bloom_mask_mod)
  ultimately have "unat b = unat c" by (metis div_mult_mod_eq)
  with half show ?thesis by (simp add: word_unat_eq_iff)
qed

lemma filter_address_exists:
  assumes "i < 2 * BLOOM_WORDS" and "n < 64"
  shows "\<exists>b g. valid_bit b \<and> (g = 0 \<or> g = 1) \<and> unat (bloom_idx b g) = i \<and> bloom_mask b = push_bit n 1"
proof -
  let ?w = "i mod BLOOM_WORDS" and ?h = "i div BLOOM_WORDS"
  have w: "?w < BLOOM_WORDS" by (simp add: BLOOM_WORDS_def)
  have h: "?h = 0 \<or> ?h = 1" using assms(1) less_mult_imp_div_less [of i 2 BLOOM_WORDS] by auto
  obtain b :: u32 where b: "unat b = ?w * 64 + n"
  proof
    show "unat (of_nat (?w * 64 + n) :: u32) = ?w * 64 + n" using assms(2) unfolding unat_of_nat BLOOM_WORDS_def by simp
  qed
  obtain g :: u64 where g: "g = 0 \<or> g = 1" "unat g mod 2 = ?h" using h that [of 0] that [of 1] by auto
  have valid: "valid_bit b" using w assms(2) by (simp add: valid_bit_def BLOOM_WORDS_def b)
  then have "unat (bloom_idx b g) = ?h * BLOOM_WORDS + ?w" using assms(2) g(2) by (simp add: unat_bloom_idx b)
  moreover have "bloom_mask b = push_bit n 1" using assms(2) by (simp add: bloom_mask_mod b)
  ultimately show ?thesis using valid g(1) by (intro exI [of _ b] exI [of _ g]) simp
qed

lemma filter_address_bound: "valid_bit b \<Longrightarrow> unat (bloom_idx b g) < 2 * BLOOM_WORDS"
  using bloom_idx_in_dom [OF bloom_bits_init_wf, of b g] bloom_bits_init_wf by (auto simp: bloom_bits_wf_def)

text \<open>
  C23. The filter uses the declared map to the last bit, and no bit twice. The hash of any key is one of
  the filter's bit numbers; of a generation only its parity counts; and bit number and parity together
  are mapped one to one onto the pairs of an index below the \<^verbatim>\<open>max_entries\<close> of \<^verbatim>\<open>bloom_bits\<close> and one of
  the 64 bits of the word there. So no access of the filter misses the array, different bits never share
  a place, and consecutive generations have disjoint halves.
\<close>

theorem filter_bits_fill_the_map:
  "bij_betw (\<lambda>(b, g). (unat (bloom_idx b g), bloom_mask b)) ({b. valid_bit b} \<times> {0, 1})
     ({..<declared ''bloom_bits''} \<times> (\<lambda>n. push_bit n 1) ` {..<64}) \<and>
   valid_bit (bloom_bit_index sa da sp dp q seed) \<and> bloom_idx b g = bloom_idx b (g AND 1)"
proof (intro conjI)
  show "bij_betw (\<lambda>(b, g). (unat (bloom_idx b g), bloom_mask b)) ({b. valid_bit b} \<times> {0, 1})
      ({..<declared ''bloom_bits''} \<times> (\<lambda>n. push_bit n 1) ` {..<64})" (is "bij_betw ?f ?A ?B")
  proof (rule bij_betw_imageI)
    show "inj_on ?f ?A"
    proof (rule inj_onI, clarsimp)
      fix b c :: u32 and g h :: u64
      assume a: "valid_bit b" "valid_bit c" "unat (bloom_idx b g) = unat (bloom_idx c h)" "bloom_mask b = bloom_mask c"
        and g: "g = 0 \<or> g = 1" "h = 0 \<or> h = 1"
      from filter_address_unique [OF a] g show "b = c \<and> g = h" by auto
    qed
    show "?f ` ?A = ?B"
    proof (rule set_eqI, clarify)
      fix i :: nat and x :: u64
      show "(i, x) \<in> ?f ` ?A \<longleftrightarrow> (i, x) \<in> ?B"
        using filter_address_exists [of i] filter_address_bound [of _ _]
        by (auto simp: image_iff bloom_mask_mod) (metis mod_less_divisor zero_less_numeral)+
    qed
  qed
  show "valid_bit (bloom_bit_index sa da sp dp q seed)" by (rule valid_bit_index)
  show "bloom_idx b g = bloom_idx b (g AND 1)" by (simp add: bloom_idx_def and.assoc)
qed

subsection \<open>A table that does not fit\<close>

definition bounded_kernel :: "byte_order \<Rightarrow> kernel" where
  "bounded_kernel bo = (ref_kernel bo)\<lparr>k_lpm_update := lpm_bounded_update bo MAX_ZONE_ENTRIES\<rparr>"

lemma bounded_kernel_trie:
  "bounded_lpm_trie (k_order (bounded_kernel bo)) (k_lpm_lookup (bounded_kernel bo)) (k_lpm_update (bounded_kernel bo)) MAX_ZONE_ENTRIES"
  using lpm_bounded.bounded_lpm_trie_axioms by (simp add: bounded_kernel_def)

text \<open>\<open>n\<close> networks \<^verbatim>\<open>10.0.i.0/24\<close>.\<close>

definition many_entries :: "nat \<Rightarrow> zone_entry list" where
  "many_entries n = map (\<lambda>i. \<lparr>ZoneID = 1, Prefix = \<lparr>net_ip = [10, 0, of_nat i, 0], net_mask = cidr_mask 4 24\<rparr>\<rparr>) [0..<n]"

lemma many_v4: "e \<in> set (many_entries n) \<Longrightarrow> net_v4 (Prefix e)"
  by (auto simp: many_entries_def net_v4_def net_len_def Mask_Size_cidr_mask)

lemma many_keys:
  assumes "n \<le> 256"
  shows "card (entry_key Little ` set (many_entries n)) = n"
proof -
  let ?e = "\<lambda>i. \<lparr>ZoneID = 1, Prefix = \<lparr>net_ip = [10, 0, of_nat i, 0], net_mask = cidr_mask 4 24\<rparr>\<rparr>"
  have "i = j" if ij: "i < 256" "j < 256" and key: "entry_key Little (?e i) = entry_key Little (?e j)" for i j
  proof -
    have v4: "net_v4 (Prefix (?e i))" for i by (simp add: net_v4_def net_len_def Mask_Size_cidr_mask)
    let ?a = "[10, 0, of_nat j, 0] :: bytes"
    have "net_covers (Prefix (?e j)) ?a" by (simp add: net_covers_def)
    then have "net_covers (Prefix (?e i)) ?a"
      using entry_key_v4(2) [OF v4, of ?a Little i] entry_key_v4(2) [OF v4, of ?a Little j] key by simp
    then have "map (bit (of_nat i :: u8)) (rev [0..<8]) = map (bit (of_nat j :: u8)) (rev [0..<8])"
      by (simp add: net_covers_def net_len_def Mask_Size_cidr_mask mask_bits_Cons del: upt_conv_Cons)
    then have "bit (of_nat i :: u8) m = bit (of_nat j :: u8) m" if "m < 8" for m using that by simp
    then have "(of_nat i :: u8) = of_nat j" by (intro bit_word_eqI) simp
    then have "unat (of_nat i :: u8) = unat (of_nat j :: u8)" by simp
    with ij show ?thesis by (simp add: unat_of_nat)
  qed
  then have "inj_on (\<lambda>i. entry_key Little (?e i)) {0..<n}" using assms by (intro inj_onI) auto
  from card_image [OF this] show ?thesis by (simp add: many_entries_def image_image)
qed

theorem load_succeeds_iff_tables_fit_witness:
  "(\<exists>s. Load_bpf (bounded_kernel Little) (Some (bpf_init Map.empty Map.empty)) (many_entries 64) [] = Inr s) \<and>
   (\<nexists>s. Load_bpf (bounded_kernel Little) (Some (bpf_init Map.empty Map.empty)) (many_entries 65) [] = Inr s)"
proof -
  have order: "k_order (bounded_kernel Little) = Little" by (simp add: bounded_kernel_def)
  have "\<forall>e\<in>set (many_entries n). unat (fst (lpmKeyFromNet Little (Prefix e))) \<le> 32" for n
    using many_v4 lpmKey_v4 by blast
  then show ?thesis
    by (simp add: load_succeeds_iff_tables_fit [OF bounded_kernel_trie] order many_keys del: not_ex)
qed

end
