(* ===== verification/Ideal_Filter.thy ===== *)
theory Ideal_Filter
  imports Detection
begin

text \<open>
  What the duplicate filter of \<^verbatim>\<open>bpf/packet_loss.bpf.c\<close> means, without words and generation numbers: two
  sets of bits, those of the current epoch and those of the previous one. A roll of the epoch makes
  the current set the previous one. The filter implements this exactly, as long as fewer
  than \<open>2^64\<close> epochs pass, so what is reported is a matter of the sets alone.
\<close>

subsection \<open>The ideal filter\<close>

record ideal =
  id_start :: u64
  id_cur :: "u32 set"
  id_prev :: "u32 set"

definition ideal_init :: ideal where
  "ideal_init = \<lparr>id_start = 0, id_cur = {}, id_prev = {}\<rparr>"

definition ideal_roll :: "u64 \<Rightarrow> ideal \<Rightarrow> ideal" where
  "ideal_roll now a =
     (if now > id_start a \<and> now - id_start a > BLOOM_EPOCH_NS
      then \<lparr>id_start = now, id_cur = {}, id_prev = id_cur a\<rparr> else a)"

definition ideal_lookup :: "u32 list \<Rightarrow> ideal \<Rightarrow> bool \<times> ideal" where
  "ideal_lookup bs a = (\<forall>b\<in>set bs. b \<in> id_cur a \<union> id_prev a, a\<lparr>id_cur := set bs \<union> id_cur a\<rparr>)"

definition ideal_check :: "kernel \<Rightarrow> segment \<Rightarrow> ideal \<Rightarrow> bool \<times> ideal" where
  "ideal_check k sg a = (case segment_key k sg of None \<Rightarrow> (False, a) | Some key \<Rightarrow> ideal_lookup (key_bits key) a)"

text \<open>The events of a run; \<open>s\<close> only gives the prefix maps, which do not change.\<close>

fun ideal_events :: "kernel \<Rightarrow> bpf_state \<Rightarrow> invocation list \<Rightarrow> ideal \<Rightarrow> stats_event list" where
  "ideal_events k s [] a = []"
| "ideal_events k s (iv # ivs) a =
     (case classify k s (iv_skb iv) of
        Zoned sg z \<Rightarrow>
          let (r, a') = ideal_check k sg (ideal_roll (iv_now iv) a) in event_of iv z r @ ideal_events k s ivs a'
      | _ \<Rightarrow> ideal_events k s ivs a)"

subsection \<open>The simulation\<close>

text \<open>\<open>n\<close> is the number of rolls so far; no word is of a later generation.\<close>

definition filter_rel :: "nat \<Rightarrow> bloom_epoch_map \<Rightarrow> bloom_bits_map \<Rightarrow> ideal \<Rightarrow> bool" where
  "filter_rel n em m a \<longleftrightarrow>
     n < 2 ^ 64 \<and> bloom_bits_wf m \<and> em 0 = Some \<lparr>ep_gen = of_nat n, ep_start_ns = id_start a\<rparr> \<and>
     (\<forall>b. valid_bit b \<longrightarrow> (bloom_test_bit_gen m b (of_nat n) \<longleftrightarrow> b \<in> id_cur a) \<and>
        (bloom_test_bit_gen m b (of_nat n - 1) \<longleftrightarrow> b \<in> id_prev a)) \<and>
     (\<forall>i w. m i = Some w \<longrightarrow> unat (bw_gen w) \<le> n)"

lemma test_set_same:
  assumes "bloom_bits_wf m" and "valid_bit b" and "valid_bit c"
  shows "bloom_test_bit_gen (bloom_set_bit_gen m c g) b g \<longleftrightarrow> b = c \<or> bloom_test_bit_gen m b g"
proof (cases "bloom_idx b g = bloom_idx c g")
  case False
  then show ?thesis by (auto simp: bloom_test_bit_gen_iff bloom_set_bit_gen_eq map_write_other)
next
  case True
  obtain w where w: "m (bloom_idx c g) = Some w" using bloom_idx_in_dom [OF assms(1,3)] by blast
  have "bloom_mask c AND bloom_mask b \<noteq> 0 \<Longrightarrow> b = c" using same_word_same_bit [OF assms(2,3)] True by metis
  moreover have "bloom_test_bit_gen (bloom_set_bit_gen m c g) b g \<longleftrightarrow>
      ((if bw_gen w = g then bw_bits w else 0) OR bloom_mask c) AND bloom_mask b \<noteq> 0"
    using w True by (simp add: bloom_test_bit_gen_iff bloom_set_bit_gen_eq map_write_same bloom_word_set_def)
  moreover have "bloom_test_bit_gen m b g \<longleftrightarrow> bw_gen w = g \<and> bw_bits w AND bloom_mask b \<noteq> 0"
    using w True by (simp add: bloom_test_bit_gen_iff)
  ultimately show ?thesis using bloom_mask_nonzero [of b]
    by (auto simp: bit.conj_disj_distrib2 or_eq_0_iff)
qed

lemma test_set_prev:
  assumes "valid_bit b" and "valid_bit c"
  shows "bloom_test_bit_gen (bloom_set_bit_gen m c g) b (g - 1) \<longleftrightarrow> bloom_test_bit_gen m b (g - 1)"
  using bloom_idx_next [OF assms, of "g - 1"]
  by (simp add: bloom_test_bit_gen_iff bloom_set_bit_gen_eq map_write_other)

lemma filter_rel_set:
  assumes "filter_rel n em m a" and "valid_bit c"
  shows "filter_rel n em (bloom_set_bit_gen m c (of_nat n)) (a\<lparr>id_cur := insert c (id_cur a)\<rparr>)"
proof -
  have "unat (bw_gen w) \<le> n" if "bloom_set_bit_gen m c (of_nat n) i = Some w" for i w
    using that assms(1) by (auto simp: filter_rel_def bloom_set_bit_gen_eq map_write_def bloom_word_set_def unat_of_nat
        split: option.splits if_splits)
  with assms show ?thesis
    by (simp add: filter_rel_def test_set_same test_set_prev bloom_set_wf)
qed

lemma filter_rel_sets:
  "filter_rel n em m a \<Longrightarrow> \<forall>b\<in>set bs. valid_bit b \<Longrightarrow>
     filter_rel n em (foldl (\<lambda>m b. bloom_set_bit_gen m b (of_nat n)) m bs) (a\<lparr>id_cur := set bs \<union> id_cur a\<rparr>)"
proof (induction bs arbitrary: m a)
  case (Cons b bs)
  from Cons.IH [OF filter_rel_set [OF Cons.prems(1)]] Cons.prems(2) show ?case by simp
qed simp

lemma filter_rel_roll:
  assumes "filter_rel n em m a" and "Suc n < 2 ^ 64"
  shows "\<exists>n'\<le>Suc n. filter_rel n' (bloom_maybe_roll_epoch now em) m (ideal_roll now a)"
proof (cases "now > id_start a \<and> now - id_start a > BLOOM_EPOCH_NS")
  case True
  have "\<not> bloom_test_bit_gen m b (of_nat (Suc n))" for b
  proof
    assume "bloom_test_bit_gen m b (of_nat (Suc n))"
    then obtain i w where "m i = Some w" "bw_gen w = of_nat (Suc n)" by (auto simp: bloom_test_bit_gen_iff)
    with assms have "unat (of_nat (Suc n) :: u64) \<le> n" unfolding filter_rel_def by metis
    with assms(2) show False by (simp add: unat_of_nat del: of_nat_Suc)
  qed
  then have "filter_rel (Suc n) (bloom_maybe_roll_epoch now em) m (ideal_roll now a)"
    using assms True by (auto simp: filter_rel_def ideal_roll_def roll_epoch_eq add.commute le_Suc_eq)
  then show ?thesis by blast
next
  case False
  then have "filter_rel n (bloom_maybe_roll_epoch now em) m (ideal_roll now a)"
    using assms by (auto simp: filter_rel_def ideal_roll_def roll_epoch_eq)
  then show ?thesis by (meson le_SucI le_refl)
qed

lemma filter_rel_check:
  assumes rel: "filter_rel n (bloom_epoch s) (bloom_bits s) a"
  shows "fst (retrans_check k sg s) = fst (ideal_check k sg a) \<and>
    filter_rel n (bloom_epoch s) (snd (retrans_check k sg s)) (snd (ideal_check k sg a))"
proof (cases "segment_key k sg")
  case None
  with rel show ?thesis by (simp add: retrans_check_None ideal_check_def)
next
  case (Some key)
  obtain sa da sp dp q where key: "key = (sa, da, sp, dp, q)" by (cases key)
  have em: "bloom_epoch s 0 = Some \<lparr>ep_gen = of_nat n, ep_start_ns = id_start a\<rparr>" using rel by (simp add: filter_rel_def)
  have "bloom_test_bit_gen (bloom_bits s) b (of_nat n) \<or> bloom_test_bit_gen (bloom_bits s) b (of_nat n - 1) \<longleftrightarrow>
      b \<in> id_cur a \<union> id_prev a" if "b \<in> set (bloom_key_bits sa da sp dp q)" for b
    using rel that bloom_key_bits_valid by (auto simp: filter_rel_def)
  with filter_rel_sets [OF rel bloom_key_bits_valid] Some key show ?thesis
    by (simp add: retrans_check_Some bloom_test_and_set_eq [of "bloom_epoch s", OF em] ideal_check_def ideal_lookup_def)
qed

lemma filter_rel_init: "filter_rel 0 bloom_epoch_init bloom_bits_init ideal_init"
proof -
  have "\<not> bloom_test_bit_gen bloom_bits_init b g" if "valid_bit b" for b g
    using bits_from_init that by (auto simp: bits_from_def)
  moreover have "unat (bw_gen w) \<le> 0" if "bloom_bits_init i = Some w" for i w
    using that by (auto simp: bloom_bits_init_def array_map_def split: if_splits)
  ultimately show ?thesis
    by (simp add: filter_rel_def ideal_init_def bloom_bits_init_wf) (simp add: bloom_epoch_init_def array_map_def)
qed

lemma filter_step_epoch: "bloom_epoch (filter_step k iv sg z s) = bloom_maybe_roll_epoch (iv_now iv) (bloom_epoch s)"
  by (simp add: filter_step_def Let_def split: prod.split)

lemma egress_effect_unzoned:
  "\<forall>sg z. classify k s (iv_skb iv) \<noteq> Zoned sg z \<Longrightarrow> egress_effect k iv s = count_class (iv_cpu iv) (classify k s (iv_skb iv)) s"
  by (cases "classify k s (iv_skb iv)") (simp_all add: egress_effect_def)

lemma filter_step_sim:
  assumes rel: "filter_rel n (bloom_epoch s) (bloom_bits s) a" and "Suc n < 2 ^ 64"
    and "ideal_check k sg (ideal_roll (iv_now iv) a) = (r, a')"
  shows "\<exists>n'\<le>Suc n. filter_rel n' (bloom_epoch (filter_step k iv sg z s)) (bloom_bits (filter_step k iv sg z s)) a' \<and>
    stats_rb (filter_step k iv sg z s) = stats_rb s @ event_of iv z r"
proof -
  obtain n' where n': "n' \<le> Suc n"
    "filter_rel n' (bloom_maybe_roll_epoch (iv_now iv) (bloom_epoch s)) (bloom_bits s) (ideal_roll (iv_now iv) a)"
    using filter_rel_roll [OF rel assms(2)] by blast
  let ?t = "s\<lparr>bloom_epoch := bloom_maybe_roll_epoch (iv_now iv) (bloom_epoch s)\<rparr>"
  have "filter_rel n' (bloom_epoch ?t) (bloom_bits ?t) (ideal_roll (iv_now iv) a)" using n' by simp
  from filter_rel_check [OF this, of k sg] assms(3) n'(1) show ?thesis
    by (intro exI [of _ n']) (simp add: filter_step_bits filter_step_epoch)
qed

lemma ideal_events_run:
  assumes "filter_rel n (bloom_epoch s) (bloom_bits s) a" and "n + length ivs < 2 ^ 64"
    and "zone_lpm s = zone_lpm s0" and "src_zone_lpm s = src_zone_lpm s0"
  shows "stats_rb (foldl (\<lambda>s iv. egress_effect k iv s) s ivs) = stats_rb s @ ideal_events k s0 ivs a"
  using assms
proof (induction ivs arbitrary: n s a)
  case (Cons iv ivs)
  have same: "classify k s (iv_skb iv) = classify k s0 (iv_skb iv)" by (rule classify_cong) (use Cons.prems in simp_all)
  show ?case
  proof (cases "\<exists>sg z. classify k s0 (iv_skb iv) = Zoned sg z")
    case True
    then obtain sg z where z: "classify k s0 (iv_skb iv) = Zoned sg z" by blast
    let ?t = "count_class (iv_cpu iv) (Zoned sg z) s"
    obtain r a' where c: "ideal_check k sg (ideal_roll (iv_now iv) a) = (r, a')" by fastforce
    have "filter_rel n (bloom_epoch ?t) (bloom_bits ?t) a" "Suc n < 2 ^ 64" using Cons.prems by simp_all
    from filter_step_sim [OF this c, of z] obtain n' where n': "n' \<le> Suc n"
      "filter_rel n' (bloom_epoch (filter_step k iv sg z ?t)) (bloom_bits (filter_step k iv sg z ?t)) a'"
      "stats_rb (filter_step k iv sg z ?t) = stats_rb s @ event_of iv z r" by auto
    have eff: "egress_effect k iv s = filter_step k iv sg z ?t" by (simp add: egress_effect_def same z)
    have "stats_rb (foldl (\<lambda>s iv. egress_effect k iv s) (egress_effect k iv s) ivs) =
        stats_rb (egress_effect k iv s) @ ideal_events k s0 ivs a'"
      by (rule Cons.IH [of n']) (use Cons.prems n' eff in simp_all)
    with n'(3) eff z c show ?thesis by simp
  next
    case False
    then have eff: "egress_effect k iv s = count_class (iv_cpu iv) (classify k s0 (iv_skb iv)) s"
      using egress_effect_unzoned [of k s iv] same by simp_all
    have ev: "ideal_events k s0 (iv # ivs) a = ideal_events k s0 ivs a"
      using False by (cases "classify k s0 (iv_skb iv)") simp_all
    have "stats_rb (foldl (\<lambda>s iv. egress_effect k iv s) (egress_effect k iv s) ivs) =
        stats_rb (egress_effect k iv s) @ ideal_events k s0 ivs a"
      by (rule Cons.IH [of n]) (use Cons.prems eff in simp_all)
    with eff ev show ?thesis by simp
  qed
qed simp

text \<open>
  C2. The duplicate filter is exactly two sets of filter bits, those of the current and those of the
  previous epoch: over any run from the loaded maps, of fewer than \<open>2^64\<close> packets, the events in
  the ring buffer are those of the ideal filter. Generation numbers, the words shared by many
  bits and their re-use by parity never show.
\<close>

theorem filter_is_two_sets:
  assumes "run_egress k ivs (bpf_init dst src) = Some s" and "length ivs < 2 ^ 64"
  shows "stats_rb s = ideal_events k (bpf_init dst src) ivs ideal_init"
proof -
  have "filter_rel 0 (bloom_epoch (bpf_init dst src)) (bloom_bits (bpf_init dst src)) ideal_init"
    using filter_rel_init by (simp add: bpf_init_def)
  from ideal_events_run [OF this, of ivs "bpf_init dst src" k] assms show ?thesis
    by (simp add: run_egress_eq bpf_init_def)
qed

text \<open>
  There is no limit to how long ago the first copy was sent: a repeated segment is reported after
  any pause, as long as the packets that reach the filter after the first copy, the repeated segment
  included, fall into one epoch's length. The filter forgets only when packets make it.
\<close>

theorem reported_after_any_pause:
  assumes "filter_wf s" and "classify k s (iv_skb iv1) = Zoned sg1 z1" and "segment_key k sg1 = Some key"
    and "run_egress k (iv1 # ivs) s = Some s1"
    and "\<forall>iv\<in>set ivs. in_window since (iv_now iv) \<or> (\<forall>sg z. classify k s (iv_skb iv) \<noteq> Zoned sg z)"
    and "in_window since (iv_now iv2)"
    and "classify k s (iv_skb iv2) = Zoned sg2 z2" and "segment_key k sg2 = Some key"
    and "iv_reserve iv2 = Some slot"
  shows "\<exists>s2. path_egress k iv2 s1 = Some (TC_ACT_UNSPEC, s2) \<and>
     stats_rb s2 = stats_rb s1 @ [\<lparr>ev_ifindex = sk_ifindex (iv_skb iv2), ev_dst_zone_id = z2,
                                    ev_is_retrans = 1, ev_pad = ev_pad slot\<rparr>]"
proof -
  let ?s0 = "egress_effect k iv1 s"
  have s1: "s1 = foldl (\<lambda>s iv. egress_effect k iv s) ?s0 ivs"
    using assms(4) by (simp add: run_egress_eq path_egress_eq)
  obtain g where g: "bloom_remembers (key_bits key) g since (bloom_epoch ?s0) (bloom_bits ?s0)"
    using remembers_first [OF assms(1-3)] by blast
  have "bloom_remembers bs g since (bloom_epoch (foldl (\<lambda>s iv. egress_effect k iv s) t ivs))
      (bloom_bits (foldl (\<lambda>s iv. egress_effect k iv s) t ivs))"
    if "bloom_remembers bs g since (bloom_epoch t) (bloom_bits t)" "zone_lpm t = zone_lpm s" "src_zone_lpm t = src_zone_lpm s" for bs t
    using assms(5) that
  proof (induction ivs arbitrary: t)
    case (Cons iv ivs)
    have same: "classify k t (iv_skb iv) = classify k s (iv_skb iv)" by (rule classify_cong) (use Cons.prems in simp_all)
    have "bloom_remembers bs g since (bloom_epoch (egress_effect k iv t)) (bloom_bits (egress_effect k iv t))"
    proof (cases "in_window since (iv_now iv)")
      case True
      with Cons.prems(2) show ?thesis by (rule remembers_effect)
    next
      case False
      with Cons.prems(1) have "egress_effect k iv t = count_class (iv_cpu iv) (classify k s (iv_skb iv)) t"
        using egress_effect_unzoned [of k t iv] same by simp
      with Cons.prems(2) show ?thesis by simp
    qed
    with Cons.IH [of "egress_effect k iv t"] Cons.prems show ?case by simp
  qed simp
  from this [OF g] have mem: "bloom_remembers (key_bits key) g since (bloom_epoch s1) (bloom_bits s1)" by (simp add: s1)
  have "classify k s1 (iv_skb iv2) = Zoned sg2 z2"
    using assms(7) classify_cong [of s1 s] s1 by simp
  from remembers_flagged [OF mem assms(6) this assms(8)] assms(9) show ?thesis
    by (simp add: path_egress_eq event_of_def)
qed

subsection \<open>Sample runs\<close>

theorem filter_is_two_sets_witness:
  "\<exists>s. run_egress (ref_kernel Little) [sample_invocation 48 16 0x18 5, sample_invocation 48 16 0x18 9] sample_state = Some s \<and>
     stats_rb s = ideal_events (ref_kernel Little) sample_state [sample_invocation 48 16 0x18 5, sample_invocation 48 16 0x18 9] ideal_init \<and>
     map ev_is_retrans (stats_rb s) = [0, 1]"
proof -
  let ?k = "ref_kernel Little" and ?iv = "\<lambda>t. sample_invocation 48 16 0x18 t"
  obtain s where s: "run_egress ?k [?iv 5, ?iv 9] sample_state = Some s" using run_egress_total by blast
  have ev: "stats_rb s = ideal_events ?k sample_state [?iv 5, ?iv 9] ideal_init"
    unfolding sample_state_def by (rule filter_is_two_sets) (use s in \<open>simp_all add: sample_state_def\<close>)
  have flags: "map ev_is_retrans (stats_rb s) = [0, 1]"
    unfolding ev
    by (simp add: sample_invocation_def sample_data ideal_check_def ideal_roll_def ideal_init_def segment_key_sample
        ideal_lookup_def event_of_def bloom_key_bits_def BLOOM_EPOCH_NS_def)
      (rule exI, rule disjI1, rule refl)
  show ?thesis by (intro exI [of _ s] conjI) (rule s, rule ev, rule flags)
qed

text \<open>Ten minutes later.\<close>

theorem reported_after_any_pause_witness:
  "\<exists>s1 s2. run_egress (ref_kernel Little) [sample_invocation 48 16 0x18 5] sample_state = Some s1 \<and>
     path_egress (ref_kernel Little) (sample_invocation 48 16 0x18 600000000005) s1 = Some (TC_ACT_UNSPEC, s2) \<and>
     stats_rb s2 = stats_rb s1 @ [\<lparr>ev_ifindex = 2, ev_dst_zone_id = 1, ev_is_retrans = 1, ev_pad = 7\<rparr>]"
proof -
  let ?k = "ref_kernel Little" and ?iv = "\<lambda>t. sample_invocation 48 16 0x18 t"
  obtain s1 where s1: "run_egress ?k [?iv 5] sample_state = Some s1"
    using run_egress_total by blast
  have "\<exists>s2. path_egress ?k (?iv 600000000005) s1 = Some (TC_ACT_UNSPEC, s2) \<and>
     stats_rb s2 = stats_rb s1 @ [\<lparr>ev_ifindex = sk_ifindex (iv_skb (?iv 600000000005)), ev_dst_zone_id = 1,
        ev_is_retrans = 1, ev_pad = ev_pad \<lparr>ev_ifindex = 0, ev_dst_zone_id = 0, ev_is_retrans = 0, ev_pad = 7\<rparr>\<rparr>]"
    by (rule reported_after_any_pause [where since = 600000000005, OF sample_state_wf _ segment_key_sample s1 _ _ _ segment_key_sample])
      (simp_all add: sample_invocation_def sample_data in_window_def BLOOM_EPOCH_NS_def)
  with s1 show ?thesis by (auto simp: sample_invocation_def sample_skb_def)
qed

end
