(* ===== verification/Bloom_Race.thy ===== *)
theory Bloom_Race
  imports Bloom
begin

text \<open>
  The filter under concurrency. The array maps are shared by all CPUs, so \<^verbatim>\<open>bloom_set_bit_gen\<close> and
  \<^verbatim>\<open>bloom_maybe_roll_epoch\<close> run interleaved. Each is split here into its accesses to shared memory,
  in the order of the code; a CPU is a thread with a program point, and a step lets one thread do
  one access.

  Plain reads of a shared field may be repeated or merged by the compiler, as the fields are not
  volatile: the argument \<open>reload\<close> of \<open>roll_step\<close> says which, for the epoch's start time.
\<close>

subsection \<open>Setting a bit\<close>

text \<open>
  The program points of \<^verbatim>\<open>bloom_set_bit_gen\<close> on a word: the comparison with the word's generation,
  the read of the expected value, the compare-and-swap, the clearing of the bits, the atomic or.
\<close>

datatype set_pc = Set_test | Set_expect | Set_cas u64 | Set_clear | Set_or | Set_done

record set_thread =
  st_gen :: u64
  st_mask :: u64
  st_pc :: set_pc

type_synonym set_state = "bloom_word \<times> (nat \<Rightarrow> set_thread)"

inductive set_step :: "set_state \<Rightarrow> set_state \<Rightarrow> bool" where
  test: "st_pc (ts i) = Set_test \<Longrightarrow>
    set_step (w, ts) (w, ts(i := (ts i)\<lparr>st_pc := (if bw_gen w \<noteq> st_gen (ts i) then Set_expect else Set_or)\<rparr>))"
| expect: "st_pc (ts i) = Set_expect \<Longrightarrow>
    set_step (w, ts) (w, ts(i := (ts i)\<lparr>st_pc := Set_cas (bw_gen w)\<rparr>))"
| cas: "st_pc (ts i) = Set_cas e \<Longrightarrow>
    set_step (w, ts) (w\<lparr>bw_gen := snd (sync_val_cas (bw_gen w) e (st_gen (ts i)))\<rparr>,
      ts(i := (ts i)\<lparr>st_pc :=
        (if fst (sync_val_cas (bw_gen w) e (st_gen (ts i))) \<noteq> st_gen (ts i) then Set_clear else Set_or)\<rparr>))"
| clear: "st_pc (ts i) = Set_clear \<Longrightarrow>
    set_step (w, ts) (w\<lparr>bw_bits := 0\<rparr>, ts(i := (ts i)\<lparr>st_pc := Set_or\<rparr>))"
| set_or: "st_pc (ts i) = Set_or \<Longrightarrow>
    set_step (w, ts) (w\<lparr>bw_bits := snd (sync_fetch_and_or (bw_bits w) (st_mask (ts i)))\<rparr>,
      ts(i := (ts i)\<lparr>st_pc := Set_done\<rparr>))"

inductive_cases set_stepE: "set_step s t"

inductive set_reachable :: "set_state \<Rightarrow> set_state \<Rightarrow> bool" where
  start: "set_reachable s s"
| step: "set_reachable s t \<Longrightarrow> set_step t u \<Longrightarrow> set_reachable s u"

text \<open>A thread that runs alone does what the sequential operation does.\<close>

lemma reach_trans: "set_reachable t u \<Longrightarrow> set_reachable s t \<Longrightarrow> set_reachable s u"
  by (induction rule: set_reachable.induct) (auto intro: set_reachable.step)

text \<open>
  The split into accesses is faithful: one thread that runs alone on the word takes it to the
  word the sequential \<open>bloom_set_bit_gen\<close> computes.
\<close>

theorem lone_thread_sets_as_sequential:
  assumes "m (bloom_idx b g) = Some w" and "ts 0 = \<lparr>st_gen = g, st_mask = bloom_mask b, st_pc = Set_test\<rparr>"
  shows "\<exists>w' ts'. set_reachable (w, ts) (w', ts') \<and> st_pc (ts' 0) = Set_done \<and>
     bloom_set_bit_gen m b g (bloom_idx b g) = Some w'"
proof -
  let ?or = "\<lambda>w. w\<lparr>bw_bits := bw_bits w OR bloom_mask b\<rparr>"
  have last: "set_step (w, ts) (?or w, ts(0 := (ts 0)\<lparr>st_pc := Set_done\<rparr>))"
    if "st_pc (ts 0) = Set_or" "st_mask (ts 0) = bloom_mask b" for w ts
    using set_or [of ts 0 w] that by (simp add: sync_defs)
  show ?thesis
  proof (cases "bw_gen w = g")
    case True
    let ?t1 = "ts(0 := (ts 0)\<lparr>st_pc := Set_or\<rparr>)"
    have "set_step (w, ts) (w, ?t1)" using test [of ts 0 w] assms(2) True by simp
    moreover have "set_step (w, ?t1) (?or w, ?t1(0 := (?t1 0)\<lparr>st_pc := Set_done\<rparr>))" by (rule last) (simp_all add: assms(2))
    ultimately have "set_reachable (w, ts) (?or w, ?t1(0 := (?t1 0)\<lparr>st_pc := Set_done\<rparr>))"
      by (meson set_reachable.intros)
    moreover have "bloom_set_bit_gen m b g (bloom_idx b g) = Some (?or w)"
      using assms(1) True by (simp add: bloom_set_bit_gen_eq map_write_same bloom_word_set_def)
    ultimately show ?thesis by (intro exI [of _ "?or w"] exI [of _ "?t1(0 := (?t1 0)\<lparr>st_pc := Set_done\<rparr>)"]) simp
  next
    case False
    let ?t1 = "ts(0 := (ts 0)\<lparr>st_pc := Set_expect\<rparr>)" and ?t2 = "ts(0 := (ts 0)\<lparr>st_pc := Set_cas (bw_gen w)\<rparr>)"
    let ?t3 = "ts(0 := (ts 0)\<lparr>st_pc := Set_clear\<rparr>)" and ?t4 = "ts(0 := (ts 0)\<lparr>st_pc := Set_or\<rparr>)"
    let ?w3 = "w\<lparr>bw_gen := g\<rparr>" and ?w4 = "w\<lparr>bw_gen := g, bw_bits := 0\<rparr>"
    have "set_step (w, ts) (w, ?t1)" using test [of ts 0 w] assms(2) False by simp
    moreover have "set_step (w, ?t1) (w, ?t2)" using expect [of ?t1 0 w] assms(2) by simp
    moreover have "set_step (w, ?t2) (?w3, ?t3)"
      using cas [of ?t2 0 "bw_gen w" w] assms(2) False by (simp add: sync_defs)
    moreover have "set_step (?w3, ?t3) (?w4, ?t4)" using clear [of ?t3 0 ?w3] assms(2) by simp
    moreover have "set_step (?w4, ?t4) (?or ?w4, ?t4(0 := (?t4 0)\<lparr>st_pc := Set_done\<rparr>))"
      by (rule last) (simp_all add: assms(2))
    ultimately have "set_reachable (w, ts) (?or ?w4, ?t4(0 := (?t4 0)\<lparr>st_pc := Set_done\<rparr>))"
      by (meson set_reachable.intros)
    moreover have "bloom_set_bit_gen m b g (bloom_idx b g) = Some (?or ?w4)"
      using assms(1) False by (simp add: bloom_set_bit_gen_eq map_write_same bloom_word_set_def)
    ultimately show ?thesis by (intro exI [of _ "?or ?w4"] exI [of _ "?t4(0 := (?t4 0)\<lparr>st_pc := Set_done\<rparr>)"]) simp
  qed
qed

theorem lone_thread_sets_as_sequential_witness:
  "\<exists>w' ts'. set_reachable (\<lparr>bw_gen = 0, bw_bits = 7\<rparr>, \<lambda>_. \<lparr>st_gen = 1, st_mask = bloom_mask 5, st_pc = Set_test\<rparr>) (w', ts') \<and>
     st_pc (ts' 0) = Set_done \<and>
     bloom_set_bit_gen [bloom_idx 5 1 \<mapsto> \<lparr>bw_gen = 0, bw_bits = 7\<rparr>] 5 1 (bloom_idx 5 1) = Some w'"
  by (rule lone_thread_sets_as_sequential) simp_all

text \<open>
  Within one generation: once the word carries the generation that every thread works for, no
  thread gets to the clearing any more, and what a finished thread has set stays set.
\<close>

definition same_gen_inv :: "u64 \<Rightarrow> set_state \<Rightarrow> bool" where
  "same_gen_inv g s \<longleftrightarrow>
     bw_gen (fst s) = g \<and>
     (\<forall>i. st_gen (snd s i) = g \<and> st_pc (snd s i) \<in> {Set_test, Set_or, Set_done} \<and>
          (st_pc (snd s i) = Set_done \<longrightarrow> st_mask (snd s i) AND bw_bits (fst s) = st_mask (snd s i)))"

lemma and_or_absorb: "(m :: u64) AND b = m \<Longrightarrow> m AND (b OR c) = m"
  by (simp add: bit_eq_iff bit_and_iff bit_or_iff) blast

lemma same_gen_inv_step: "same_gen_inv g s \<Longrightarrow> set_step s t \<Longrightarrow> same_gen_inv g t"
proof (elim set_stepE)
  fix ts i w
  assume inv: "same_gen_inv g s" and s: "s = (w, ts)" and pc: "st_pc (ts i) = Set_or"
    and t: "t = (w\<lparr>bw_bits := snd (sync_fetch_and_or (bw_bits w) (st_mask (ts i)))\<rparr>, ts(i := (ts i)\<lparr>st_pc := Set_done\<rparr>))"
  have "st_mask (ts i) AND (bw_bits w OR st_mask (ts i)) = st_mask (ts i)"
    by (simp add: bit_eq_iff bit_and_iff bit_or_iff)
  with inv s t show "same_gen_inv g t"
    by (auto simp: same_gen_inv_def sync_defs and_or_absorb)
qed (auto simp: same_gen_inv_def, (metis set_pc.distinct)+)

lemma same_gen_inv_reachable: "set_reachable s t \<Longrightarrow> same_gen_inv g s \<Longrightarrow> same_gen_inv g t"
  by (induction rule: set_reachable.induct) (auto intro: same_gen_inv_step)

text \<open>
  On a word that already carries the generation all threads work for, no bit is lost: however
  the threads interleave, the bit of every thread that is done is set in the word.
\<close>

theorem same_generation_loses_no_bit:
  assumes "set_reachable (w0, ts0) (w, ts)" and "bw_gen w0 = g"
    and "\<forall>i. st_gen (ts0 i) = g \<and> st_pc (ts0 i) = Set_test" and "st_pc (ts i) = Set_done"
  shows "bw_gen w = g \<and> st_mask (ts i) AND bw_bits w = st_mask (ts i)"
proof -
  have "same_gen_inv g (w0, ts0)" using assms(2,3) by (simp add: same_gen_inv_def)
  with same_gen_inv_reachable [OF assms(1)] assms(4) show ?thesis by (auto simp: same_gen_inv_def)
qed

theorem same_generation_loses_no_bit_witness:
  "\<exists>w ts. set_reachable (\<lparr>bw_gen = 1, bw_bits = 8\<rparr>, \<lambda>i. \<lparr>st_gen = 1, st_mask = 2, st_pc = Set_test\<rparr>) (w, ts) \<and>
     2 AND bw_bits w = (2 :: u64)"
proof -
  let ?w = "\<lparr>bw_gen = 1, bw_bits = 8\<rparr>" and ?t0 = "\<lambda>i::nat. \<lparr>st_gen = 1, st_mask = 2, st_pc = Set_test\<rparr>"
  let ?t1 = "?t0(0 := \<lparr>st_gen = 1, st_mask = 2, st_pc = Set_or\<rparr>)"
  let ?t2 = "?t1(0 := \<lparr>st_gen = 1, st_mask = 2, st_pc = Set_done\<rparr>)"
  let ?w2 = "\<lparr>bw_gen = 1, bw_bits = 8 OR 2\<rparr>"
  have "set_step (?w, ?t0) (?w, ?t1)" using test [of ?t0 0 ?w] by simp
  moreover have "set_step (?w, ?t1) (?w2, ?t2)" using set_or [of ?t1 0 ?w] by (simp add: sync_defs)
  ultimately have r: "set_reachable (?w, ?t0) (?w2, ?t2)" by (meson set_reachable.intros)
  have "bw_gen ?w2 = 1 \<and> st_mask (?t2 0) AND bw_bits ?w2 = st_mask (?t2 0)"
    by (rule same_generation_loses_no_bit [OF r]) simp_all
  then have "2 AND bw_bits ?w2 = (2 :: u64)" by simp
  with r show ?thesis by blast
qed

text \<open>
  C37. When a word is taken over from an older generation, a bit can be lost: a thread that has
  swapped the generation but not yet cleared the bits wipes out the bit that another thread of the
  same generation has set in between, so that this thread is done and its bit is not set.
\<close>

theorem takeover_can_lose_a_bit:
  "\<exists>w ts. set_reachable
       (\<lparr>bw_gen = 0, bw_bits = 0\<rparr>, \<lambda>i. \<lparr>st_gen = 1, st_mask = (if i = 0 then 1 else 2), st_pc = Set_test\<rparr>) (w, ts) \<and>
     st_pc (ts 0) = Set_done \<and> st_pc (ts 1) = Set_done \<and> bw_gen w = 1 \<and> bw_bits w AND st_mask (ts 1) = 0"
proof -
  define th where "th i pc = \<lparr>st_gen = 1, st_mask = (if i = 0 then 1 else 2), st_pc = pc\<rparr>" for i :: nat and pc
  define c where "c a b = (\<lambda>i. th i (if i = 0 then a else if i = 1 then b else Set_test))" for a b
  let ?w = "\<lambda>g b. \<lparr>bw_gen = g, bw_bits = b\<rparr> :: bloom_word"
  have upd: "(c a b)(0 := (c a b 0)\<lparr>st_pc := x\<rparr>) = c x b" "(c a b)(1 := (c a b 1)\<lparr>st_pc := x\<rparr>) = c a x"
    "st_pc (c a b 0) = a" "st_pc (c a b 1) = b" "st_gen (c a b i) = 1" "st_mask (c a b 0) = 1" "st_mask (c a b 1) = 2" for a b x i
    by (auto simp: c_def th_def)
  have "set_step (?w 0 0, c Set_test Set_test) (?w 0 0, c Set_expect Set_test)"
    using test [of "c Set_test Set_test" 0 "?w 0 0"] by (simp add: upd)
  moreover have "set_step (?w 0 0, c Set_expect Set_test) (?w 0 0, c (Set_cas 0) Set_test)"
    using expect [of "c Set_expect Set_test" 0 "?w 0 0"] by (simp add: upd)
  moreover have "set_step (?w 0 0, c (Set_cas 0) Set_test) (?w 1 0, c Set_clear Set_test)"
    using cas [of "c (Set_cas 0) Set_test" 0 0 "?w 0 0"] by (simp add: upd sync_defs)
  moreover have "set_step (?w 1 0, c Set_clear Set_test) (?w 1 0, c Set_clear Set_or)"
    using test [of "c Set_clear Set_test" 1 "?w 1 0"] upd by simp
  moreover have "set_step (?w 1 0, c Set_clear Set_or) (?w 1 2, c Set_clear Set_done)"
    using set_or [of "c Set_clear Set_or" 1 "?w 1 0"] upd by (simp add: sync_defs)
  moreover have "set_step (?w 1 2, c Set_clear Set_done) (?w 1 0, c Set_or Set_done)"
    using clear [of "c Set_clear Set_done" 0 "?w 1 2"] by (simp add: upd)
  moreover have "set_step (?w 1 0, c Set_or Set_done) (?w 1 1, c Set_done Set_done)"
    using set_or [of "c Set_or Set_done" 0 "?w 1 0"] by (simp add: upd sync_defs)
  ultimately have "set_reachable (?w 0 0, c Set_test Set_test) (?w 1 1, c Set_done Set_done)"
    by (meson set_reachable.intros)
  moreover have "c Set_test Set_test = (\<lambda>i. \<lparr>st_gen = 1, st_mask = (if i = 0 then 1 else 2), st_pc = Set_test\<rparr>)"
    by (auto simp: c_def th_def)
  ultimately show ?thesis
    by (intro exI [of _ "?w 1 1"] exI [of _ "c Set_done Set_done"]) (simp add: upd, simp add: upd(4,7) [unfolded One_nat_def])
qed

subsection \<open>Rolling the epoch\<close>

text \<open>
  The accesses of \<^verbatim>\<open>bloom_maybe_roll_epoch\<close> to the epoch: the two comparisons, the read of the
  expected value, the compare-and-swap on the start time and the increment of the generation. When
  \<open>reload\<close> holds, each mention of \<^verbatim>\<open>epoch->start_ns\<close> is a read of its own; otherwise the first
  value is used throughout.
\<close>

datatype roll_pc = Roll_later | Roll_elapsed u64 | Roll_expect u64 | Roll_cas u64 | Roll_add | Roll_done

record roll_thread =
  rt_now :: u64
  rt_pc :: roll_pc

type_synonym roll_state = "bloom_epoch_state \<times> (nat \<Rightarrow> roll_thread)"

inductive roll_step :: "bool \<Rightarrow> roll_state \<Rightarrow> roll_state \<Rightarrow> bool" for reload where
  later: "rt_pc (ts i) = Roll_later \<Longrightarrow>
    roll_step reload (e, ts) (e, ts(i := (ts i)\<lparr>rt_pc :=
      (if rt_now (ts i) > ep_start_ns e then Roll_elapsed (ep_start_ns e) else Roll_done)\<rparr>))"
| elapsed: "rt_pc (ts i) = Roll_elapsed s \<Longrightarrow> s' = (if reload then ep_start_ns e else s) \<Longrightarrow>
    roll_step reload (e, ts) (e, ts(i := (ts i)\<lparr>rt_pc :=
      (if rt_now (ts i) - s' > BLOOM_EPOCH_NS then Roll_expect s' else Roll_done)\<rparr>))"
| expect: "rt_pc (ts i) = Roll_expect s \<Longrightarrow> s' = (if reload then ep_start_ns e else s) \<Longrightarrow>
    roll_step reload (e, ts) (e, ts(i := (ts i)\<lparr>rt_pc := Roll_cas s'\<rparr>))"
| cas: "rt_pc (ts i) = Roll_cas s \<Longrightarrow>
    roll_step reload (e, ts) (e\<lparr>ep_start_ns := snd (sync_bool_cas (ep_start_ns e) s (rt_now (ts i)))\<rparr>,
      ts(i := (ts i)\<lparr>rt_pc :=
        (if fst (sync_bool_cas (ep_start_ns e) s (rt_now (ts i))) then Roll_add else Roll_done)\<rparr>))"
| add: "rt_pc (ts i) = Roll_add \<Longrightarrow>
    roll_step reload (e, ts) (e\<lparr>ep_gen := snd (sync_fetch_and_add (ep_gen e) 1)\<rparr>, ts(i := (ts i)\<lparr>rt_pc := Roll_done\<rparr>))"

inductive_cases roll_stepE: "roll_step reload s t"

inductive roll_reachable :: "bool \<Rightarrow> roll_state \<Rightarrow> roll_state \<Rightarrow> bool" for reload where
  start: "roll_reachable reload s s"
| step: "roll_reachable reload s t \<Longrightarrow> roll_step reload t u \<Longrightarrow> roll_reachable reload s u"

definition roll_due :: "u64 \<Rightarrow> u64 \<Rightarrow> bool" where
  "roll_due now s \<longleftrightarrow> now > s \<and> now - s > BLOOM_EPOCH_NS"

fun roll_pc_ok :: "u64 \<Rightarrow> roll_pc \<Rightarrow> bool" where
  "roll_pc_ok now (Roll_elapsed s) \<longleftrightarrow> now > s"
| "roll_pc_ok now (Roll_expect s) \<longleftrightarrow> roll_due now s"
| "roll_pc_ok now (Roll_cas s) \<longleftrightarrow> roll_due now s"
| "roll_pc_ok now _ \<longleftrightarrow> True"

definition roll_inv :: "roll_state \<Rightarrow> bool" where
  "roll_inv s \<longleftrightarrow> (\<forall>i. roll_pc_ok (rt_now (snd s i)) (rt_pc (snd s i)))"

lemma roll_inv_step: "roll_inv s \<Longrightarrow> roll_step False s t \<Longrightarrow> roll_inv t"
  by (elim roll_stepE) (auto simp: roll_inv_def roll_due_def, (metis roll_pc_ok.simps roll_due_def)+)

lemma roll_inv_reachable: "roll_reachable False s t \<Longrightarrow> roll_inv s \<Longrightarrow> roll_inv t"
  by (induction rule: roll_reachable.induct) (auto intro: roll_inv_step)

text \<open>
  When the start time is read once, two rolls are always more than an epoch apart, whatever the
  number of CPUs: a step that moves the start time moves it forward by more than 1.5 seconds.
\<close>

lemma single_read_rolls_once_per_epoch:
  assumes "roll_reachable False (e0, ts0) (e, ts)" and "\<forall>i. rt_pc (ts0 i) = Roll_later"
    and "roll_step False (e, ts) (e', ts')" and "ep_start_ns e' \<noteq> ep_start_ns e"
  shows "ep_start_ns e' > ep_start_ns e \<and> ep_start_ns e' - ep_start_ns e > BLOOM_EPOCH_NS"
proof -
  have "roll_inv (e0, ts0)" using assms(2) by (simp add: roll_inv_def)
  with roll_inv_reachable [OF assms(1)] have inv: "roll_inv (e, ts)" by blast
  from assms(3,4) obtain i s where pc: "rt_pc (ts i) = Roll_cas s" and "ep_start_ns e = s"
    and "ep_start_ns e' = rt_now (ts i)"
    by (elim roll_stepE) (auto simp: sync_defs split: if_splits)
  moreover have "roll_pc_ok (rt_now (ts i)) (rt_pc (ts i))" using inv by (simp add: roll_inv_def)
  ultimately show ?thesis by (simp add: roll_due_def)
qed


text \<open>Two threads on an epoch that began at time 0, with clocks a nanosecond apart.\<close>

definition roll_pair :: "roll_pc \<Rightarrow> roll_pc \<Rightarrow> nat \<Rightarrow> roll_thread" where
  "roll_pair a b =
     (\<lambda>i. \<lparr>rt_now = (if i = 0 then 2000000000 else 2000000001),
           rt_pc = (if i = 0 then a else if i = 1 then b else Roll_later)\<rparr>)"

lemma roll_pair_simps:
  "(roll_pair a b)(0 := (roll_pair a b 0)\<lparr>rt_pc := x\<rparr>) = roll_pair x b"
  "(roll_pair a b)(1 := (roll_pair a b 1)\<lparr>rt_pc := x\<rparr>) = roll_pair a x"
  "rt_pc (roll_pair a b 0) = a" "rt_pc (roll_pair a b 1) = b"
  "rt_now (roll_pair a b 0) = 2000000000" "rt_now (roll_pair a b 1) = 2000000001"
  by (auto simp: roll_pair_def)

lemma roll_pair_first:
  "roll_reachable r (\<lparr>ep_gen = g, ep_start_ns = 0\<rparr>, roll_pair Roll_later b)
     (\<lparr>ep_gen = g, ep_start_ns = 0\<rparr>, roll_pair (Roll_expect 0) b)"
proof -
  let ?e = "\<lparr>ep_gen = g, ep_start_ns = 0\<rparr>"
  have "roll_step r (?e, roll_pair Roll_later b) (?e, roll_pair (Roll_elapsed 0) b)"
    using later [of "roll_pair Roll_later b" 0 r ?e] by (simp add: roll_pair_simps)
  moreover have "roll_step r (?e, roll_pair (Roll_elapsed 0) b) (?e, roll_pair (Roll_expect 0) b)"
    using elapsed [of "roll_pair (Roll_elapsed 0) b" 0 0 0 r ?e] by (simp add: roll_pair_simps BLOOM_EPOCH_NS_def)
  ultimately show ?thesis by (meson roll_reachable.intros)
qed

lemma single_read_rolls_once_per_epoch_example:
  "\<exists>e ts e' ts'. roll_reachable False (\<lparr>ep_gen = 5, ep_start_ns = 0\<rparr>, roll_pair Roll_later Roll_later) (e, ts) \<and>
     roll_step False (e, ts) (e', ts') \<and> ep_start_ns e' - ep_start_ns e > BLOOM_EPOCH_NS"
proof -
  let ?e = "\<lparr>ep_gen = 5, ep_start_ns = 0\<rparr> :: bloom_epoch_state"
  let ?e' = "\<lparr>ep_gen = 5, ep_start_ns = 2000000000\<rparr> :: bloom_epoch_state"
  have "roll_step False (?e, roll_pair (Roll_expect 0) Roll_later) (?e, roll_pair (Roll_cas 0) Roll_later)"
    using expect [of "roll_pair (Roll_expect 0) Roll_later" 0 0 0 False ?e] by (simp add: roll_pair_simps)
  with roll_pair_first have r: "roll_reachable False (?e, roll_pair Roll_later Roll_later) (?e, roll_pair (Roll_cas 0) Roll_later)"
    by (meson roll_reachable.step)
  have st: "roll_step False (?e, roll_pair (Roll_cas 0) Roll_later) (?e', roll_pair Roll_add Roll_later)"
    using cas [of "roll_pair (Roll_cas 0) Roll_later" 0 0 False ?e] by (simp add: roll_pair_simps sync_defs)
  have "ep_start_ns ?e' > ep_start_ns ?e \<and> ep_start_ns ?e' - ep_start_ns ?e > BLOOM_EPOCH_NS"
    by (rule single_read_rolls_once_per_epoch [OF r _ st]) (simp_all add: roll_pair_def)
  with r st show ?thesis by blast
qed

text \<open>
  C38. When the expected value of the compare-and-swap is read anew, as the code is written, two CPUs
  that both find the epoch over can both roll it: the generation goes up by two within a
  nanosecond, so that everything the filter remembers is forgotten at once.
\<close>

theorem repeated_read_can_roll_twice:
  "\<exists>e ts. roll_reachable True (\<lparr>ep_gen = 5, ep_start_ns = 0\<rparr>, roll_pair Roll_later Roll_later) (e, ts) \<and>
     ep_gen e = 7 \<and> ep_start_ns e = 2000000001"
proof -
  let ?e = "\<lambda>g s. \<lparr>ep_gen = g, ep_start_ns = s\<rparr> :: bloom_epoch_state" and ?p = "\<lambda>a b. roll_pair a b"
  let ?s = "Roll_expect 0" and ?n = "2000000000 :: u64"
  have "roll_reachable True (?e 5 0, ?p Roll_later Roll_later) (?e 5 0, ?p ?s Roll_later)" by (rule roll_pair_first)
  moreover have "roll_step True (?e 5 0, ?p ?s Roll_later) (?e 5 0, ?p ?s (Roll_elapsed 0))"
    using later [of "?p ?s Roll_later" 1 True "?e 5 0"] roll_pair_simps by simp
  moreover have "roll_step True (?e 5 0, ?p ?s (Roll_elapsed 0)) (?e 5 0, ?p ?s ?s)"
    using elapsed [of "?p ?s (Roll_elapsed 0)" 1 0 0 True "?e 5 0"] roll_pair_simps by (simp add: BLOOM_EPOCH_NS_def)
  moreover have "roll_step True (?e 5 0, ?p ?s ?s) (?e 5 0, ?p (Roll_cas 0) ?s)"
    using expect [of "?p ?s ?s" 0 0 0 True "?e 5 0"] by (simp add: roll_pair_simps)
  moreover have "roll_step True (?e 5 0, ?p (Roll_cas 0) ?s) (?e 5 ?n, ?p Roll_add ?s)"
    using cas [of "?p (Roll_cas 0) ?s" 0 0 True "?e 5 0"] by (simp add: roll_pair_simps sync_defs)
  moreover have "roll_step True (?e 5 ?n, ?p Roll_add ?s) (?e 6 ?n, ?p Roll_done ?s)"
    using add [of "?p Roll_add ?s" 0 True "?e 5 ?n"] by (simp add: roll_pair_simps sync_defs)
  moreover have "roll_step True (?e 6 ?n, ?p Roll_done ?s) (?e 6 ?n, ?p Roll_done (Roll_cas ?n))"
    using expect [of "?p Roll_done ?s" 1 0 ?n True "?e 6 ?n"] roll_pair_simps by simp
  moreover have "roll_step True (?e 6 ?n, ?p Roll_done (Roll_cas ?n)) (?e 6 2000000001, ?p Roll_done Roll_add)"
    using cas [of "?p Roll_done (Roll_cas ?n)" 1 ?n True "?e 6 ?n"] roll_pair_simps by (simp add: sync_defs)
  moreover have "roll_step True (?e 6 2000000001, ?p Roll_done Roll_add) (?e 7 2000000001, ?p Roll_done Roll_done)"
    using add [of "?p Roll_done Roll_add" 1 True "?e 6 2000000001"] roll_pair_simps by (simp add: sync_defs)
  ultimately have "roll_reachable True (?e 5 0, ?p Roll_later Roll_later) (?e 7 2000000001, ?p Roll_done Roll_done)"
    by (meson roll_reachable.step)
  then show ?thesis by (intro exI [of _ "?e 7 2000000001"] exI [of _ "?p Roll_done Roll_done"]) simp
qed

end
