(* ===== verification/Interleave.thy ===== *)
theory Interleave
  imports Prelude
begin

text \<open>
  Several threads over one shared state. Each thread runs the same step function on an input and a
  program point of its own; a schedule is the list of the threads in the order in which they take
  their steps. The two locales say what follows for any schedule when single steps do not wait for
  others, and when what they add to the shared state can be told from the program points.
\<close>

type_synonym ('iv, 'pc, 's) thread_step = "'iv \<Rightarrow> 'pc \<Rightarrow> 's \<Rightarrow> 'pc \<times> 's"

fun interleave :: "('iv, 'pc, 's) thread_step \<Rightarrow> 'iv list \<Rightarrow> nat list \<Rightarrow> 'pc list \<times> 's \<Rightarrow> 'pc list \<times> 's" where
  "interleave step ivs [] c = c"
| "interleave step ivs (i # sched) (pcs, s) =
     (if i < length pcs
      then let (p, t) = step (ivs ! i) (pcs ! i) s in interleave step ivs sched (pcs[i := p], t)
      else interleave step ivs sched (pcs, s))"

lemma interleave_append:
  "interleave step ivs (xs @ ys) c = interleave step ivs ys (interleave step ivs xs c)"
  by (induction step ivs xs c rule: interleave.induct) (auto split: prod.split)

lemma interleave_length [simp]: "length (fst (interleave step ivs sched c)) = length (fst c)"
  by (induction step ivs sched c rule: interleave.induct) (auto split: prod.split)

text \<open>An invariant of single steps is an invariant of every schedule.\<close>

lemma interleave_invariant:
  assumes "I pcs s"
    and "\<And>pcs s i p t. I pcs s \<Longrightarrow> i < length pcs \<Longrightarrow> step (ivs ! i) (pcs ! i) s = (p, t) \<Longrightarrow> I (pcs[i := p]) t"
  shows "I (fst (interleave step ivs sched (pcs, s))) (snd (interleave step ivs sched (pcs, s)))"
  using assms(1)
proof (induction sched arbitrary: pcs s)
  case (Cons i sched)
  obtain p t where "step (ivs ! i) (pcs ! i) s = (p, t)" by fastforce
  with Cons assms(2) show ?case by simp
qed simp

text \<open>The same with a condition on every state on the way.\<close>

lemma interleave_invariant_while:
  assumes "I pcs s"
    and "\<And>n. n \<le> length sched \<Longrightarrow> ok (snd (interleave step ivs (take n sched) (pcs, s)))"
    and "\<And>pcs s i p t. I pcs s \<Longrightarrow> ok s \<Longrightarrow> ok t \<Longrightarrow> i < length pcs \<Longrightarrow> step (ivs ! i) (pcs ! i) s = (p, t) \<Longrightarrow>
           I (pcs[i := p]) t"
  shows "I (fst (interleave step ivs sched (pcs, s))) (snd (interleave step ivs sched (pcs, s)))"
  using assms(1,2)
proof (induction sched arbitrary: pcs s)
  case (Cons i sched)
  obtain p t where st: "step (ivs ! i) (pcs ! i) s = (p, t)" by fastforce
  show ?case
  proof (cases "i < length pcs")
    case True
    have rest: "ok (snd (interleave step ivs (take n sched) (pcs[i := p], t)))" if "n \<le> length sched" for n
      using Cons.prems(2) [of "Suc n"] that True st by simp
    have "ok s" using Cons.prems(2) [of 0] by simp
    moreover have "ok t" using rest [of 0] by simp
    ultimately have "I (pcs[i := p]) t" using assms(3) Cons.prems(1) True st by blast
    from Cons.IH [OF this rest] True st show ?thesis by simp
  next
    case False
    have "ok (snd (interleave step ivs (take n sched) (pcs, s)))" if "n \<le> length sched" for n
      using Cons.prems(2) [of "Suc n"] that False by simp
    from Cons.IH [OF Cons.prems(1) this] False show ?thesis by simp
  qed
qed simp

subsection \<open>One thread\<close>

definition solo :: "('iv, 'pc, 's) thread_step \<Rightarrow> 'iv \<Rightarrow> nat \<Rightarrow> 'pc \<times> 's \<Rightarrow> 'pc \<times> 's" where
  "solo step iv n = ((\<lambda>(p, s). step iv p s) ^^ n)"

definition leads :: "('iv, 'pc, 's) thread_step \<Rightarrow> 'iv \<Rightarrow> 'pc \<times> 's \<Rightarrow> 'pc \<times> 's \<Rightarrow> bool" where
  "leads step iv c d \<longleftrightarrow> (\<exists>n. solo step iv n c = d)"

lemma solo_simps [simp]:
  "solo step iv 0 c = c" "solo step iv (Suc n) (p, s) = solo step iv n (step iv p s)"
  by (simp_all add: solo_def funpow_swap1)

lemma solo_add: "solo step iv (m + n) c = solo step iv n (solo step iv m c)"
  by (simp add: solo_def funpow_add add.commute [of m n])

lemma leads_refl [simp]: "leads step iv c c"
  unfolding leads_def by (rule exI [of _ 0]) simp

lemma leads_trans [trans]: "leads step iv c d \<Longrightarrow> leads step iv d e \<Longrightarrow> leads step iv c e"
  unfolding leads_def by (metis solo_add)

lemma leads_step: "leads step iv (step iv p s) d \<Longrightarrow> leads step iv (p, s) d"
  unfolding leads_def using solo_simps(2) by metis

lemma interleave_solo:
  assumes "i < length pcs"
  shows "interleave step ivs (replicate n i) (pcs, s) =
     (pcs[i := fst (solo step (ivs ! i) n (pcs ! i, s))], snd (solo step (ivs ! i) n (pcs ! i, s)))"
  using assms
proof (induction n arbitrary: pcs s)
  case (Suc n)
  obtain p t where "step (ivs ! i) (pcs ! i) s = (p, t)" by fastforce
  with Suc show ?case by simp
qed simp

subsection \<open>Threads that wait for nobody\<close>

locale wait_free =
  fixes step :: "('iv, 'pc, 's) thread_step" and left :: "'pc \<Rightarrow> nat"
  assumes progress: "0 < left p \<Longrightarrow> left (fst (step iv p s)) < left p"
    and stop: "left p = 0 \<Longrightarrow> step iv p s = (p, s)"
begin

lemma left_step: "left (fst (step iv p s)) \<le> left p - 1"
  using progress [of p iv s] stop [of p iv s] by (cases "left p = 0") auto

lemma left_falls:
  "i < length pcs \<Longrightarrow> left (fst (interleave step ivs sched (pcs, s)) ! i) \<le> left (pcs ! i) - count_list sched i"
proof (induction sched arbitrary: pcs s)
  case (Cons j sched)
  obtain p t where st: "step (ivs ! j) (pcs ! j) s = (p, t)" by fastforce
  have "left p \<le> left (pcs ! j) - 1" using left_step [of "ivs ! j" "pcs ! j" s] st by simp
  moreover have "left (fst (interleave step ivs sched (pcs[j := p], t)) ! i) \<le> left (pcs[j := p] ! i) - count_list sched i"
    using Cons by simp
  ultimately show ?case using Cons.IH [OF Cons.prems, of s] Cons.prems st by (cases "i = j") auto
qed simp

lemma all_finish:
  assumes "\<forall>i<length pcs. left (pcs ! i) \<le> count_list sched i"
  shows "\<forall>i<length pcs. left (fst (interleave step ivs sched (pcs, s)) ! i) = 0"
proof (intro allI impI)
  fix i assume "i < length pcs"
  with left_falls [OF this, of ivs sched s] assms
  show "left (fst (interleave step ivs sched (pcs, s)) ! i) = 0" by (simp add: le_diff_conv)
qed

lemma finishes_solo: "left (fst (solo step iv (left p) (p, s))) = 0"
proof -
  have "left (fst (solo step iv n (p, s))) \<le> left p - n" for n
  proof (induction n arbitrary: p s)
    case (Suc n)
    obtain q t where st: "step iv p s = (q, t)" by fastforce
    with left_step [of iv p s] Suc [of q t] show ?case by simp
  qed simp
  from this [of "left p"] show ?thesis by simp
qed

lemma stopped_solo: "left p = 0 \<Longrightarrow> solo step iv n (p, s) = (p, s)"
  by (induction n) (simp_all add: stop)

text \<open>Where a thread gets on its own does not depend on the number of steps, once they are enough.\<close>

lemma solo_enough:
  assumes "leads step iv (p, s) (q, t)" and "left q = 0" and "left p \<le> n"
  shows "solo step iv n (p, s) = (q, t)"
proof -
  obtain m where m: "solo step iv m (p, s) = (q, t)" using assms(1) by (auto simp: leads_def)
  obtain q' t' where q': "solo step iv (left p) (p, s) = (q', t')" by fastforce
  have q0: "left q' = 0" using finishes_solo [of iv p s] q' by simp
  have "solo step iv (m + left p) (p, s) = (q, t)" by (simp only: solo_add m stopped_solo [OF assms(2)])
  moreover have "solo step iv (left p + m) (p, s) = (q', t')" by (simp only: solo_add q' stopped_solo [OF q0])
  ultimately have eq: "(q', t') = (q, t)" by (simp add: add.commute)
  have "solo step iv (left p + (n - left p)) (p, s) = (q', t')" by (simp only: solo_add q' stopped_solo [OF q0])
  with eq assms(3) show ?thesis by simp
qed

end

subsection \<open>Threads whose contributions add up\<close>

text \<open>
  \<open>share\<close> is what a thread at a program point has added so far to the part \<open>total\<close> of the shared state.
\<close>

locale tallied =
  fixes step :: "('iv, 'pc, 's) thread_step"
    and ok :: "'iv \<Rightarrow> 'pc \<Rightarrow> bool" and good :: "'s \<Rightarrow> bool"
    and share :: "'iv \<Rightarrow> 'pc \<Rightarrow> 'm::comm_monoid_add" and total :: "'s \<Rightarrow> 'm"
  assumes step_ok: "ok iv p \<Longrightarrow> good s \<Longrightarrow> ok iv (fst (step iv p s)) \<and> good (snd (step iv p s))"
    and step_adds: "ok iv p \<Longrightarrow> good s \<Longrightarrow>
      \<exists>d. share iv (fst (step iv p s)) = share iv p + d \<and> total (snd (step iv p s)) = total s + d"
begin

definition all_ok :: "'iv list \<Rightarrow> 'pc list \<Rightarrow> bool" where
  "all_ok ivs pcs \<longleftrightarrow> (\<forall>i<length pcs. ok (ivs ! i) (pcs ! i))"

definition shares :: "'iv list \<Rightarrow> 'pc list \<Rightarrow> 'm" where
  "shares ivs pcs = (\<Sum>i<length pcs. share (ivs ! i) (pcs ! i))"

lemma shares_update:
  assumes "i < length pcs" and "share (ivs ! i) p = share (ivs ! i) (pcs ! i) + d"
  shows "shares ivs (pcs[i := p]) = shares ivs pcs + d"
proof -
  let ?r = "\<Sum>j\<in>{..<length pcs} - {i}. share (ivs ! j) (pcs ! j)"
  have "shares ivs (pcs[i := p]) = share (ivs ! i) p + ?r"
    using assms(1) by (simp add: shares_def sum.remove [of _ i])
  moreover have "shares ivs pcs = share (ivs ! i) (pcs ! i) + ?r"
    using assms(1) by (simp add: shares_def sum.remove [of _ i])
  ultimately show ?thesis using assms(2) by (simp add: ac_simps)
qed

lemma tally:
  assumes "all_ok ivs pcs" and "good s" and "total s = t0 + shares ivs pcs"
    and "interleave step ivs sched (pcs, s) = (pcs', s')"
  shows "all_ok ivs pcs' \<and> good s' \<and> total s' = t0 + shares ivs pcs'"
proof -
  let ?inv = "\<lambda>pcs s. all_ok ivs pcs \<and> good s \<and> total s = t0 + shares ivs pcs"
  have "?inv (fst (interleave step ivs sched (pcs, s))) (snd (interleave step ivs sched (pcs, s)))"
  proof (rule interleave_invariant)
    show "?inv pcs s" using assms by simp
  next
    fix pcs s i p t
    assume inv: "?inv pcs s" and i: "i < length pcs" and st: "step (ivs ! i) (pcs ! i) s = (p, t)"
    have ok: "ok (ivs ! i) (pcs ! i)" "good s" using inv i by (auto simp: all_ok_def)
    obtain d where d: "share (ivs ! i) p = share (ivs ! i) (pcs ! i) + d" "total t = total s + d"
      using step_adds [OF ok] st by auto
    have "ok (ivs ! i) p" "good t" using step_ok [OF ok] st by auto
    moreover from this inv i have "all_ok ivs (pcs[i := p])" by (simp add: all_ok_def nth_list_update)
    ultimately show "?inv (pcs[i := p]) t"
      using inv d(2) shares_update [of i pcs ivs p d, OF i d(1)] by (simp add: ac_simps)
  qed
  with assms(4) show ?thesis by simp
qed

end

end
