(* ===== verification/Egress_Race.thy ===== *)
theory Egress_Race
  imports Detection Bloom_Race Interleave
begin

text \<open>
  The whole TC program on several CPUs at once. \<open>egress_step\<close> is \<^verbatim>\<open>path_egress\<close> cut into its accesses
  to the maps, in the order of the code: a program point says where a run is and holds its local
  variables, and one step does one access. The maps are those of the sequential model. Fields read
  several times are read each time, as the source writes it.

  The two prefix maps are only written before the program is attached. The bytes of the packet are
  private to a run, so parsing is one step. The ring buffer is the list of the events in
  the order in which they are submitted; the kernel hands them over in the order of the reservations,
  so statements about concurrent runs speak of the events as a multiset or as a set.
\<close>

subsection \<open>The program in steps\<close>

datatype egress_pc =
    E_seen | E_parse | E_fault | E_drop drop_reason | E_payload segment
  | E_src segment | E_no_src | E_dst segment | E_no_dst | E_zoned segment u8
  | E_roll roll_pc segment u8
  | E_gen u8 "u32 list"
  | E_test u8 u64 u64 bool "u32 list" "u32 list" bool
  | E_set u8 u64 set_pc "u32 list" bool
  | E_reserve u8 bool | E_submit u8 bool stats_event | E_done

text \<open>\<^verbatim>\<open>bloom_set_bit_gen\<close> on the word it has looked up, and \<^verbatim>\<open>bloom_maybe_roll_epoch\<close> on the epoch.\<close>

fun set_access :: "set_pc \<Rightarrow> u64 \<Rightarrow> u64 \<Rightarrow> bloom_word \<Rightarrow> set_pc \<times> bloom_word" where
  "set_access Set_test gen msk w = (if bw_gen w \<noteq> gen then Set_expect else Set_or, w)"
| "set_access Set_expect gen msk w = (Set_cas (bw_gen w), w)"
| "set_access (Set_cas e) gen msk w =
     (let (old, v) = sync_val_cas (bw_gen w) e gen
      in (if old \<noteq> gen then Set_clear else Set_or, w\<lparr>bw_gen := v\<rparr>))"
| "set_access Set_clear gen msk w = (Set_or, w\<lparr>bw_bits := 0\<rparr>)"
| "set_access Set_or gen msk w = (Set_done, w\<lparr>bw_bits := snd (sync_fetch_and_or (bw_bits w) msk)\<rparr>)"
| "set_access Set_done gen msk w = (Set_done, w)"

fun roll_access :: "roll_pc \<Rightarrow> u64 \<Rightarrow> bloom_epoch_state \<Rightarrow> roll_pc \<times> bloom_epoch_state" where
  "roll_access Roll_later now e = (if now > ep_start_ns e then Roll_elapsed (ep_start_ns e) else Roll_done, e)"
| "roll_access (Roll_elapsed _) now e =
     (if now - ep_start_ns e > BLOOM_EPOCH_NS then Roll_expect (ep_start_ns e) else Roll_done, e)"
| "roll_access (Roll_expect _) now e = (Roll_cas (ep_start_ns e), e)"
| "roll_access (Roll_cas expected) now e =
     (let (swapped, v) = sync_bool_cas (ep_start_ns e) expected now
      in (if swapped then Roll_add else Roll_done, e\<lparr>ep_start_ns := v\<rparr>))"
| "roll_access Roll_add now e = (Roll_done, e\<lparr>ep_gen := snd (sync_fetch_and_add (ep_gen e) 1)\<rparr>)"
| "roll_access Roll_done now e = (Roll_done, e)"

text \<open>
  The points between the accesses. In \<open>E_test z cur g matched bs all seen\<close> the first bit of \<open>bs\<close> is
  tested in generation \<open>g\<close>, \<open>cur\<close> or the one before; \<open>matched\<close> says that its word was found to be
  of that generation, so that its bits are read next. \<open>seen\<close> is the conjunction so far.
\<close>

definition next_set :: "u8 \<Rightarrow> u64 \<Rightarrow> u32 list \<Rightarrow> bool \<Rightarrow> egress_pc" where
  "next_set z cur bs seen = (if bs = [] then E_reserve z seen else E_set z cur Set_test bs seen)"

definition next_test :: "u8 \<Rightarrow> u64 \<Rightarrow> u32 list \<Rightarrow> u32 list \<Rightarrow> bool \<Rightarrow> egress_pc" where
  "next_test z cur bs all seen =
     (if bs = [] then next_set z cur all seen else E_test z cur cur False bs all seen)"

definition test_missed :: "u8 \<Rightarrow> u64 \<Rightarrow> u64 \<Rightarrow> u32 list \<Rightarrow> u32 list \<Rightarrow> bool \<Rightarrow> egress_pc" where
  "test_missed z cur g bs all seen =
     (if g = cur then E_test z cur (cur - 1) False bs all seen else next_test z cur (tl bs) all False)"

definition after_roll :: "kernel \<Rightarrow> segment \<Rightarrow> u8 \<Rightarrow> egress_pc" where
  "after_roll k sg z =
     (case segment_key k sg of None \<Rightarrow> E_reserve z False | Some key \<Rightarrow> E_gen z (key_bits key))"

fun egress_step :: "kernel \<Rightarrow> invocation \<Rightarrow> egress_pc \<Rightarrow> bpf_state \<Rightarrow> egress_pc \<times> bpf_state" where
  "egress_step k iv E_seen s = (E_parse, s\<lparr>debug_seen := debug_inc (debug_seen s) (iv_cpu iv)\<rparr>)"
| "egress_step k iv E_parse s =
     (case parse_segment k (iv_skb iv) of
        None \<Rightarrow> (E_fault, s)
      | Some (Inl d) \<Rightarrow> (E_drop d, s)
      | Some (Inr sg) \<Rightarrow> (E_payload sg, s))"
| "egress_step k iv (E_drop d) s =
     (E_done,
      case d of
        Not_ipv4 \<Rightarrow> s\<lparr>debug_not_ipv4 := debug_inc (debug_not_ipv4 s) (iv_cpu iv)\<rparr>
      | Not_tcp \<Rightarrow> s\<lparr>debug_not_tcp := debug_inc (debug_not_tcp s) (iv_cpu iv)\<rparr>
      | Tcp_short \<Rightarrow> s\<lparr>debug_tcp_short := debug_inc (debug_tcp_short s) (iv_cpu iv)\<rparr>
      | Tcp_pure_ack \<Rightarrow> s\<lparr>debug_tcp_pure_ack := debug_inc (debug_tcp_pure_ack s) (iv_cpu iv)\<rparr>)"
| "egress_step k iv (E_payload sg) s =
     (E_src sg, s\<lparr>debug_tcp_payload := debug_inc (debug_tcp_payload s) (iv_cpu iv)\<rparr>)"
| "egress_step k iv (E_src sg) s =
     (case k_lpm_lookup k (src_zone_lpm s) (32, sg_saddr sg) of
        None \<Rightarrow> (E_no_src, s)
      | Some src_zone \<Rightarrow> (E_dst sg, s))"
| "egress_step k iv E_no_src s = (E_done, s\<lparr>debug_no_src_zone := debug_inc (debug_no_src_zone s) (iv_cpu iv)\<rparr>)"
| "egress_step k iv (E_dst sg) s =
     (case k_lpm_lookup k (zone_lpm s) (32, sg_daddr sg) of
        None \<Rightarrow> (E_no_dst, s)
      | Some zone_id \<Rightarrow> (E_zoned sg zone_id, s))"
| "egress_step k iv E_no_dst s = (E_done, s\<lparr>debug_no_dst_zone := debug_inc (debug_no_dst_zone s) (iv_cpu iv)\<rparr>)"
| "egress_step k iv (E_zoned sg z) s =
     (E_roll Roll_later sg z, s\<lparr>debug_tcp_zoned := debug_inc (debug_tcp_zoned s) (iv_cpu iv)\<rparr>)"
| "egress_step k iv (E_roll pc sg z) s =
     (case bpf_map_lookup_elem (bloom_epoch s) 0 of
        None \<Rightarrow>
          (after_roll k sg z,
           s\<lparr>bloom_epoch := snd (bpf_map_update_elem (bloom_epoch s) 0 \<lparr>ep_gen = 0, ep_start_ns = iv_now iv\<rparr> BPF_ANY)\<rparr>)
      | Some e \<Rightarrow>
          let (pc', e') = roll_access pc (iv_now iv) e
          in (if pc' = Roll_done then after_roll k sg z else E_roll pc' sg z,
              s\<lparr>bloom_epoch := (bloom_epoch s)(0 \<mapsto> e')\<rparr>))"
| "egress_step k iv (E_gen z bs) s =
     (case bpf_map_lookup_elem (bloom_epoch s) 0 of
        None \<Rightarrow> (E_reserve z False, s)
      | Some e \<Rightarrow> (next_test z (ep_gen e) bs bs True, s))"
| "egress_step k iv (E_test z cur g matched [] all seen) s = (next_set z cur all seen, s)"
| "egress_step k iv (E_test z cur g matched (b # bs) all seen) s =
     (case bpf_map_lookup_elem (bloom_bits s) (bloom_idx b g) of
        None \<Rightarrow> (test_missed z cur g (b # bs) all seen, s)
      | Some w \<Rightarrow>
          (if \<not> matched
           then (if bw_gen w \<noteq> g then test_missed z cur g (b # bs) all seen
                 else E_test z cur g True (b # bs) all seen)
           else (if bw_bits w AND bloom_mask b \<noteq> 0 then next_test z cur bs all seen
                 else test_missed z cur g (b # bs) all seen), s))"
| "egress_step k iv (E_set z cur pc [] seen) s = (E_reserve z seen, s)"
| "egress_step k iv (E_set z cur pc (b # bs) seen) s =
     (case bpf_map_lookup_elem (bloom_bits s) (bloom_idx b cur) of
        None \<Rightarrow> (next_set z cur bs seen, s)
      | Some w \<Rightarrow>
          let (pc', w') = set_access pc cur (bloom_mask b) w
          in (if pc' = Set_done then next_set z cur bs seen else E_set z cur pc' (b # bs) seen,
              s\<lparr>bloom_bits := (bloom_bits s)(bloom_idx b cur \<mapsto> w')\<rparr>))"
| "egress_step k iv (E_reserve z r) s =
     (case iv_reserve iv of None \<Rightarrow> (E_done, s) | Some evt \<Rightarrow> (E_submit z r evt, s))"
| "egress_step k iv (E_submit z r evt) s =
     (E_done,
      s\<lparr>stats_rb := stats_rb s @
          [evt\<lparr>ev_ifindex := sk_ifindex (iv_skb iv), ev_dst_zone_id := z, ev_is_retrans := (if r then 1 else 0)\<rparr>]\<rparr>)"
| "egress_step k iv E_fault s = (E_fault, s)"
| "egress_step k iv E_done s = (E_done, s)"

text \<open>Packets under way together: a run for each, all at their beginning.\<close>

definition all_start :: "invocation list \<Rightarrow> egress_pc list" where
  "all_start ivs = replicate (length ivs) E_seen"

definition run_parallel :: "kernel \<Rightarrow> invocation list \<Rightarrow> nat list \<Rightarrow> bpf_state \<Rightarrow> egress_pc list \<times> bpf_state" where
  "run_parallel k ivs sched s = interleave (egress_step k) ivs sched (all_start ivs, s)"

text \<open>The cuts of the two filter operations are those of the step relations on one word and one epoch.\<close>

lemma set_access_is_set_step:
  assumes "st_pc (ts i) \<noteq> Set_done" and "set_access (st_pc (ts i)) (st_gen (ts i)) (st_mask (ts i)) w = (pc, w')"
  shows "set_step (w, ts) (w', ts(i := (ts i)\<lparr>st_pc := pc\<rparr>))"
proof (cases "st_pc (ts i)")
  case Set_test
  with assms show ?thesis using set_step.test [of ts i w] by auto
next
  case Set_expect
  with assms show ?thesis using set_step.expect [of ts i w] by auto
next
  case (Set_cas e)
  with assms show ?thesis using set_step.cas [of ts i e w] by (auto simp: Let_def split: prod.splits)
next
  case Set_clear
  with assms show ?thesis using set_step.clear [of ts i w] by auto
next
  case Set_or
  with assms show ?thesis using set_step.set_or [of ts i w] by auto
qed (use assms in simp)

lemma roll_access_is_roll_step:
  assumes "rt_pc (ts i) \<noteq> Roll_done" and "roll_access (rt_pc (ts i)) (rt_now (ts i)) e = (pc, e')"
  shows "roll_step True (e, ts) (e', ts(i := (ts i)\<lparr>rt_pc := pc\<rparr>))"
proof (cases "rt_pc (ts i)")
  case Roll_later
  with assms show ?thesis using roll_step.later [of ts i True e] by auto
next
  case (Roll_elapsed x)
  with assms show ?thesis using roll_step.elapsed [of ts i x _ True e] by auto
next
  case (Roll_expect x)
  with assms show ?thesis using roll_step.expect [of ts i x _ True e] by auto
next
  case (Roll_cas x)
  with assms show ?thesis using roll_step.cas [of ts i x True e] by (auto simp: Let_def split: prod.splits)
next
  case Roll_add
  with assms show ?thesis using roll_step.add [of ts i True e] by auto
qed (use assms in simp)

subsection \<open>No run waits for another\<close>

text \<open>The steps a run has left, whatever the others do: \<open>pc_left\<close> is at most \<open>MAX_STEPS\<close>.\<close>

fun set_left :: "set_pc \<Rightarrow> nat" where
  "set_left Set_test = 5" | "set_left Set_expect = 4" | "set_left (Set_cas e) = 3"
| "set_left Set_clear = 2" | "set_left Set_or = 1" | "set_left Set_done = 1"

fun roll_left :: "roll_pc \<Rightarrow> nat" where
  "roll_left Roll_later = 5" | "roll_left (Roll_elapsed s) = 4" | "roll_left (Roll_expect s) = 3"
| "roll_left (Roll_cas s) = 2" | "roll_left Roll_add = 1" | "roll_left Roll_done = 1"

fun pc_left :: "egress_pc \<Rightarrow> nat" where
  "pc_left E_seen = 41" | "pc_left E_parse = 40" | "pc_left E_fault = 0" | "pc_left (E_drop d) = 1"
| "pc_left (E_payload sg) = 39" | "pc_left (E_src sg) = 38" | "pc_left E_no_src = 1"
| "pc_left (E_dst sg) = 37" | "pc_left E_no_dst = 1" | "pc_left (E_zoned sg z) = 36"
| "pc_left (E_roll pc sg z) = 30 + roll_left pc"
| "pc_left (E_gen z bs) = 3 + 9 * length bs"
| "pc_left (E_test z cur g matched bs all seen) =
     2 + 5 * length all + 4 * (length bs - 1) + (if g = cur then 2 else 0) + (if matched then 1 else 2)"
| "pc_left (E_set z cur pc bs seen) = 2 + 5 * (length bs - 1) + set_left pc"
| "pc_left (E_reserve z r) = 2" | "pc_left (E_submit z r evt) = 1" | "pc_left E_done = 0"

definition MAX_STEPS :: nat where
  "MAX_STEPS = 41"

lemma set_left_step: "set_access pc g m w = (pc', w') \<Longrightarrow> pc' \<noteq> Set_done \<Longrightarrow> set_left pc' < set_left pc"
  by (cases pc) (auto simp: Let_def split: prod.splits if_splits)

lemma roll_left_step: "roll_access pc now e = (pc', e') \<Longrightarrow> pc' \<noteq> Roll_done \<Longrightarrow> roll_left pc' < roll_left pc"
  by (cases pc) (auto simp: Let_def split: prod.splits if_splits)

lemma left_pos [simp]: "0 < set_left pc" "0 < roll_left rpc"
  by (cases pc; simp) (cases rpc; simp)

lemma after_roll_left: "pc_left (after_roll k sg z) \<le> 30"
  by (auto simp: after_roll_def bloom_key_bits_def split: option.split)


lemma next_set_left: "pc_left (next_set z cur bs seen) \<le> 2 + 5 * length bs"
  by (cases bs) (simp_all add: next_set_def)

lemma next_test_left: "pc_left (next_test z cur bs all seen) \<le> 2 + 5 * length all + 4 * length bs"
  using next_set_left [of z cur all seen] by (cases bs) (auto simp: next_test_def intro: le_trans)

lemma test_missed_left:
  "pc_left (test_missed z cur g (b # bs) all seen) \<le>
     2 + 5 * length all + 4 * length bs + (if g = cur then 2 else 0)"
  using next_test_left [of z cur bs all False] by (simp add: test_missed_def)

lemma egress_step_left:
  "0 < pc_left pc \<Longrightarrow> pc_left (fst (egress_step k iv pc s)) < pc_left pc"
proof (induction k iv pc s rule: egress_step.induct)
  case (10 k iv pc sg z s)
  have "pc_left (after_roll k sg z) < 30 + roll_left pc"
    using after_roll_left [of k sg z] left_pos(2) [of pc] by linarith
  then show ?case by (auto simp: Let_def split: option.split prod.split dest: roll_left_step)
next
  case (11 k iv z bs s)
  show ?case
  proof (cases "bpf_map_lookup_elem (bloom_epoch s) 0")
    case (Some e)
    with next_test_left [of z "ep_gen e" bs bs True] show ?thesis by simp
  qed simp
next
  case (12 k iv z cur g matched all seen s)
  then show ?case using next_set_left [of z cur all seen] by simp
next
  case (13 k iv z cur g matched b bs all seen s)
  then show ?case
    using test_missed_left [of z cur g b bs all seen] next_test_left [of z cur bs all seen]
    by (auto split: option.split)
next
  case (15 k iv z cur pc b bs seen s)
  then show ?case
    using next_set_left [of z cur bs seen] left_pos(1) [of pc]
    by (auto simp: Let_def simp del: left_pos split: option.split prod.split dest: set_left_step)
qed (auto split: option.split sum.split)

lemma egress_step_stop: "pc_left pc = 0 \<Longrightarrow> egress_step k iv pc s = (pc, s)"
  by (cases pc) auto

interpretation egress_free: wait_free "egress_step k" pc_left for k
  by unfold_locales (simp_all add: egress_step_left egress_step_stop)

lemma pc_left_zero: "pc_left pc = 0 \<longleftrightarrow> pc = E_fault \<or> pc = E_done"
  by (cases pc) simp_all


subsection \<open>A run on its own is the sequential program\<close>

lemma same_field [simp]: "s\<lparr>bloom_bits := bloom_bits s\<rparr> = s" "s\<lparr>bloom_epoch := bloom_epoch s\<rparr> = s" for s :: bpf_state
  by simp_all

lemma map_same [simp]: "m x = Some y \<Longrightarrow> m(x \<mapsto> y) = m"
  by (rule fun_upd_idem)

lemma lookup_elem [simp]: "bpf_map_lookup_elem m i = m i"
  by (simp add: bpf_map_lookup_elem_def)

lemma roll_alone:
  "leads (egress_step k) iv (E_roll Roll_later sg z, s)
     (after_roll k sg z, s\<lparr>bloom_epoch := bloom_maybe_roll_epoch (iv_now iv) (bloom_epoch s)\<rparr>)"
proof (cases "bloom_epoch s 0")
  case None
  then show ?thesis by (intro leads_step) (simp add: bloom_maybe_roll_epoch_def)
next
  case (Some e)
  have same: "s\<lparr>bloom_epoch := (bloom_epoch s)(0 \<mapsto> e)\<rparr> = s" using Some by simp
  consider "\<not> iv_now iv > ep_start_ns e" | "iv_now iv > ep_start_ns e" "\<not> iv_now iv - ep_start_ns e > BLOOM_EPOCH_NS"
    | "iv_now iv > ep_start_ns e" "iv_now iv - ep_start_ns e > BLOOM_EPOCH_NS" by blast
  then show ?thesis
  proof cases
    case 1
    with Some show ?thesis by (intro leads_step) (simp add: bloom_maybe_roll_epoch_def)
  next
    case 2
    with Some same show ?thesis
      by (intro leads_step [of _ _ "E_roll Roll_later sg z"]) (simp, rule leads_step, simp add: bloom_maybe_roll_epoch_def)
  next
    case 3
    with Some same show ?thesis
      by (intro leads_step [of _ _ "E_roll Roll_later sg z"])
        (simp, rule leads_step, simp, rule leads_step, simp, rule leads_step, simp add: sync_defs,
         rule leads_step, simp add: bloom_maybe_roll_epoch_def sync_defs)
  qed
qed

lemma set_alone:
  "leads (egress_step k) iv (E_set z g Set_test (b # bs) seen, s)
     (next_set z g bs seen, s\<lparr>bloom_bits := bloom_set_bit_gen (bloom_bits s) b g\<rparr>)"
proof (cases "bloom_bits s (bloom_idx b g)")
  case None
  then show ?thesis by (intro leads_step) (simp add: bloom_set_bit_gen_def)
next
  case (Some w)
  show ?thesis
  proof (cases "bw_gen w = g")
    case True
    with Some show ?thesis
      by (intro leads_step [of _ _ "E_set z g Set_test (b # bs) seen"])
        (simp, rule leads_step, simp add: bloom_set_bit_gen_def sync_defs)
  next
    case False
    with Some show ?thesis
      by (intro leads_step [of _ _ "E_set z g Set_test (b # bs) seen"])
        (simp, rule leads_step, simp, rule leads_step, simp add: sync_defs, rule leads_step, simp,
         rule leads_step, simp add: bloom_set_bit_gen_def sync_defs)
  qed
qed

lemma sets_alone:
  "leads (egress_step k) iv (next_set z g bs seen, s)
     (E_reserve z seen, s\<lparr>bloom_bits := foldl (\<lambda>m b. bloom_set_bit_gen m b g) (bloom_bits s) bs\<rparr>)"
proof (induction bs arbitrary: s)
  case (Cons b bs)
  have "leads (egress_step k) iv (next_set z g (b # bs) seen, s)
      (next_set z g bs seen, s\<lparr>bloom_bits := bloom_set_bit_gen (bloom_bits s) b g\<rparr>)"
    using set_alone [of k iv z g b bs seen s] by (simp add: next_set_def [of z g "b # bs"])
  also have "leads (egress_step k) iv \<dots>
      (E_reserve z seen, s\<lparr>bloom_bits := foldl (\<lambda>m b. bloom_set_bit_gen m b g) (bloom_bits s) (b # bs)\<rparr>)"
    using Cons [of "s\<lparr>bloom_bits := bloom_set_bit_gen (bloom_bits s) b g\<rparr>"] by simp
  finally show ?case .
qed (simp add: next_set_def)

lemma test_generation_alone:
  "leads (egress_step k) iv (E_test z cur g False (b # bs) all seen, s)
     (if bloom_test_bit_gen (bloom_bits s) b g then next_test z cur bs all seen
      else test_missed z cur g (b # bs) all seen, s)"
proof (cases "\<exists>w. bloom_bits s (bloom_idx b g) = Some w \<and> bw_gen w = g")
  case True
  then show ?thesis
    by (intro leads_step [of _ _ "E_test z cur g False (b # bs) all seen"])
      (auto simp: bloom_test_bit_gen_def intro!: leads_step)
next
  case False
  then show ?thesis
    by (intro leads_step) (auto simp: bloom_test_bit_gen_def split: option.split)
qed

definition seen_in :: "bloom_bits_map \<Rightarrow> u64 \<Rightarrow> u32 \<Rightarrow> bool" where
  "seen_in m g b \<longleftrightarrow> bloom_test_bit_gen m b g \<or> bloom_test_bit_gen m b (g - 1)"

lemma test_alone:
  "leads (egress_step k) iv (E_test z g g False (b # bs) all seen, s)
     (next_test z g bs all (seen \<and> seen_in (bloom_bits s) g b), s)"
proof (cases "bloom_test_bit_gen (bloom_bits s) b g")
  case True
  with test_generation_alone [of k iv z g g b bs all seen s] show ?thesis by (simp add: seen_in_def)
next
  case False
  then have "leads (egress_step k) iv (E_test z g g False (b # bs) all seen, s)
      (E_test z g (g - 1) False (b # bs) all seen, s)"
    using test_generation_alone [of k iv z g g b bs all seen s] by (simp add: test_missed_def)
  also have "leads (egress_step k) iv \<dots> (next_test z g bs all (seen \<and> seen_in (bloom_bits s) g b), s)"
    using test_generation_alone [of k iv z g "g - 1" b bs all seen s] False
    by (cases "bloom_test_bit_gen (bloom_bits s) b (g - 1)") (simp_all add: test_missed_def seen_in_def)
  finally show ?thesis .
qed

lemma tests_alone:
  "leads (egress_step k) iv (next_test z g bs all seen, s)
     (next_set z g all (seen \<and> (\<forall>b\<in>set bs. seen_in (bloom_bits s) g b)), s)"
proof (induction bs arbitrary: seen)
  case (Cons b bs)
  have "leads (egress_step k) iv (next_test z g (b # bs) all seen, s)
      (next_test z g bs all (seen \<and> seen_in (bloom_bits s) g b), s)"
    using test_alone [of k iv z g b bs all seen s] by (simp add: next_test_def [of z g "b # bs"])
  also note Cons [of "seen \<and> seen_in (bloom_bits s) g b"]
  finally show ?case by (simp add: conj_assoc)
qed (simp add: next_test_def)


lemma retrans_alone:
  "leads (egress_step k) iv (after_roll k sg z, s)
     (E_reserve z (fst (retrans_check k sg s)), s\<lparr>bloom_bits := snd (retrans_check k sg s)\<rparr>)"
proof (cases "segment_key k sg")
  case None
  then show ?thesis by (simp add: after_roll_def retrans_check_None)
next
  case (Some key)
  obtain sa da sp dp q where key: "key = (sa, da, sp, dp, q)" by (cases key)
  let ?bs = "bloom_key_bits sa da sp dp q"
  have start: "after_roll k sg z = E_gen z ?bs" using Some key by (simp add: after_roll_def)
  note check = retrans_check_Some [OF Some [unfolded key], of s]
  show ?thesis
  proof (cases "bloom_epoch s 0")
    case None
    then have "bloom_test_and_set (bloom_epoch s) (bloom_bits s) sa da sp dp q = (False, bloom_bits s)"
      by (simp add: bloom_test_and_set_def)
    with None start check show ?thesis by (intro leads_step) simp
  next
    case e: (Some e)
    let ?g = "ep_gen e" and ?seen = "\<forall>b\<in>set ?bs. seen_in (bloom_bits s) (ep_gen e) b"
    have seq: "retrans_check k sg s = (?seen, foldl (\<lambda>m b. bloom_set_bit_gen m b ?g) (bloom_bits s) ?bs)"
      by (simp add: check bloom_test_and_set_eq [of "bloom_epoch s", OF e] seen_in_def)
    have "leads (egress_step k) iv (after_roll k sg z, s) (next_test z ?g ?bs ?bs True, s)"
      unfolding start by (rule leads_step) (simp add: e)
    also have "leads (egress_step k) iv \<dots> (next_set z ?g ?bs ?seen, s)"
      using tests_alone [of k iv z ?g ?bs ?bs True s] by simp
    also note sets_alone
    finally show ?thesis by (simp add: seq)
  qed
qed

lemma filter_alone:
  "leads (egress_step k) iv (E_roll Roll_later sg z, s) (E_done, filter_step k iv sg z s)"
proof -
  let ?t = "s\<lparr>bloom_epoch := bloom_maybe_roll_epoch (iv_now iv) (bloom_epoch s)\<rparr>"
  let ?r = "fst (retrans_check k sg ?t)" and ?u = "?t\<lparr>bloom_bits := snd (retrans_check k sg ?t)\<rparr>"
  have fin: "leads (egress_step k) iv (E_reserve z r, u) (E_done, u\<lparr>stats_rb := stats_rb u @ event_of iv z r\<rparr>)" for r u
  proof (cases "iv_reserve iv")
    case None
    then show ?thesis by (intro leads_step) (simp add: event_of_def)
  next
    case (Some evt)
    then show ?thesis
      by (intro leads_step [of _ _ "E_reserve z r"]) (simp, rule leads_step, cases evt, simp add: event_of_def)
  qed
  have "leads (egress_step k) iv (E_roll Roll_later sg z, s) (after_roll k sg z, ?t)" by (rule roll_alone)
  also note retrans_alone
  also have "leads (egress_step k) iv (E_reserve z ?r, ?u) (E_done, ?u\<lparr>stats_rb := stats_rb ?u @ event_of iv z ?r\<rparr>)"
    by (rule fin)
  finally have "leads (egress_step k) iv (E_roll Roll_later sg z, s) (E_done, ?u\<lparr>stats_rb := stats_rb ?u @ event_of iv z ?r\<rparr>)" .
  moreover have "filter_step k iv sg z s = ?u\<lparr>stats_rb := stats_rb ?u @ event_of iv z ?r\<rparr>"
    by (cases s) (simp add: filter_step_def Let_def split_def)
  ultimately show ?thesis by (simp only:)
qed

lemma path_alone: "leads (egress_step k) iv (E_seen, s) (E_done, egress_effect k iv s)"
proof -
  obtain r where r: "parse_segment k (iv_skb iv) = Some r" using parse_segment_total by blast
  show ?thesis
  proof (cases r)
    case (Inl d)
    have c: "classify k s (iv_skb iv) = Dropped d" by (simp add: classify_def r Inl)
    have "leads (egress_step k) iv (E_seen, s) (E_done, count_class (iv_cpu iv) (Dropped d) s)"
      by (rule leads_step, simp, rule leads_step, simp add: r Inl, rule leads_step, cases d) (simp_all add: count_class_def)
    then show ?thesis by (simp add: egress_effect_def c)
  next
    case (Inr sg)
    let ?s = "s\<lparr>debug_seen := debug_inc (debug_seen s) (iv_cpu iv),
      debug_tcp_payload := debug_inc (debug_tcp_payload s) (iv_cpu iv)\<rparr>"
    have "leads (egress_step k) iv (E_seen, s) (E_src sg, ?s)"
      by (rule leads_step, simp, rule leads_step, simp add: r Inr, rule leads_step) simp
    also have "leads (egress_step k) iv \<dots> (E_done, egress_effect k iv s)"
    proof (cases "k_lpm_lookup k (src_zone_lpm s) (32, sg_saddr sg)")
      case None
      then have "classify k s (iv_skb iv) = No_src_zone" by (simp add: classify_def r Inr)
      with None show ?thesis
        by (intro leads_step [of _ _ "E_src sg"]) (simp, rule leads_step, simp add: egress_effect_def count_class_def)
    next
      case src: (Some src)
      show ?thesis
      proof (cases "k_lpm_lookup k (zone_lpm s) (32, sg_daddr sg)")
        case None
        then have "classify k s (iv_skb iv) = No_dst_zone" by (simp add: classify_def r Inr src)
        with None src show ?thesis
          by (intro leads_step [of _ _ "E_src sg"])
            (simp, rule leads_step, simp, rule leads_step, simp add: egress_effect_def count_class_def)
      next
        case (Some z)
        then have c: "classify k s (iv_skb iv) = Zoned sg z" by (simp add: classify_def r Inr src)
        have "leads (egress_step k) iv (E_src sg, ?s) (E_roll Roll_later sg z, count_class (iv_cpu iv) (Zoned sg z) s)"
          by (rule leads_step, simp add: src, rule leads_step, simp add: Some, rule leads_step) (simp add: count_class_def)
        also note filter_alone
        finally show ?thesis by (simp add: egress_effect_def c)
      qed
    qed
    finally show ?thesis .
  qed
qed

definition one_by_one :: "nat \<Rightarrow> nat list" where
  "one_by_one n = concat (map (replicate MAX_STEPS) [0..<n])"

lemma finish_next:
  "m < n \<Longrightarrow> (replicate m x @ replicate (n - m) y)[m := x] = replicate (Suc m) x @ replicate (n - Suc m) y"
  by (rule nth_equalityI) (auto simp: nth_append nth_list_update less_Suc_eq simp del: replicate_Suc)

lemma one_by_one_prefix:
  "m \<le> length ivs \<Longrightarrow> run_parallel k ivs (one_by_one m) s =
     (replicate m E_done @ replicate (length ivs - m) E_seen, foldl (\<lambda>s iv. egress_effect k iv s) s (take m ivs))"
proof (induction m)
  case (Suc m)
  let ?pcs = "replicate m E_done @ replicate (length ivs - m) E_seen"
  let ?s = "foldl (\<lambda>s iv. egress_effect k iv s) s (take m ivs)"
  have at: "?pcs ! m = E_seen" "m < length ?pcs" using Suc.prems by (simp_all add: nth_append)
  have alone: "solo (egress_step k) (ivs ! m) MAX_STEPS (E_seen, ?s) = (E_done, egress_effect k (ivs ! m) ?s)"
    by (rule egress_free.solo_enough [OF path_alone]) (simp_all add: MAX_STEPS_def)
  have "run_parallel k ivs (one_by_one (Suc m)) s = interleave (egress_step k) ivs (replicate MAX_STEPS m) (?pcs, ?s)"
    using Suc by (simp add: run_parallel_def one_by_one_def interleave_append)
  also have "\<dots> = (?pcs[m := E_done], egress_effect k (ivs ! m) ?s)"
    using interleave_solo [OF at(2), of "egress_step k" ivs MAX_STEPS ?s] by (simp only: at(1) alone fst_conv snd_conv)
  also have "\<dots> = (replicate (Suc m) E_done @ replicate (length ivs - Suc m) E_seen,
      foldl (\<lambda>s iv. egress_effect k iv s) s (take (Suc m) ivs))"
    using Suc.prems by (simp add: finish_next take_Suc_conv_app_nth del: replicate_Suc)
  finally show ?case .
qed (simp add: run_parallel_def one_by_one_def all_start_def)

text \<open>
  C8. The cut into steps is faithful: when the runs are scheduled one after the other, \<open>MAX_STEPS\<close>
  steps for each, they end in the state \<^verbatim>\<open>path_egress\<close> reaches on the packets in sequence.
\<close>

theorem sequential_run_is_a_schedule:
  "\<exists>s'. run_egress k ivs s = Some s' \<and>
     run_parallel k ivs (one_by_one (length ivs)) s = (replicate (length ivs) E_done, s')"
  using one_by_one_prefix [of "length ivs" ivs k s] by (simp add: run_egress_eq)


subsection \<open>What a program point says about the packet\<close>

definition zoned_to :: "kernel \<Rightarrow> bpf_state \<Rightarrow> invocation \<Rightarrow> u8 \<Rightarrow> bool" where
  "zoned_to k s iv z \<longleftrightarrow> (\<exists>sg. classify k s (iv_skb iv) = Zoned sg z)"

definition looks_up :: "kernel \<Rightarrow> bpf_state \<Rightarrow> invocation \<Rightarrow> u8 \<Rightarrow> u32 list \<Rightarrow> bool" where
  "looks_up k s iv z bs \<longleftrightarrow>
     (\<exists>sg key. classify k s (iv_skb iv) = Zoned sg z \<and> segment_key k sg = Some key \<and> bs = key_bits key)"

definition same_zones :: "bpf_state \<Rightarrow> bpf_state \<Rightarrow> bool" where
  "same_zones s t \<longleftrightarrow> zone_lpm t = zone_lpm s \<and> src_zone_lpm t = src_zone_lpm s"

fun pc_ok :: "kernel \<Rightarrow> bpf_state \<Rightarrow> invocation \<Rightarrow> egress_pc \<Rightarrow> bool" where
  "pc_ok k s iv E_fault \<longleftrightarrow> False"
| "pc_ok k s iv (E_drop d) \<longleftrightarrow> classify k s (iv_skb iv) = Dropped d"
| "pc_ok k s iv (E_payload sg) \<longleftrightarrow> parse_segment k (iv_skb iv) = Some (Inr sg)"
| "pc_ok k s iv (E_src sg) \<longleftrightarrow> parse_segment k (iv_skb iv) = Some (Inr sg)"
| "pc_ok k s iv E_no_src \<longleftrightarrow> classify k s (iv_skb iv) = No_src_zone"
| "pc_ok k s iv (E_dst sg) \<longleftrightarrow>
     parse_segment k (iv_skb iv) = Some (Inr sg) \<and> k_lpm_lookup k (src_zone_lpm s) (32, sg_saddr sg) \<noteq> None"
| "pc_ok k s iv E_no_dst \<longleftrightarrow> classify k s (iv_skb iv) = No_dst_zone"
| "pc_ok k s iv (E_zoned sg z) \<longleftrightarrow> classify k s (iv_skb iv) = Zoned sg z"
| "pc_ok k s iv (E_roll pc sg z) \<longleftrightarrow> classify k s (iv_skb iv) = Zoned sg z"
| "pc_ok k s iv (E_gen z bs) \<longleftrightarrow> looks_up k s iv z bs"
| "pc_ok k s iv (E_test z cur g matched bs all seen) \<longleftrightarrow>
     looks_up k s iv z all \<and> (g = cur \<or> g = cur - 1) \<and> (\<exists>pre. all = pre @ bs)"
| "pc_ok k s iv (E_set z cur pc bs seen) \<longleftrightarrow> (\<exists>pre. looks_up k s iv z (pre @ bs))"
| "pc_ok k s iv (E_reserve z r) \<longleftrightarrow> zoned_to k s iv z"
| "pc_ok k s iv (E_submit z r evt) \<longleftrightarrow> zoned_to k s iv z \<and> iv_reserve iv = Some evt"
| "pc_ok k s iv pc \<longleftrightarrow> True"

lemma looks_up_zoned: "looks_up k s iv z bs \<Longrightarrow> zoned_to k s iv z"
  by (auto simp: looks_up_def zoned_to_def)

lemma pc_ok_next_set:
  "looks_up k s iv z (pre @ bs) \<Longrightarrow> pc_ok k s iv (next_set z cur bs seen)"
  by (auto simp: next_set_def looks_up_zoned)

lemma pc_ok_next_test:
  assumes "looks_up k s iv z all" and "all = pre @ bs"
  shows "pc_ok k s iv (next_test z cur bs all seen)"
  using assms pc_ok_next_set [of k s iv z "[]" all] by (auto simp: next_test_def)

lemma pc_ok_test_missed:
  assumes "looks_up k s iv z all" and "all = pre @ b # bs"
  shows "pc_ok k s iv (test_missed z cur g (b # bs) all seen)"
  using assms pc_ok_next_test [of k s iv z all "pre @ [b]" bs] by (auto simp: test_missed_def)

lemma pc_ok_after_roll: "classify k s (iv_skb iv) = Zoned sg z \<Longrightarrow> pc_ok k s iv (after_roll k sg z)"
  by (auto simp: after_roll_def looks_up_def zoned_to_def split: option.split)

lemma pc_ok_step:
  "pc_ok k s0 iv pc \<Longrightarrow> same_zones s0 s \<Longrightarrow> pc_ok k s0 iv (fst (egress_step k iv pc s))"
proof (induction k iv pc s rule: egress_step.induct)
  case (2 k iv s)
  then show ?case using parse_segment_total [of k "iv_skb iv"] by (auto simp: classify_def split: sum.split)
next
  case (13 k iv z cur g matched b bs all seen s)
  then obtain pre where pre: "looks_up k s0 iv z all" "all = pre @ b # bs" by auto
  have "pc_ok k s0 iv (next_test z cur bs all seen)" by (rule pc_ok_next_test [OF pre(1), of "pre @ [b]"]) (simp add: pre(2))
  with 13 pre pc_ok_test_missed [OF pre] show ?case by (auto split: option.split)
next
  case (15 k iv z cur pc b bs seen s)
  then obtain pre where "looks_up k s0 iv z ((pre @ [b]) @ bs)" by auto
  from pc_ok_next_set [OF this] 15 show ?case by (auto simp: Let_def split: option.split prod.split)
next
  case (11 k iv z bs s)
  then show ?case using pc_ok_next_test [of k s0 iv z bs "[]" bs] looks_up_zoned by (auto split: option.split)
next
  case (12 k iv z cur g matched all seen s)
  then show ?case using pc_ok_next_set [of k s0 iv z "[]" all] by simp
qed (auto simp: classify_def same_zones_def pc_ok_after_roll looks_up_zoned Let_def split: option.split prod.split)

lemma same_zones_step: "same_zones s0 s \<Longrightarrow> same_zones s0 (snd (egress_step k iv pc s))"
  by (induction k iv pc s rule: egress_step.induct)
    (auto simp: same_zones_def Let_def split: option.split prod.split sum.split drop_reason.split)

lemma counters_wf_step: "counters_wf s \<Longrightarrow> counters_wf (snd (egress_step k iv pc s))"
  by (induction k iv pc s rule: egress_step.induct)
    (auto simp: counters_wf_def Let_def split: option.split prod.split sum.split drop_reason.split)


subsection \<open>What a step leaves alone\<close>

lemma bits_frame:
  "(\<And>z cur q b bs seen. pc \<noteq> E_set z cur q (b # bs) seen) \<Longrightarrow> bloom_bits (snd (egress_step k iv pc s)) = bloom_bits s"
proof (induction k iv pc s rule: egress_step.induct)
  case (15 k iv z cur pc b bs seen s)
  then show ?case by blast
qed (auto simp: Let_def split: option.split prod.split sum.split drop_reason.split)

lemma looks_up_valid: "looks_up k s iv z bs \<Longrightarrow> b \<in> set bs \<Longrightarrow> valid_bit b"
  using key_bits_valid unfolding looks_up_def by metis

lemma pc_ok_set_valid: "pc_ok k s iv (E_set z cur q (b # bs) seen) \<Longrightarrow> valid_bit b"
  by (auto dest: looks_up_valid)

lemma pc_ok_test_valid: "pc_ok k s iv (E_test z cur g m (b # bs) all seen) \<Longrightarrow> valid_bit b"
  by (auto dest: looks_up_valid)

lemma ring_grows: "set (stats_rb s) \<subseteq> set (stats_rb (snd (egress_step k iv pc s)))"
  by (induction k iv pc s rule: egress_step.induct)
    (auto simp: Let_def split: option.split prod.split sum.split drop_reason.split)

lemma looks_up_fun: "looks_up k s iv z bs \<Longrightarrow> looks_up k s iv z' bs' \<Longrightarrow> z' = z \<and> bs' = bs"
  by (auto simp: looks_up_def)

subsection \<open>Parallel runs\<close>

lemma all_start_simps [simp]: "length (all_start ivs) = length ivs" "i < length ivs \<Longrightarrow> all_start ivs ! i = E_seen"
  by (simp_all add: all_start_def)

lemma length_run_parallel [simp]: "length (fst (run_parallel k ivs sched s)) = length ivs"
  by (simp add: run_parallel_def)

lemma run_parallel_append:
  "run_parallel k ivs (xs @ ys) s = interleave (egress_step k) ivs ys (run_parallel k ivs xs s)"
  by (simp add: run_parallel_def interleave_append)

text \<open>Every run is where its packet takes it, and the prefix maps stay as they are.\<close>

definition in_step :: "kernel \<Rightarrow> bpf_state \<Rightarrow> invocation list \<Rightarrow> egress_pc list \<Rightarrow> bpf_state \<Rightarrow> bool" where
  "in_step k s0 ivs pcs s \<longleftrightarrow>
     length pcs = length ivs \<and> same_zones s0 s \<and> (\<forall>i<length pcs. pc_ok k s0 (ivs ! i) (pcs ! i))"

lemma in_step_start: "in_step k s ivs (all_start ivs) s"
  by (simp add: in_step_def same_zones_def)

lemma in_step_step:
  assumes "in_step k s0 ivs pcs s" and "i < length pcs" and "egress_step k (ivs ! i) (pcs ! i) s = (pc, t)"
  shows "in_step k s0 ivs (pcs[i := pc]) t"
  using assms pc_ok_step [of k s0 "ivs ! i" "pcs ! i" s] same_zones_step [of s0 s k "ivs ! i" "pcs ! i"]
  by (auto simp: in_step_def nth_list_update)

lemma in_step_interleave:
  "in_step k s0 ivs pcs s \<Longrightarrow> interleave (egress_step k) ivs sched (pcs, s) = (pcs', s') \<Longrightarrow> in_step k s0 ivs pcs' s'"
  using interleave_invariant [of "in_step k s0 ivs" pcs s "egress_step k" ivs sched] in_step_step by fastforce

lemma in_step_parallel: "run_parallel k ivs sched s = (pcs, s') \<Longrightarrow> in_step k s ivs pcs s'"
  unfolding run_parallel_def by (rule in_step_interleave [OF in_step_start])

lemma run_parallel_ends:
  assumes "\<forall>i<length ivs. MAX_STEPS \<le> count_list sched i"
  shows "\<exists>s'. run_parallel k ivs sched s = (replicate (length ivs) E_done, s')"
proof -
  obtain pcs s' where r: "run_parallel k ivs sched s = (pcs, s')" by fastforce
  have ok: "length pcs = length ivs" "\<forall>i<length ivs. pc_ok k s (ivs ! i) (pcs ! i)"
    using in_step_parallel [OF r] by (auto simp: in_step_def)
  have "\<forall>i<length ivs. pc_left (pcs ! i) = 0"
    using egress_free.all_finish [of "all_start ivs" sched k ivs s] assms r by (simp add: run_parallel_def MAX_STEPS_def)
  with ok(2) have "\<forall>i<length ivs. pcs ! i = E_done" unfolding pc_left_zero by (metis pc_ok.simps(1))
  with ok(1) have "pcs = replicate (length ivs) E_done" by (intro nth_equalityI) simp_all
  with r show ?thesis by blast
qed

text \<open>
  C9. The program is wait-free: on any number of CPUs and under any schedule, a run that is given
  \<open>MAX_STEPS\<close> (41) steps comes to its end, whatever the other runs do in between, and no run ever
  reads outside its packet. There is no retry loop and no waiting.
\<close>

theorem parallel_runs_finish:
  assumes "\<forall>i<length ivs. MAX_STEPS \<le> count_list sched i"
  shows "\<exists>s'. run_parallel k ivs sched s = (replicate (length ivs) E_done, s')"
  by (rule run_parallel_ends [OF assms])

theorem parallel_runs_finish_witness:
  "\<exists>s'. run_parallel (ref_kernel Little) [sample_invocation 48 1 0x18 0, sample_invocation 48 1 0x18 5]
      (concat (replicate MAX_STEPS [1, 0])) (bpf_init Map.empty Map.empty) = ([E_done, E_done], s')"
  using parallel_runs_finish [of "[sample_invocation 48 1 0x18 0, sample_invocation 48 1 0x18 5]"
      "concat (replicate MAX_STEPS [1, 0])" "ref_kernel Little" "bpf_init Map.empty Map.empty"]
  by (simp add: All_less_Suc MAX_STEPS_def numeral_eq_Suc)

end
