(* ===== verification/Race_Counts.thy ===== *)
theory Race_Counts
  imports Egress_Race Packet_Counts "HOL-Library.Multiset"
begin

text \<open>
  What concurrent runs of the TC program leave in the debug counters and in the ring buffer. Each of
  them is a sum of what the single runs contribute, so the order of the steps does not show; only the
  verdicts of the duplicate filter can depend on it.
\<close>

fun counted_at :: "packet_class \<Rightarrow> egress_pc \<Rightarrow> debug_map set" where
  "counted_at c E_seen = {}"
| "counted_at c E_parse = {D_seen}" | "counted_at c E_fault = {D_seen}"
| "counted_at c (E_drop d) = {D_seen}" | "counted_at c (E_payload sg) = {D_seen}"
| "counted_at c (E_src sg) = {D_seen, D_tcp_payload}" | "counted_at c E_no_src = {D_seen, D_tcp_payload}"
| "counted_at c (E_dst sg) = {D_seen, D_tcp_payload}" | "counted_at c E_no_dst = {D_seen, D_tcp_payload}"
| "counted_at c (E_zoned sg z) = {D_seen, D_tcp_payload}"
| "counted_at c pc = class_counts c"

definition unflagged :: "stats_event \<Rightarrow> stats_event" where
  "unflagged ev = ev\<lparr>ev_is_retrans := 0\<rparr>"

definition class_events :: "invocation \<Rightarrow> packet_class \<Rightarrow> stats_event multiset" where
  "class_events iv c = (case c of Zoned sg z \<Rightarrow> mset (event_of iv z False) | _ \<Rightarrow> {#})"

definition counter_share :: "kernel \<Rightarrow> bpf_state \<Rightarrow> debug_map \<Rightarrow> nat \<Rightarrow> invocation \<Rightarrow> egress_pc \<Rightarrow> u64" where
  "counter_share k s d cpu iv pc =
     (if iv_cpu iv = cpu \<and> d \<in> counted_at (classify k s (iv_skb iv)) pc then 1 else 0)"

definition event_share :: "kernel \<Rightarrow> bpf_state \<Rightarrow> invocation \<Rightarrow> egress_pc \<Rightarrow> stats_event multiset" where
  "event_share k s iv pc = (if pc = E_done then class_events iv (classify k s (iv_skb iv)) else {#})"

definition counters_good :: "bpf_state \<Rightarrow> bpf_state \<Rightarrow> bool" where
  "counters_good s0 s \<longleftrightarrow> same_zones s0 s \<and> counters_wf s"

lemma counters_good_step: "counters_good s0 s \<Longrightarrow> counters_good s0 (snd (egress_step k iv pc s))"
  by (simp add: counters_good_def same_zones_step counters_wf_step)

text \<open>The points of the filter come after all counters and before the event.\<close>

definition past_counters :: "egress_pc \<Rightarrow> bool" where
  "past_counters pc \<longleftrightarrow> (\<forall>c. counted_at c pc = class_counts c) \<and> pc \<noteq> E_done"

lemma past_counters_next:
  "past_counters (next_set z cur bs seen)" "past_counters (next_test z cur bs all seen)"
  "past_counters (test_missed z cur g bs all seen)" "past_counters (after_roll k sg z)"
  by (simp_all add: past_counters_def next_set_def next_test_def test_missed_def after_roll_def split: option.split)

lemma past_countersD [simp]:
  "past_counters pc \<Longrightarrow> counted_at c pc = class_counts c" "past_counters pc \<Longrightarrow> pc \<noteq> E_done"
  by (simp_all add: past_counters_def)

lemmas past_counters_simps = past_counters_next [THEN past_countersD(1)] past_counters_next [THEN past_countersD(2)]

text \<open>One access adds to the shared maps what it adds to the share of its run.\<close>

lemma counter_share_step:
  assumes "pc_ok k s0 iv pc" and "counters_good s0 s"
  shows "\<exists>a. counter_share k s0 d cpu iv (fst (egress_step k iv pc s)) = counter_share k s0 d cpu iv pc + a \<and>
     counter (debug_of d (snd (egress_step k iv pc s))) cpu = counter (debug_of d s) cpu + a"
proof -
  have "counters_wf s" using assms(2) by (simp add: counters_good_def)
  with assms(1) show ?thesis
    by (induction k iv pc s rule: egress_step.induct)
      (auto simp: counter_share_def counters_wf_def counter_of_inc past_counters_simps Let_def
        split: option.split prod.split sum.split drop_reason.split)
qed

lemma event_share_step:
  assumes "pc_ok k s0 iv pc"
  shows "\<exists>a. event_share k s0 iv (fst (egress_step k iv pc s)) = event_share k s0 iv pc + a \<and>
     image_mset unflagged (mset (stats_rb (snd (egress_step k iv pc s)))) = image_mset unflagged (mset (stats_rb s)) + a"
  using assms
  by (induction k iv pc s rule: egress_step.induct)
    (auto simp: event_share_def class_events_def event_of_def unflagged_def zoned_to_def past_counters_simps Let_def
      split: option.split prod.split sum.split drop_reason.split)

interpretation counting: tallied "egress_step k" "pc_ok k s0" "counters_good s0" "counter_share k s0 d cpu"
    "\<lambda>s. counter (debug_of d s) cpu" for k s0 d cpu
  by unfold_locales (auto simp: counters_good_step pc_ok_step counters_good_def same_zones_step counters_wf_step
      intro!: counter_share_step)

interpretation reporting: tallied "egress_step k" "pc_ok k s0" "same_zones s0" "event_share k s0"
    "\<lambda>s. image_mset unflagged (mset (stats_rb s))" for k s0
  by unfold_locales (simp_all add: pc_ok_step same_zones_step event_share_step)


lemma start_shares:
  "counting.shares k s0 d cpu ivs (all_start ivs) = 0" "reporting.shares k s0 ivs (all_start ivs) = {#}"
  by (simp_all add: counting.shares_def reporting.shares_def counter_share_def event_share_def)

lemma parallel_counter:
  assumes "counters_wf s" and "run_parallel k ivs sched s = (pcs, s')"
  shows "counter (debug_of d s') cpu = counter (debug_of d s) cpu + counting.shares k s d cpu ivs pcs"
proof -
  have "counting.all_ok k s ivs (all_start ivs)" by (simp add: counting.all_ok_def)
  moreover have "counters_good s s" using assms(1) by (simp add: counters_good_def same_zones_def)
  ultimately show ?thesis
    using counting.tally [of k s ivs "all_start ivs" s d cpu "counter (debug_of d s) cpu" sched pcs s'] assms(2)
    by (simp add: start_shares run_parallel_def)
qed

lemma parallel_events:
  assumes "run_parallel k ivs sched s = (pcs, s')"
  shows "image_mset unflagged (mset (stats_rb s')) = image_mset unflagged (mset (stats_rb s)) + reporting.shares k s ivs pcs"
proof -
  have "reporting.all_ok k s ivs (all_start ivs)" by (simp add: reporting.all_ok_def)
  moreover have "same_zones s s" by (simp add: same_zones_def)
  ultimately show ?thesis
    using reporting.tally [of k s ivs "all_start ivs" s "image_mset unflagged (mset (stats_rb s))" sched pcs s'] assms
    by (simp add: start_shares run_parallel_def)
qed

text \<open>
  C6. However the runs on the CPUs interleave, when they have ended every debug counter of every CPU
  has the number, and the ring buffer holds as a multiset the events, that the same packets
  leave one after the other: nothing is lost, doubled or put under another zone or interface. Only
  the retransmission flag of an event can depend on the schedule.
\<close>

theorem parallel_counts_and_events:
  assumes "counters_wf s" and "run_parallel k ivs sched s = (replicate (length ivs) E_done, s')"
    and "run_egress k ivs s = Some t"
  shows "(\<forall>d cpu. counter (debug_of d s') cpu = counter (debug_of d t) cpu) \<and>
     image_mset unflagged (mset (stats_rb s')) = image_mset unflagged (mset (stats_rb t))"
proof -
  have t: "run_parallel k ivs (one_by_one (length ivs)) s = (replicate (length ivs) E_done, t)"
    using one_by_one_prefix [of "length ivs" ivs k s] assms(3) by (simp add: run_egress_eq)
  show ?thesis
    by (simp add: parallel_counter [OF assms(1,2)] parallel_counter [OF assms(1) t]
        parallel_events [OF assms(2)] parallel_events [OF t])
qed

theorem parallel_counts_and_events_witness:
  "\<exists>s' t. run_parallel (ref_kernel Little) [sample_invocation 48 1 0x18 0, sample_invocation 48 1 0x18 5]
      (concat (replicate MAX_STEPS [1, 0])) sample_state = ([E_done, E_done], s') \<and>
     run_egress (ref_kernel Little) [sample_invocation 48 1 0x18 0, sample_invocation 48 1 0x18 5] sample_state = Some t \<and>
     (\<forall>d cpu. counter (debug_of d s') cpu = counter (debug_of d t) cpu) \<and> length (stats_rb s') = length (stats_rb t)"
proof -
  let ?ivs = "[sample_invocation 48 1 0x18 0, sample_invocation 48 1 0x18 5]"
  let ?sched = "concat (replicate MAX_STEPS [1, 0])"
  obtain t where t: "run_egress (ref_kernel Little) ?ivs sample_state = Some t" using run_egress_total by blast
  obtain s' where s': "run_parallel (ref_kernel Little) ?ivs ?sched sample_state = (replicate (length ?ivs) E_done, s')"
    using run_parallel_ends [of ?ivs ?sched "ref_kernel Little" sample_state]
    by (auto simp: All_less_Suc MAX_STEPS_def numeral_eq_Suc)
  have "counters_wf sample_state" by (simp add: sample_state_def bpf_init_wf)
  from parallel_counts_and_events [OF this s' t] have
    "(\<forall>d cpu. counter (debug_of d s') cpu = counter (debug_of d t) cpu)"
    and "size (image_mset unflagged (mset (stats_rb s'))) = size (image_mset unflagged (mset (stats_rb t)))" by simp_all
  with s' t show ?thesis by (intro exI [of _ s'] exI [of _ t]) (simp add: numeral_2_eq_2)
qed

end
