(* ===== verification/Race_Detection.thy ===== *)
theory Race_Detection
  imports Egress_Race
begin

text \<open>
  The duplicate filter inside the interleaved TC program: when a repeated segment is reported although
  other CPUs work on the filter at the same time, and what a report implies under any schedule.
\<close>

subsection \<open>Words of the current generation are only added to\<close>

definition epoch_gen :: "bpf_state \<Rightarrow> u64 option" where
  "epoch_gen s = map_option ep_gen (bloom_epoch s 0)"

definition in_words :: "u64 \<Rightarrow> u32 set \<Rightarrow> u32 \<Rightarrow> bool" where
  "in_words g B b \<longleftrightarrow> bloom_idx b g \<in> (\<lambda>c. bloom_idx c g) ` B"

definition warm :: "u64 \<Rightarrow> u32 set \<Rightarrow> bpf_state \<Rightarrow> bool" where
  "warm g B s \<longleftrightarrow> (\<forall>b\<in>B. \<exists>w. bloom_bits s (bloom_idx b g) = Some w \<and> bw_gen w = g)"

definition held :: "u64 \<Rightarrow> u32 set \<Rightarrow> bpf_state \<Rightarrow> bool" where
  "held g B s \<longleftrightarrow> (\<forall>b\<in>B. bloom_test_bit_gen (bloom_bits s) b g)"

text \<open>
  A run that has read the generation \<open>g\<close> or the next one, and that is not about to take over one of the
  words of \<open>B\<close>.
\<close>

fun pc_calm :: "u64 \<Rightarrow> u32 set \<Rightarrow> egress_pc \<Rightarrow> bool" where
  "pc_calm g B (E_test z cur t matched bs all seen) \<longleftrightarrow> cur = g \<or> cur = g + 1"
| "pc_calm g B (E_set z cur pc bs seen) \<longleftrightarrow>
     (cur = g \<or> cur = g + 1) \<and> (cur = g \<longrightarrow> bs \<noteq> [] \<longrightarrow> in_words g B (hd bs) \<longrightarrow> pc = Set_test \<or> pc = Set_or)"
| "pc_calm g B pc \<longleftrightarrow> True"

lemma calm_word:
  assumes ok: "pc_ok k s0 iv pc" and calm: "pc_calm g B pc" and valid: "\<forall>b\<in>B. valid_bit b" and "b \<in> B"
    and w: "bloom_bits s (bloom_idx b g) = Some w" "bw_gen w = g"
  shows "\<exists>w'. bloom_bits (snd (egress_step k iv pc s)) (bloom_idx b g) = Some w' \<and> bw_gen w' = g \<and>
    (\<forall>m. bw_bits w AND m \<noteq> 0 \<longrightarrow> bw_bits w' AND m \<noteq> 0)"
proof (cases "\<exists>z cur q c cs seen. pc = E_set z cur q (c # cs) seen")
  case False
  then have "bloom_bits (snd (egress_step k iv pc s)) = bloom_bits s" by (intro bits_frame) blast
  with w show ?thesis by simp
next
  case True
  then obtain z cur q c cs seen where pc: "pc = E_set z cur q (c # cs) seen" by blast
  have c: "valid_bit c" using pc_ok_set_valid ok pc by metis
  show ?thesis
  proof (cases "bloom_idx c cur = bloom_idx b g")
    case False
    with w show ?thesis by (auto simp: pc Let_def split: option.split prod.split)
  next
    case same: True
    have "cur = g"
      using calm bloom_idx_next [OF valid [rule_format, OF assms(4)] c] same pc by auto
    moreover from this same have "in_words g B c" using assms(4) by (auto simp: in_words_def)
    ultimately have "q = Set_test \<or> q = Set_or" using calm pc by auto
    with w same \<open>cur = g\<close> show ?thesis
      by (auto simp: pc sync_defs dest: or_and_zeroD)
  qed
qed

lemma calm_warm:
  assumes "pc_ok k s0 iv pc" and "pc_calm g B pc" and "\<forall>b\<in>B. valid_bit b" and "warm g B s"
  shows "warm g B (snd (egress_step k iv pc s))"
  using assms(4) calm_word [OF assms(1-3)] unfolding warm_def by blast

lemma calm_held:
  assumes "pc_ok k s0 iv pc" and "pc_calm g B pc" and "\<forall>b\<in>B. valid_bit b" and "warm g B s" and "C \<subseteq> B" and "held g C s"
  shows "held g C (snd (egress_step k iv pc s))"
  using assms(4-6) calm_word [OF assms(1-3)] unfolding held_def warm_def bloom_test_bit_gen_iff
  by (metis (no_types, lifting) option.inject subsetD)

lemma calm_next_set: "cur = g \<or> cur = g + 1 \<Longrightarrow> pc_calm g B (next_set z cur bs seen)"
  by (auto simp: next_set_def)

lemma calm_next_test: "cur = g \<or> cur = g + 1 \<Longrightarrow> pc_calm g B (next_test z cur bs all seen)"
  by (auto simp: next_test_def calm_next_set)

lemma calm_test_missed: "cur = g \<or> cur = g + 1 \<Longrightarrow> pc_calm g B (test_missed z cur t bs all seen)"
  by (auto simp: test_missed_def calm_next_test)

lemma calm_after_roll: "pc_calm g B (after_roll k sg z)"
  by (simp add: after_roll_def split: option.split)

lemmas calm_next = calm_next_set calm_next_test calm_test_missed calm_after_roll

lemma warm_word:
  assumes "warm g B s" and "in_words g B b" and "bloom_bits s (bloom_idx b g) = Some w"
  shows "bw_gen w = g"
  using assms by (auto simp: warm_def in_words_def)

lemma pc_calm_step:
  "pc_calm g B pc \<Longrightarrow> warm g B s \<Longrightarrow> epoch_gen s = Some g \<or> epoch_gen s = Some (g + 1) \<Longrightarrow>
     pc_calm g B (fst (egress_step k iv pc s))"
proof (induction k iv pc s rule: egress_step.induct)
  case (13 k iv z cur t matched b bs all seen s)
  then show ?case by (auto simp: calm_next split: option.split)
next
  case (15 k iv z cur pc b bs seen s)
  show ?case
  proof (cases "bloom_bits s (bloom_idx b cur)")
    case (Some w)
    have "bw_gen w = g" if "cur = g" "in_words g B b" using warm_word 15(2) that Some by blast
    with 15(1) Some show ?thesis
      by (cases pc) (auto simp: calm_next Let_def split: prod.split)
  qed (use 15(1) in \<open>auto simp: calm_next\<close>)
qed (auto simp: calm_next epoch_gen_def Let_def split: option.splits prod.split sum.split)


subsection \<open>Setting and finding the bits of a segment\<close>

text \<open>\<open>B\<close> are the bits of the packet: those it has set so far in generation \<open>g\<close> stay set.\<close>

fun sets_bits :: "u64 \<Rightarrow> u32 set \<Rightarrow> egress_pc \<Rightarrow> bpf_state \<Rightarrow> bool" where
  "sets_bits g B (E_test z cur t matched bs all seen) s \<longleftrightarrow> cur = g"
| "sets_bits g B (E_set z cur q bs seen) s \<longleftrightarrow> cur = g \<and> held g (B - set bs) s"
| "sets_bits g B (E_reserve z r) s \<longleftrightarrow> held g B s"
| "sets_bits g B (E_submit z r evt) s \<longleftrightarrow> held g B s"
| "sets_bits g B E_done s \<longleftrightarrow> held g B s"
| "sets_bits g B pc s \<longleftrightarrow> True"

lemma sets_bits_next_set: "held g (B - set bs) s \<Longrightarrow> sets_bits g B (next_set z g bs seen) s"
  by (cases bs) (simp_all add: next_set_def)

lemma sets_bits_next_test: "B = set all \<Longrightarrow> sets_bits g B (next_test z g bs all seen) s"
  by (simp add: next_test_def sets_bits_next_set held_def)

lemma sets_bits_test_missed: "B = set all \<Longrightarrow> sets_bits g B (test_missed z g t bs all seen) s"
  by (simp add: test_missed_def sets_bits_next_test)

lemma sets_bits_mono:
  assumes "sets_bits g B pc s" and "\<And>C. C \<subseteq> B \<Longrightarrow> held g C s \<Longrightarrow> held g C t"
  shows "sets_bits g B pc t"
  using assms(1) assms(2) [of B] assms(2) [of "B - C" for C] by (cases pc) auto

lemma after_roll_looks_up:
  "looks_up k s0 iv z bs \<Longrightarrow> pc_ok k s0 iv (E_roll q sg z') \<Longrightarrow> after_roll k sg z' = E_gen z bs"
  by (auto simp: looks_up_def after_roll_def)

lemma sets_bits_step:
  assumes "sets_bits g (set ks) pc s" and "pc_ok k s0 iv pc" and "looks_up k s0 iv zk ks"
    and "pc_calm g (set ks) pc" and "warm g (set ks) s" and "epoch_gen s = Some g"
  shows "sets_bits g (set ks) (fst (egress_step k iv pc s)) (snd (egress_step k iv pc s))"
  using assms
proof (induction k iv pc s rule: egress_step.induct)
  case (10 k iv pc sg z s)
  with after_roll_looks_up [of k s0 iv zk ks pc sg z] show ?case
    by (auto simp: epoch_gen_def Let_def split: prod.split)
next
  case (11 k iv z bs s)
  then have "ks = bs" by (auto dest: looks_up_fun)
  with 11(6) show ?case by (auto simp: epoch_gen_def sets_bits_next_test)
next
  case (12 k iv z cur t matched all seen s)
  then have "ks = all" by (auto dest: looks_up_fun)
  with 12(1) show ?case by (simp add: sets_bits_next_set held_def)
next
  case (13 k iv z cur t matched b bs all seen s)
  then have "ks = all" by (auto dest: looks_up_fun)
  with 13(1) show ?case by (auto simp: sets_bits_next_test sets_bits_test_missed split: option.split)
next
  case (15 k iv z cur q b bs seen s)
  then have b: "b \<in> set ks" and cur: "cur = g" by (auto dest: looks_up_fun)
  then obtain w where w: "bloom_bits s (bloom_idx b g) = Some w" "bw_gen w = g"
    using 15(5) by (auto simp: warm_def)
  let ?s = "snd (egress_step k iv (E_set z cur q (b # bs) seen) s)"
  have "held g (set ks - set (b # bs)) s" using 15(1) by simp
  then have keep: "held g (set ks - set (b # bs)) ?s"
    by (rule calm_held [OF 15(2,4) _ 15(5) Diff_subset, rotated]) (use looks_up_valid [OF 15(3)] in blast)
  have "q = Set_test \<or> q = Set_or" using 15(4) b cur by (auto simp: in_words_def)
  then show ?case
  proof
    assume "q = Set_test"
    with 15(1) w cur keep show ?thesis by (simp add: map_same)
  next
    assume q: "q = Set_or"
    have "bloom_test_bit_gen (bloom_bits ?s) b g"
      using w cur q bloom_mask_nonzero [of b]
      by (simp add: bloom_test_bit_gen_iff sync_defs bit.conj_disj_distrib2 or_eq_0_iff)
    with keep have "held g (set ks - set bs) ?s" by (auto simp: held_def)
    then have "sets_bits g (set ks) (next_set z g bs seen) ?s" by (rule sets_bits_next_set)
    with w cur q show ?thesis by (simp add: sync_defs)
  qed
qed (auto simp: looks_up_def held_def Let_def split: option.split sum.split)

text \<open>The points before the generation is read, and those at which all bits are set.\<close>

fun before_filter :: "egress_pc \<Rightarrow> bool" where
  "before_filter (E_test z cur t matched bs all seen) \<longleftrightarrow> False"
| "before_filter (E_set z cur q bs seen) \<longleftrightarrow> False"
| "before_filter (E_reserve z r) \<longleftrightarrow> False"
| "before_filter (E_submit z r evt) \<longleftrightarrow> False"
| "before_filter E_done \<longleftrightarrow> False"
| "before_filter pc \<longleftrightarrow> True"

fun after_filter :: "egress_pc \<Rightarrow> bool" where
  "after_filter (E_reserve z r) \<longleftrightarrow> True"
| "after_filter (E_submit z r evt) \<longleftrightarrow> True"
| "after_filter E_done \<longleftrightarrow> True"
| "after_filter pc \<longleftrightarrow> False"

text \<open>A run of a packet whose bits are all set in generation \<open>g\<close> finds them, and reports \<open>ev\<close>.\<close>

fun finds_bits :: "u64 \<Rightarrow> stats_event \<Rightarrow> egress_pc \<Rightarrow> bpf_state \<Rightarrow> bool" where
  "finds_bits g ev (E_test z cur t matched bs all seen) s \<longleftrightarrow> seen \<and> (t = g \<or> t = g + 1 \<and> cur = g + 1)"
| "finds_bits g ev (E_set z cur q bs seen) s \<longleftrightarrow> seen"
| "finds_bits g ev (E_reserve z r) s \<longleftrightarrow> r"
| "finds_bits g ev (E_submit z r evt) s \<longleftrightarrow> r"
| "finds_bits g ev E_done s \<longleftrightarrow> ev \<in> set (stats_rb s)"
| "finds_bits g ev pc s \<longleftrightarrow> True"

lemma finds_bits_before: "before_filter pc \<Longrightarrow> finds_bits g ev pc s"
  by (cases pc) auto

lemma finds_bits_mono: "finds_bits g ev pc s \<Longrightarrow> set (stats_rb s) \<subseteq> set (stats_rb t) \<Longrightarrow> finds_bits g ev pc t"
  by (cases pc) auto

lemma finds_bits_next_set: "seen \<Longrightarrow> finds_bits g ev (next_set z cur bs seen) s"
  by (simp add: next_set_def)

lemma finds_bits_next_test: "seen \<Longrightarrow> cur = g \<or> cur = g + 1 \<Longrightarrow> finds_bits g ev (next_test z cur bs all seen) s"
  by (auto simp: next_test_def finds_bits_next_set)


lemma finds_bits_step:
  assumes "finds_bits g ev pc s" and "pc_ok k s0 iv pc" and "looks_up k s0 iv zk ks" and "pc_calm g B pc"
    and "held g (set ks) s" and "epoch_gen s = Some g \<or> epoch_gen s = Some (g + 1)"
    and "event_of iv zk True = [ev]"
  shows "finds_bits g ev (fst (egress_step k iv pc s)) (snd (egress_step k iv pc s))"
  using assms
proof (induction k iv pc s rule: egress_step.induct)
  case (10 k iv pc sg z s)
  with after_roll_looks_up [of k s0 iv zk ks pc sg z] show ?case
    by (auto simp: epoch_gen_def Let_def split: prod.split)
next
  case (11 k iv z bs s)
  then show ?case by (auto simp: epoch_gen_def finds_bits_next_test)
next
  case (12 k iv z cur t matched all seen s)
  then show ?case by (simp add: finds_bits_next_set)
next
  case (13 k iv z cur t matched b bs all seen s)
  then have "ks = all" by (auto dest: looks_up_fun)
  then have "b \<in> set ks" using 13(2) by auto
  then obtain w where w: "bloom_bits s (bloom_idx b g) = Some w" "bw_gen w = g" "bw_bits w AND bloom_mask b \<noteq> 0"
    using 13(5) by (auto simp: held_def bloom_test_bit_gen_iff)
  have cur: "cur = g \<or> cur = g + 1" using 13(4) by simp
  show ?case
  proof (cases "t = g")
    case True
    with w cur 13(1) show ?thesis by (simp add: finds_bits_next_test)
  next
    case False
    then have "t = g + 1" "cur = g + 1" using 13(1) by auto
    with 13(1) show ?thesis by (simp add: finds_bits_next_test test_missed_def split: option.split)
  qed
next
  case (17 k iv z r evt s)
  then have "zk = z" "iv_reserve iv = Some evt" by (auto simp: looks_up_def zoned_to_def)
  with 17(1,7) show ?case by (cases evt) (auto simp: event_of_def)
qed (auto simp: looks_up_def event_of_def Let_def finds_bits_next_set split: option.split sum.split prod.split)

subsection \<open>Detection under concurrency\<close>

definition calm :: "kernel \<Rightarrow> bpf_state \<Rightarrow> invocation list \<Rightarrow> u64 \<Rightarrow> u32 set \<Rightarrow> egress_pc list \<Rightarrow> bpf_state \<Rightarrow> bool" where
  "calm k s0 ivs g B pcs s \<longleftrightarrow>
     in_step k s0 ivs pcs s \<and> warm g B s \<and> (\<forall>b\<in>B. valid_bit b) \<and> (\<forall>i<length pcs. pc_calm g B (pcs ! i))"

lemma calm_step:
  assumes "calm k s0 ivs g B pcs s" and "i < length pcs" and "egress_step k (ivs ! i) (pcs ! i) s = (pc, t)"
    and "epoch_gen s = Some g \<or> epoch_gen s = Some (g + 1)"
  shows "calm k s0 ivs g B (pcs[i := pc]) t"
proof -
  have "pc_ok k s0 (ivs ! i) (pcs ! i)" "pc_calm g B (pcs ! i)" "warm g B s"
    using assms(1,2) by (auto simp: calm_def in_step_def)
  then have "warm g B t" "pc_calm g B pc"
    using calm_warm [of k s0 "ivs ! i" "pcs ! i" g B s] pc_calm_step [of g B "pcs ! i" s k "ivs ! i"] assms
    by (auto simp: calm_def)
  with assms in_step_step [of k s0 ivs pcs s i pc t] show ?thesis by (auto simp: calm_def nth_list_update)
qed

lemma calm_held_step:
  assumes "calm k s0 ivs g B pcs s" and "i < length pcs" and "egress_step k (ivs ! i) (pcs ! i) s = (pc, t)"
    and "C \<subseteq> B" and "held g C s"
  shows "held g C t"
  using assms calm_held [of k s0 "ivs ! i" "pcs ! i" g B s C] by (auto simp: calm_def in_step_def)

lemma sets_bits_phase:
  assumes "calm k s0 ivs g (set ks) pcs s" and "sets_bits g (set ks) (pcs ! i) s" and "i < length ivs"
    and "looks_up k s0 (ivs ! i) z ks"
    and "\<And>n. n \<le> length sched \<Longrightarrow> epoch_gen (snd (interleave (egress_step k) ivs (take n sched) (pcs, s))) = Some g"
    and "interleave (egress_step k) ivs sched (pcs, s) = (pcs', s')"
  shows "calm k s0 ivs g (set ks) pcs' s' \<and> sets_bits g (set ks) (pcs' ! i) s'"
proof -
  let ?I = "\<lambda>pcs s. calm k s0 ivs g (set ks) pcs s \<and> sets_bits g (set ks) (pcs ! i) s"
  have "?I (fst (interleave (egress_step k) ivs sched (pcs, s))) (snd (interleave (egress_step k) ivs sched (pcs, s)))"
  proof (rule interleave_invariant_while [where ok = "\<lambda>s. epoch_gen s = Some g"])
    fix pcs s j pc t
    assume I: "?I pcs s" and g: "epoch_gen s = Some g" "epoch_gen t = Some g" and j: "j < length pcs"
      and st: "egress_step k (ivs ! j) (pcs ! j) s = (pc, t)"
    have c: "calm k s0 ivs g (set ks) (pcs[j := pc]) t" using calm_step [OF _ j st] I g by blast
    have "sets_bits g (set ks) (pcs[j := pc] ! i) t"
    proof (cases "j = i")
      case True
      then have "pc_ok k s0 (ivs ! i) (pcs ! i)" "pc_calm g (set ks) (pcs ! i)" "warm g (set ks) s"
        using I j by (auto simp: calm_def in_step_def)
      with sets_bits_step [of g ks "pcs ! i" s k s0 "ivs ! i" z] I g st True assms(4) j show ?thesis by simp
    next
      case False
      have "sets_bits g (set ks) (pcs ! i) t"
        by (rule sets_bits_mono [of _ _ _ s]) (use I calm_held_step [OF _ j st] in auto)
      with False show ?thesis by simp
    qed
    with c show "?I (pcs[j := pc]) t" ..
  qed (use assms in auto)
  with assms(6) show ?thesis by simp
qed

lemma finds_bits_phase:
  assumes "calm k s0 ivs g (set ks) pcs s" and "held g (set ks) s" and "finds_bits g ev (pcs ! i) s" and "i < length ivs"
    and "looks_up k s0 (ivs ! i) z ks" and "event_of (ivs ! i) z True = [ev]"
    and "\<And>n. n \<le> length sched \<Longrightarrow>
      epoch_gen (snd (interleave (egress_step k) ivs (take n sched) (pcs, s))) \<in> {Some g, Some (g + 1)}"
    and "interleave (egress_step k) ivs sched (pcs, s) = (pcs', s')"
  shows "finds_bits g ev (pcs' ! i) s'"
proof -
  let ?I = "\<lambda>pcs s. calm k s0 ivs g (set ks) pcs s \<and> held g (set ks) s \<and> finds_bits g ev (pcs ! i) s"
  have "?I (fst (interleave (egress_step k) ivs sched (pcs, s))) (snd (interleave (egress_step k) ivs sched (pcs, s)))"
  proof (rule interleave_invariant_while [where ok = "\<lambda>s. epoch_gen s \<in> {Some g, Some (g + 1)}"])
    fix pcs s j pc t
    assume I: "?I pcs s" and g: "epoch_gen s \<in> {Some g, Some (g + 1)}" and j: "j < length pcs"
      and st: "egress_step k (ivs ! j) (pcs ! j) s = (pc, t)"
    have c: "calm k s0 ivs g (set ks) (pcs[j := pc]) t" using calm_step [OF _ j st] I g by blast
    have h: "held g (set ks) t" using calm_held_step [OF _ j st subset_refl] I by blast
    have "finds_bits g ev (pcs[j := pc] ! i) t"
    proof (cases "j = i")
      case True
      then have "pc_ok k s0 (ivs ! i) (pcs ! i)" "pc_calm g (set ks) (pcs ! i)"
        using I j by (auto simp: calm_def in_step_def)
      with finds_bits_step [of g ev "pcs ! i" s k s0 "ivs ! i" z ks "set ks"] I g st True assms(5,6) j show ?thesis by auto
    next
      case False
      with finds_bits_mono [of g ev "pcs ! i" s t] ring_grows [of s k "ivs ! j" "pcs ! j"] I st show ?thesis by simp
    qed
    with c h show "?I (pcs[j := pc]) t" by blast
  qed (use assms in auto)
  with assms(8) show ?thesis by simp
qed

text \<open>
  C5. Retransmissions are found under concurrency. Any number of packets are under way on any CPUs;
  the words of a segment's three bits carry the current generation \<open>g\<close>, which stays while the first
  copy goes through the filter, and rolls at most once until the second is done. If the second copy
  reads the generation after the first has left the filter, it is reported as a retransmission,
  wherever all the other runs are at any time.
\<close>

theorem parallel_retransmission_detected:
  assumes "i < length ivs" and "classify k s (iv_skb (ivs ! i)) = Zoned sg1 z1" and "segment_key k sg1 = Some key"
    and "j < length ivs" and "classify k s (iv_skb (ivs ! j)) = Zoned sg2 z2" and "segment_key k sg2 = Some key"
    and "\<forall>b\<in>set (key_bits key). \<exists>w. bloom_bits s (bloom_idx b g) = Some w \<and> bw_gen w = g"
    and "run_parallel k ivs xs s = (pcs1, s1)" and "after_filter (pcs1 ! i)" and "before_filter (pcs1 ! j)"
    and "\<forall>n\<le>length xs. epoch_gen (snd (run_parallel k ivs (take n xs) s)) = Some g"
    and "run_parallel k ivs (xs @ ys) s = (pcs2, s2)" and "pcs2 ! j = E_done" and "iv_reserve (ivs ! j) = Some slot"
    and "\<forall>n\<le>length ys. epoch_gen (snd (run_parallel k ivs (xs @ take n ys) s)) \<in> {Some g, Some (g + 1)}"
  shows "\<lparr>ev_ifindex = sk_ifindex (iv_skb (ivs ! j)), ev_dst_zone_id = z2, ev_is_retrans = 1, ev_pad = ev_pad slot\<rparr>
     \<in> set (stats_rb s2)"
proof -
  let ?ks = "key_bits key" and ?ev = "\<lparr>ev_ifindex = sk_ifindex (iv_skb (ivs ! j)), ev_dst_zone_id = z2,
    ev_is_retrans = 1, ev_pad = ev_pad slot\<rparr>"
  have up: "looks_up k s (ivs ! i) z1 ?ks" "looks_up k s (ivs ! j) z2 ?ks"
    unfolding looks_up_def using assms(2,3,5,6) by blast+
  have "calm k s ivs g (set ?ks) (all_start ivs) s"
    using assms(7) in_step_start looks_up_valid [OF up(1)] by (auto simp: calm_def warm_def)
  moreover have "sets_bits g (set ?ks) (all_start ivs ! i) s" using assms(1) by simp
  ultimately have one: "calm k s ivs g (set ?ks) pcs1 s1" "sets_bits g (set ?ks) (pcs1 ! i) s1"
    using sets_bits_phase [of k s ivs g ?ks "all_start ivs" s i z1 xs pcs1 s1] assms(1,8,11) up(1)
    by (auto simp: run_parallel_def)
  have "held g (set ?ks) s1" using one(2) assms(9) by (cases "pcs1 ! i") auto
  moreover have "event_of (ivs ! j) z2 True = [?ev]" using assms(14) by (simp add: event_of_def)
  ultimately have "finds_bits g ?ev (pcs2 ! j) s2"
    by (rule finds_bits_phase [OF one(1) _ finds_bits_before [OF assms(10)] assms(4) up(2)])
      (use assms(8,12,15) in \<open>simp_all add: run_parallel_append\<close>)
  then show ?thesis by (simp add: assms(13))
qed


text \<open>While no run finds the epoch over, its record does not change.\<close>

fun rolls_not :: "egress_pc \<Rightarrow> bool" where
  "rolls_not (E_roll pc sg z) \<longleftrightarrow> pc = Roll_later \<or> (\<exists>x. pc = Roll_elapsed x)"
| "rolls_not pc \<longleftrightarrow> True"

lemma rolls_not_next:
  "rolls_not (next_set z cur bs seen)" "rolls_not (next_test z cur bs all seen)"
  "rolls_not (test_missed z cur g bs all seen)" "rolls_not (after_roll k sg z)"
  by (simp_all add: next_set_def next_test_def test_missed_def after_roll_def split: option.split)

lemma rolls_not_step:
  assumes "rolls_not pc" and "bloom_epoch s 0 = Some e" and "\<not> roll_due (iv_now iv) (ep_start_ns e)"
    and "iv_now iv > ep_start_ns e"
  shows "rolls_not (fst (egress_step k iv pc s)) \<and> bloom_epoch (snd (egress_step k iv pc s)) = bloom_epoch s"
  using assms
proof (induction k iv pc s rule: egress_step.induct)
  case (10 k iv pc sg z s)
  then show ?case by (cases pc) (auto simp: roll_due_def rolls_not_next)
qed (auto simp: rolls_not_next Let_def split: option.split prod.split sum.split drop_reason.split)

lemma epoch_constant:
  assumes "bloom_epoch s 0 = Some e"
    and "\<forall>iv\<in>set ivs. \<not> roll_due (iv_now iv) (ep_start_ns e) \<and> iv_now iv > ep_start_ns e"
  shows "epoch_gen (snd (run_parallel k ivs sched s)) = Some (ep_gen e)"
proof -
  let ?I = "\<lambda>pcs t. length pcs = length ivs \<and> (\<forall>i<length pcs. rolls_not (pcs ! i)) \<and> bloom_epoch t = bloom_epoch s"
  have "?I (fst (interleave (egress_step k) ivs sched (all_start ivs, s))) (snd (interleave (egress_step k) ivs sched (all_start ivs, s)))"
  proof (rule interleave_invariant)
    fix pcs t i pc u
    assume I: "?I pcs t" and i: "i < length pcs" and st: "egress_step k (ivs ! i) (pcs ! i) t = (pc, u)"
    have "ivs ! i \<in> set ivs" using I i by simp
    then have "rolls_not pc \<and> bloom_epoch u = bloom_epoch t"
      using rolls_not_step [of "pcs ! i" t e "ivs ! i" k] I i st assms by auto
    with I i show "?I (pcs[i := pc]) u" by (auto simp: nth_list_update)
  qed simp
  with assms(1) show ?thesis by (simp add: run_parallel_def epoch_gen_def)
qed

definition sample_pair :: "invocation list" where
  "sample_pair = [sample_invocation 48 16 0x18 5, sample_invocation 48 16 0x18 1000]"

lemma sample_pair_simps [simp]:
  "length sample_pair = 2" "classify (ref_kernel Little) sample_state (iv_skb (sample_pair ! 0)) = Zoned (sample_segment 16 0x18 8) 1"
  "classify (ref_kernel Little) sample_state (iv_skb (sample_pair ! Suc 0)) = Zoned (sample_segment 16 0x18 8) 1"
  "iv_reserve (sample_pair ! Suc 0) = Some \<lparr>ev_ifindex = 0, ev_dst_zone_id = 0, ev_is_retrans = 0, ev_pad = 7\<rparr>"
  "sk_ifindex (iv_skb (sample_pair ! Suc 0)) = 2"
  by (simp_all add: sample_pair_def sample_data sample_invocation_def) (simp add: sample_skb_def)

lemma sample_pair_epoch: "epoch_gen (snd (run_parallel k sample_pair sched sample_state)) = Some 0"
proof -
  let ?e = "\<lparr>ep_gen = 0, ep_start_ns = 0\<rparr> :: bloom_epoch_state"
  have "bloom_epoch sample_state 0 = Some ?e"
    by (simp add: sample_state_def bpf_init_def bloom_epoch_init_def array_map_def)
  from epoch_constant [OF this, of sample_pair k sched] show ?thesis
    by (simp add: sample_pair_def sample_invocation_def roll_due_def BLOOM_EPOCH_NS_def)
qed

lemma sample_state_warm: "\<forall>b\<in>set (key_bits key). \<exists>w. bloom_bits sample_state (bloom_idx b 0) = Some w \<and> bw_gen w = 0"
proof
  fix b assume "b \<in> set (key_bits key)"
  then obtain w where "bloom_bits_init (bloom_idx b 0) = Some w"
    using bloom_idx_in_dom [OF bloom_bits_init_wf, of b 0] key_bits_valid [of key] by blast
  then show "\<exists>w. bloom_bits sample_state (bloom_idx b 0) = Some w \<and> bw_gen w = 0"
    by (auto simp: sample_state_def bpf_init_def bloom_bits_init_def array_map_def split: if_splits)
qed

theorem parallel_retransmission_detected_witness:
  "\<exists>s2. run_parallel (ref_kernel Little) sample_pair (one_by_one (Suc (Suc 0))) sample_state = ([E_done, E_done], s2) \<and>
     \<lparr>ev_ifindex = 2, ev_dst_zone_id = 1, ev_is_retrans = 1, ev_pad = 7\<rparr> \<in> set (stats_rb s2)"
proof -
  let ?k = "ref_kernel Little" and ?xs = "one_by_one (Suc 0)" and ?ys = "replicate MAX_STEPS (Suc 0)"
  have sched: "one_by_one (Suc (Suc 0)) = ?xs @ ?ys" by (simp add: one_by_one_def)
  obtain s1 where one: "run_parallel ?k sample_pair ?xs sample_state = ([E_done, E_seen], s1)"
    using one_by_one_prefix [of "Suc 0" sample_pair ?k sample_state] by simp
  obtain s2 where two: "run_parallel ?k sample_pair (?xs @ ?ys) sample_state = ([E_done, E_done], s2)"
    using one_by_one_prefix [of "Suc (Suc 0)" sample_pair ?k sample_state] by (simp add: sched [symmetric] numeral_2_eq_2)
  have "\<lparr>ev_ifindex = sk_ifindex (iv_skb (sample_pair ! Suc 0)), ev_dst_zone_id = 1, ev_is_retrans = 1,
      ev_pad = ev_pad \<lparr>ev_ifindex = 0, ev_dst_zone_id = 0, ev_is_retrans = 0, ev_pad = 7\<rparr>\<rparr> \<in> set (stats_rb s2)"
    by (rule parallel_retransmission_detected [of 0 sample_pair ?k sample_state _ _ _ "Suc 0",
          OF _ _ segment_key_sample _ _ segment_key_sample sample_state_warm one _ _ _ two])
      (simp_all only: sample_pair_simps sample_pair_epoch, simp_all)
  with two show ?thesis by (simp add: sched)
qed

end
