(* ===== verification/Race_Reports.thy ===== *)
theory Race_Reports
  imports Egress_Race
begin

text \<open>
  What a report implies when the runs of the TC program interleave: every filter bit of a segment that
  is reported as a retransmission was set by another packet. It is a statement about the raw bits
  of the words, whatever generation a word carries at the time, as a word that is being taken
  over shows the old bits under the new generation for a moment.
\<close>

subsection \<open>Where the raw bits come from\<close>

definition raw_from :: "u32 set \<Rightarrow> bloom_bits_map \<Rightarrow> bool" where
  "raw_from B m \<longleftrightarrow>
     (\<forall>i w n. m i = Some w \<longrightarrow> bit (bw_bits w) n \<longrightarrow>
        (\<exists>c\<in>B. valid_bit c \<and> bit (bloom_mask c) n \<and> (\<exists>g. i = bloom_idx c g)))"

lemma same_half:
  assumes "valid_bit b" and "valid_bit c" and "bloom_idx b g = bloom_idx c h"
  shows "bloom_idx b g = bloom_idx c g"
proof -
  have "unat b div 64 < BLOOM_WORDS" "unat c div 64 < BLOOM_WORDS" using assms(1,2) by (auto simp: valid_bit_def BLOOM_WORDS_def)
  moreover have "unat g mod 2 * BLOOM_WORDS + unat b div 64 = unat h mod 2 * BLOOM_WORDS + unat c div 64"
    using assms unat_bloom_idx by metis
  ultimately have "unat b div 64 = unat c div 64" by (metis half_unique add_left_cancel)
  with assms(1,2) show ?thesis by (simp add: word_unat_eq_iff unat_bloom_idx)
qed

lemma raw_hit:
  assumes "raw_from B m" and "valid_bit b" and "m (bloom_idx b g) = Some w" and "bw_bits w AND bloom_mask b \<noteq> 0"
  shows "b \<in> B"
proof -
  obtain n where n: "bit (bw_bits w) n" "bit (bloom_mask b) n"
    using assms(4) by (auto simp: bit_eq_iff bit_and_iff)
  then obtain c h where c: "c \<in> B" "valid_bit c" "bit (bloom_mask c) n" "bloom_idx b g = bloom_idx c h"
    using assms(1,3) unfolding raw_from_def by metis
  have "bit (bloom_mask c AND bloom_mask b) n" using c(3) n(2) by (simp add: bit_and_iff)
  then have "bloom_mask c AND bloom_mask b \<noteq> 0" by auto
  with same_word_same_bit [OF assms(2) c(2) same_half [OF assms(2) c(2,4)]] c(1) show ?thesis by simp
qed

lemma raw_from_init: "raw_from B bloom_bits_init"
  by (auto simp: raw_from_def bloom_bits_init_def array_map_def split: if_splits)

lemma raw_from_update:
  assumes "raw_from B m" and "\<And>n. bit (bw_bits w') n \<Longrightarrow>
    (\<exists>w. m i = Some w \<and> bit (bw_bits w) n) \<or> (\<exists>c\<in>B. valid_bit c \<and> bit (bloom_mask c) n \<and> (\<exists>g. i = bloom_idx c g))"
  shows "raw_from B (m(i \<mapsto> w'))"
  using assms unfolding raw_from_def by (auto split: if_splits) blast

lemma raw_from_set_access:
  assumes "raw_from B m" and "m (bloom_idx b g) = Some w" and "b \<in> B" and "valid_bit b"
    and "set_access q g (bloom_mask b) w = (q', w')"
  shows "raw_from B (m(bloom_idx b g \<mapsto> w'))"
proof (rule raw_from_update [OF assms(1)])
  fix n assume "bit (bw_bits w') n"
  then have "bit (bw_bits w) n \<or> bit (bloom_mask b) n"
    using assms(5) by (cases q) (auto simp: sync_defs bit_or_iff Let_def split: prod.splits if_splits)
  with assms show "(\<exists>w. m (bloom_idx b g) = Some w \<and> bit (bw_bits w) n) \<or>
      (\<exists>c\<in>B. valid_bit c \<and> bit (bloom_mask c) n \<and> (\<exists>h. bloom_idx b g = bloom_idx c h))" by blast
qed

lemma looks_up_bits: "looks_up k s iv z bs \<Longrightarrow> packet_bits k s iv = set bs"
  by (auto simp: looks_up_def packet_bits_def simp del: key_bits.simps)

lemma raw_from_step:
  assumes "raw_from B (bloom_bits s)" and "pc_ok k s0 iv pc" and "packet_bits k s0 iv \<subseteq> B"
  shows "raw_from B (bloom_bits (snd (egress_step k iv pc s)))"
proof (cases "\<exists>z cur q b bs seen. pc = E_set z cur q (b # bs) seen")
  case False
  then have "bloom_bits (snd (egress_step k iv pc s)) = bloom_bits s" by (intro bits_frame) blast
  with assms(1) show ?thesis by simp
next
  case True
  then obtain z cur q b bs seen where pc: "pc = E_set z cur q (b # bs) seen" by blast
  have "valid_bit b" using pc_ok_set_valid assms(2) pc by metis
  moreover have "b \<in> B"
  proof -
    obtain pre where "looks_up k s0 iv z (pre @ b # bs)" using assms(2) pc by auto
    from looks_up_bits [OF this] assms(3) show ?thesis by simp
  qed
  ultimately show ?thesis
    using assms(1) raw_from_set_access [of B "bloom_bits s" b cur] pc by (auto simp: Let_def split: option.split prod.split)
qed

subsection \<open>What a run has found\<close>

definition sourced :: "kernel \<Rightarrow> bpf_state \<Rightarrow> u32 set \<Rightarrow> invocation \<Rightarrow> bool" where
  "sourced k s B iv \<longleftrightarrow> (\<exists>z bs. looks_up k s iv z bs \<and> set bs \<subseteq> B)"

fun found_from :: "kernel \<Rightarrow> bpf_state \<Rightarrow> u32 set \<Rightarrow> invocation \<Rightarrow> egress_pc \<Rightarrow> bool" where
  "found_from k s B iv (E_test z cur g matched bs all seen) \<longleftrightarrow> (seen \<longrightarrow> (\<forall>pre. all = pre @ bs \<longrightarrow> set pre \<subseteq> B))"
| "found_from k s B iv (E_set z cur q bs seen) \<longleftrightarrow> (seen \<longrightarrow> sourced k s B iv)"
| "found_from k s B iv (E_reserve z r) \<longleftrightarrow> (r \<longrightarrow> sourced k s B iv)"
| "found_from k s B iv (E_submit z r evt) \<longleftrightarrow> (r \<longrightarrow> sourced k s B iv)"
| "found_from k s B iv pc \<longleftrightarrow> True"

fun before_sets :: "egress_pc \<Rightarrow> bool" where
  "before_sets (E_set z cur q bs seen) \<longleftrightarrow> False"
| "before_sets (E_reserve z r) \<longleftrightarrow> False"
| "before_sets (E_submit z r evt) \<longleftrightarrow> False"
| "before_sets E_done \<longleftrightarrow> False"
| "before_sets pc \<longleftrightarrow> True"

lemma found_next_set:
  "looks_up k s iv z all \<Longrightarrow> (seen \<Longrightarrow> set all \<subseteq> B) \<Longrightarrow> found_from k s B iv (next_set z cur all seen)"
  by (auto simp: next_set_def sourced_def)

lemma found_next_test:
  "looks_up k s iv z all \<Longrightarrow> all = pre @ bs \<Longrightarrow> (seen \<Longrightarrow> set pre \<subseteq> B) \<Longrightarrow> found_from k s B iv (next_test z cur bs all seen)"
  by (auto simp: next_test_def intro!: found_next_set)

lemma found_step:
  assumes "found_from k s0 B iv pc" and "pc_ok k s0 iv pc" and "before_sets pc \<Longrightarrow> raw_from B (bloom_bits s)"
  shows "found_from k s0 B iv (fst (egress_step k iv pc s))"
  using assms
proof (induction k iv pc s rule: egress_step.induct)
  case (10 k iv pc sg z s)
  then show ?case by (auto simp: after_roll_def Let_def split: option.split prod.split)
next
  case (11 k iv z bs s)
  then show ?case by (auto simp: found_next_test split: option.split)
next
  case (12 k iv z cur g matched all seen s)
  then show ?case by (auto simp: found_next_set)
next
  case (13 k iv z cur g matched b bs all seen s)
  then obtain pre where up: "looks_up k s0 iv z all" and all: "all = pre @ b # bs" by auto
  have pre: "seen \<Longrightarrow> set pre \<subseteq> B" using 13(1) all by auto
  have raw: "raw_from B (bloom_bits s)" and b: "valid_bit b" using 13(3) looks_up_valid [OF up] all by auto
  have hit: "found_from k s0 B iv (next_test z cur bs all seen)"
    if "bloom_bits s (bloom_idx b g) = Some w" "bw_bits w AND bloom_mask b \<noteq> 0" for w
    by (rule found_next_test [OF up, of "pre @ [b]"]) (use raw_hit [OF raw b that] pre all in auto)
  have "found_from k s0 B iv (next_test z cur bs all False)"
    by (rule found_next_test [OF up, of "pre @ [b]"]) (simp_all add: all)
  then have "found_from k s0 B iv (test_missed z cur g (b # bs) all seen)"
    using 13(1) by (simp add: test_missed_def)
  with hit 13(1) show ?case by (auto split: option.split)
next
  case (15 k iv z cur pc b bs seen s)
  then show ?case by (auto simp: next_set_def Let_def split: option.split prod.split)
qed (auto simp: Let_def split: option.split sum.split prod.split)

lemma before_sets_back: "before_sets (fst (egress_step k iv pc s)) \<Longrightarrow> before_sets pc"
  by (induction k iv pc s rule: egress_step.induct)
    (auto simp: next_set_def Let_def split: option.splits prod.splits if_splits)

lemma before_sets_bits: "before_sets pc \<Longrightarrow> bloom_bits (snd (egress_step k iv pc s)) = bloom_bits s"
  by (rule bits_frame) auto


subsection \<open>Reports under any schedule\<close>

definition other_bits :: "kernel \<Rightarrow> bpf_state \<Rightarrow> invocation list \<Rightarrow> nat \<Rightarrow> u32 set" where
  "other_bits k s ivs i = (\<Union>j\<in>{..<length ivs} - {i}. packet_bits k s (ivs ! j))"

definition report_ok :: "kernel \<Rightarrow> bpf_state \<Rightarrow> invocation list \<Rightarrow> stats_event \<Rightarrow> bool" where
  "report_ok k s ivs ev \<longleftrightarrow>
     (\<exists>i<length ivs. \<exists>z. sourced k s (other_bits k s ivs i) (ivs ! i) \<and> zoned_to k s (ivs ! i) z \<and> event_of (ivs ! i) z True = [ev])"

definition reports_ok :: "kernel \<Rightarrow> bpf_state \<Rightarrow> invocation list \<Rightarrow> egress_pc list \<Rightarrow> bpf_state \<Rightarrow> bool" where
  "reports_ok k s0 ivs pcs s \<longleftrightarrow>
     in_step k s0 ivs pcs s \<and>
     (\<forall>i<length pcs. (before_sets (pcs ! i) \<longrightarrow> raw_from (other_bits k s0 ivs i) (bloom_bits s)) \<and>
        found_from k s0 (other_bits k s0 ivs i) (ivs ! i) (pcs ! i)) \<and>
     (\<forall>ev\<in>set (stats_rb s). ev_is_retrans ev = 1 \<longrightarrow> report_ok k s0 ivs ev)"

lemma ring_step:
  assumes "ev \<in> set (stats_rb (snd (egress_step k iv pc s)))" and "ev_is_retrans ev = 1" and "ev \<notin> set (stats_rb s)"
    and "pc_ok k s0 iv pc" and "found_from k s0 B iv pc"
  shows "\<exists>z. sourced k s0 B iv \<and> zoned_to k s0 iv z \<and> event_of iv z True = [ev]"
  using assms
proof (induction k iv pc s rule: egress_step.induct)
  case (17 k iv z r evt s)
  then show ?case by (cases evt) (auto simp: event_of_def split: if_splits)
qed (auto simp: Let_def split: option.splits prod.splits sum.splits drop_reason.splits if_splits)

lemma reports_ok_step:
  assumes ok: "reports_ok k s0 ivs pcs s" and j: "j < length pcs" and st: "egress_step k (ivs ! j) (pcs ! j) s = (pc, t)"
  shows "reports_ok k s0 ivs (pcs[j := pc]) t"
proof -
  let ?B = "other_bits k s0 ivs"
  have len: "length pcs = length ivs" and pcj: "pc_ok k s0 (ivs ! j) (pcs ! j)" using ok j by (auto simp: reports_ok_def in_step_def)
  have foundj: "found_from k s0 (?B j) (ivs ! j) (pcs ! j)" using ok j by (simp add: reports_ok_def)
  have "in_step k s0 ivs (pcs[j := pc]) t" using ok in_step_step [OF _ j st] by (simp add: reports_ok_def)
  moreover have "(before_sets (pcs[j := pc] ! i) \<longrightarrow> raw_from (?B i) (bloom_bits t)) \<and>
      found_from k s0 (?B i) (ivs ! i) (pcs[j := pc] ! i)" if i: "i < length pcs" for i
  proof (cases "i = j")
    case True
    have "before_sets (pcs ! j) \<Longrightarrow> raw_from (?B j) (bloom_bits s)" using ok j by (simp add: reports_ok_def)
    with found_step [OF foundj pcj, of s] before_sets_back [of k "ivs ! j" "pcs ! j" s]
      before_sets_bits [of "pcs ! j" k "ivs ! j" s]
    show ?thesis using True j st by auto
  next
    case False
    then have "packet_bits k s0 (ivs ! j) \<subseteq> ?B i" using j len by (auto simp: other_bits_def)
    with raw_from_step [OF _ pcj] st have "raw_from (?B i) (bloom_bits s) \<Longrightarrow> raw_from (?B i) (bloom_bits t)" by fastforce
    with ok i False show ?thesis by (simp add: reports_ok_def)
  qed
  moreover have "report_ok k s0 ivs ev" if "ev \<in> set (stats_rb t)" "ev_is_retrans ev = 1" for ev
  proof (cases "ev \<in> set (stats_rb s)")
    case True
    with ok that show ?thesis by (simp add: reports_ok_def)
  next
    case False
    have "ev \<in> set (stats_rb (snd (egress_step k (ivs ! j) (pcs ! j) s)))" using that(1) st by simp
    from ring_step [OF this that(2) False pcj foundj] j len show ?thesis unfolding report_ok_def by metis
  qed
  ultimately show ?thesis by (simp add: reports_ok_def)
qed

text \<open>
  C7. No false report out of nothing, under any schedule: starting from the loaded maps, an event with
  the retransmission flag belongs to a packet that was looked up in the filter, and each of the
  three bits of that packet is a bit of some other packet of the run. Neither the races on the
  words of the filter nor those on the epoch can make up a bit.
\<close>

theorem parallel_flag_needs_other_packets:
  assumes "run_parallel k ivs sched (bpf_init dst src) = (pcs, s)" and "ev \<in> set (stats_rb s)" and "ev_is_retrans ev = 1"
  shows "\<exists>i<length ivs. \<exists>sg z key. classify k (bpf_init dst src) (iv_skb (ivs ! i)) = Zoned sg z \<and>
     segment_key k sg = Some key \<and> event_of (ivs ! i) z True = [ev] \<and>
     (\<forall>b\<in>set (key_bits key). \<exists>j<length ivs. j \<noteq> i \<and> b \<in> packet_bits k (bpf_init dst src) (ivs ! j))"
proof -
  let ?s = "bpf_init dst src"
  have "raw_from B (bloom_bits ?s)" for B by (simp add: bpf_init_def raw_from_init)
  then have "reports_ok k ?s ivs (all_start ivs) ?s"
    using in_step_start by (simp add: reports_ok_def) (simp add: bpf_init_def)
  then have "reports_ok k ?s ivs (fst (run_parallel k ivs sched ?s)) (snd (run_parallel k ivs sched ?s))"
    unfolding run_parallel_def by (rule interleave_invariant) (rule reports_ok_step)
  then have "reports_ok k ?s ivs pcs s" by (simp add: assms(1))
  with assms(2,3) obtain i z where i: "i < length ivs" "sourced k ?s (other_bits k ?s ivs i) (ivs ! i)"
    "zoned_to k ?s (ivs ! i) z" "event_of (ivs ! i) z True = [ev]"
    by (auto simp: reports_ok_def report_ok_def)
  then obtain sg key where c: "classify k ?s (iv_skb (ivs ! i)) = Zoned sg z" "segment_key k sg = Some key"
    "set (key_bits key) \<subseteq> other_bits k ?s ivs i"
    by (auto simp: sourced_def looks_up_def zoned_to_def simp del: key_bits.simps)
  then have "\<forall>b\<in>set (key_bits key). \<exists>j<length ivs. j \<noteq> i \<and> b \<in> packet_bits k ?s (ivs ! j)"
    by (auto simp: other_bits_def simp del: key_bits.simps)
  with i c show ?thesis by blast
qed


text \<open>The same segment on two CPUs: the event with the flag belongs to one of the two runs.\<close>

theorem parallel_flag_needs_other_packets_witness:
  "\<exists>t ev. run_parallel (ref_kernel Little) [sample_invocation 48 16 0x18 5, sample_invocation 48 16 0x18 9]
       (one_by_one 2) sample_state = ([E_done, E_done], t) \<and> ev \<in> set (stats_rb t) \<and> ev_is_retrans ev = 1 \<and>
     (\<exists>i<2. \<exists>sg z. classify (ref_kernel Little) sample_state
       (iv_skb ([sample_invocation 48 16 0x18 5, sample_invocation 48 16 0x18 9] ! i)) = Zoned sg z)"
proof -
  let ?k = "ref_kernel Little" and ?iv = "\<lambda>t. sample_invocation 48 16 0x18 t"
  let ?ev = "\<lparr>ev_ifindex = sk_ifindex (iv_skb (?iv 9)), ev_dst_zone_id = 1, ev_is_retrans = 1,
    ev_pad = ev_pad \<lparr>ev_ifindex = 0, ev_dst_zone_id = 0, ev_is_retrans = 0, ev_pad = 7\<rparr>\<rparr>"
  obtain s1 where s1: "run_egress ?k [?iv 5] sample_state = Some s1" using run_egress_total by blast
  have "\<exists>s2. path_egress ?k (?iv 9) s1 = Some (TC_ACT_UNSPEC, s2) \<and> stats_rb s2 = stats_rb s1 @ [?ev]"
    by (rule retransmission_flagged [OF sample_state_wf _ segment_key_sample s1 _ _ segment_key_sample])
      (simp_all add: sample_invocation_def sample_data in_window_def BLOOM_EPOCH_NS_def)
  then obtain s2 where s2: "path_egress ?k (?iv 9) s1 = Some (TC_ACT_UNSPEC, s2)" and ev: "?ev \<in> set (stats_rb s2)" by auto
  from s1 s2 have "run_egress ?k [?iv 5, ?iv 9] sample_state = Some s2" by (auto split: option.splits)
  then have run: "run_parallel ?k [?iv 5, ?iv 9] (one_by_one 2) sample_state = ([E_done, E_done], s2)"
    using one_by_one_prefix [of 2 "[?iv 5, ?iv 9]" ?k sample_state] by (simp add: run_egress_eq numeral_2_eq_2)
  have "\<exists>i<length [?iv 5, ?iv 9]. \<exists>sg z. classify ?k sample_state (iv_skb ([?iv 5, ?iv 9] ! i)) = Zoned sg z"
    using parallel_flag_needs_other_packets [OF run [unfolded sample_state_def] ev] by (auto simp: sample_state_def simp del: length_Cons)
  with run ev show ?thesis by (intro exI [of _ s2] exI [of _ ?ev]) (simp add: numeral_2_eq_2)
qed

subsection \<open>Old bits under a new generation\<close>

text \<open>
  A word is taken over by first swapping its generation and then clearing its bits. In between it shows
  the bits of two epochs ago as bits of the current one: while one run stands there, another
  run passes the test of a bit that is not set in the current generation.
\<close>

lemma stale_bit_passes:
  assumes "bloom_bits s (bloom_idx b g) = Some w" and "bw_gen w \<noteq> g" and "bw_bits w AND bloom_mask b \<noteq> 0"
    and "bloom_idx c g = bloom_idx b g"
  shows "\<exists>t. interleave (egress_step k) [iv0, iv1] [0, 0, 0, 1, 1]
       ([E_set z0 g Set_test (c # cs) seen0, E_test z1 g g False (b # bs) all seen], s) =
       ([E_set z0 g Set_clear (c # cs) seen0, next_test z1 g bs all seen], t) \<and> bloom_bits t (bloom_idx b g) = Some (w\<lparr>bw_gen := g\<rparr>)"
  using assms by (simp add: sync_defs)

text \<open>
  A race that reports new data: while one run takes a word over from an old generation, between the
  swap of the generation and the clearing, another run that tests a bit of the word goes on as if
  the bit were set in the current generation, though it was only set two epochs ago or more
  and the test on its own fails before and after.
\<close>

theorem takeover_shows_stale_bits:
  assumes "bloom_bits s (bloom_idx b g) = Some w" and "bw_gen w \<noteq> g" and "bw_bits w AND bloom_mask b \<noteq> 0"
    and "bloom_idx c g = bloom_idx b g" and "bloom_mask c AND bloom_mask b = 0"
  shows "\<not> bloom_test_bit_gen (bloom_bits s) b g \<and>
     (\<exists>t. interleave (egress_step k) [iv0, iv1] [0, 0, 0, 1, 1]
       ([E_set z0 g Set_test (c # cs) seen0, E_test z1 g g False (b # bs) all seen], s) =
       ([E_set z0 g Set_clear (c # cs) seen0, next_test z1 g bs all seen], t) \<and>
       \<not> bloom_test_bit_gen (bloom_bits (snd (interleave (egress_step k) [iv0, iv1] [0, 0]
           ([E_set z0 g Set_clear (c # cs) seen0, next_test z1 g bs all seen], t)))) b g)"
proof -
  obtain t where t: "interleave (egress_step k) [iv0, iv1] [0, 0, 0, 1, 1]
       ([E_set z0 g Set_test (c # cs) seen0, E_test z1 g g False (b # bs) all seen], s) =
       ([E_set z0 g Set_clear (c # cs) seen0, next_test z1 g bs all seen], t)"
    and w: "bloom_bits t (bloom_idx b g) = Some (w\<lparr>bw_gen := g\<rparr>)"
    using stale_bit_passes [OF assms(1-4)] by blast
  have "\<not> bloom_test_bit_gen (bloom_bits s) b g" using assms(1,2) by (simp add: bloom_test_bit_gen_iff)
  moreover have "\<not> bloom_test_bit_gen (bloom_bits (snd (interleave (egress_step k) [iv0, iv1] [0, 0]
           ([E_set z0 g Set_clear (c # cs) seen0, next_test z1 g bs all seen], t)))) b g"
    using w assms(4,5) by (simp add: bloom_test_bit_gen_iff sync_defs)
  ultimately show ?thesis using t by blast
qed


theorem takeover_shows_stale_bits_witness:
  "\<exists>s. \<not> bloom_test_bit_gen (bloom_bits s) 0 2 \<and>
     (\<exists>t. interleave (egress_step (ref_kernel Little)) [sample_invocation 48 16 0x18 5, sample_invocation 48 16 0x18 9] [0, 0, 0, 1, 1]
       ([E_set 1 2 Set_test [1] False, E_test 1 2 2 False [0] [0] True], s) =
       ([E_set 1 2 Set_clear [1] False, next_test 1 2 [] [0] True], t))"
proof -
  let ?s = "sample_state\<lparr>bloom_bits := [bloom_idx 0 2 \<mapsto> \<lparr>bw_gen = 0, bw_bits = 1\<rparr>]\<rparr>"
  have m: "bloom_idx 1 2 = bloom_idx 0 2" "bloom_mask 0 = 1" "bloom_mask 1 = 2"
    by (simp_all add: bloom_idx_def bloom_mask_def)
  have "bloom_bits ?s (bloom_idx 0 2) = Some \<lparr>bw_gen = 0, bw_bits = 1\<rparr>" by simp
  from takeover_shows_stale_bits [OF this, of 1 "ref_kernel Little" "sample_invocation 48 16 0x18 5" "sample_invocation 48 16 0x18 9"
      1 "[]" False 1 "[]" "[0]" True] m
  show ?thesis by (intro exI [of _ ?s]) auto
qed

end
