(* ===== verification/Spec2Isabelle.thy ===== *)
theory Spec2Isabelle
  imports Parsing Accumulator_Race Tracing Rounding Packet_Counts Startup Map_Sizes Ideal_Filter Race_Counts Race_Detection Race_Reports
begin

text \<open>
  Verification of the eBPF packet-loss exporter: a TC egress program in C
  (\<^verbatim>\<open>src/bpf/packet_loss.bpf.c\<close> with its headers under \<^verbatim>\<open>src/bpf/headers/bpf\<close>) counts outgoing TCP
  segments and recognises retransmissions, and a Go program loads it, fills its maps from a
  configuration, reads its events and exports a loss percentage per remote zone.

  \<^bold>\<open>How the parts interact.\<close> The configuration names the zones and their subnets. It is validated, the
  zones are numbered, and the subnets become two lists of prefixes. The loader stores them in the
  source and the destination map of the TC program, which is then attached to the interfaces. For
  every packet the program parses the headers, looks up both zones, asks a Bloom filter with two
  generations whether it has seen the segment, and writes an event to the ring buffer. The reader
  counts the events per zone; a poll loop takes the counts, updates a window and a moving average per
  zone, sets the gauges and logs a summary.

  \<^bold>\<open>Theories.\<close>
  \<^item> \<open>Prelude\<close>: words, bytes in memory, Go string functions, shared lemmas and collections.
  \<^item> \<open>Endian\<close> (\<^verbatim>\<open>bpf_endian.h\<close>): the conversions, constant and run-time, on both byte orders, and
    their round trips.
  \<^item> \<open>Bpf_Abi\<close> (\<^verbatim>\<open>common.h\<close>): enumerations, packet headers as C structures with offsets and sizes,
    the map helpers and atomic operations.
  \<^item> \<open>Bloom\<close> (\<^verbatim>\<open>bloom_hash\<close> to \<^verbatim>\<open>bloom_test_and_set\<close>): the duplicate filter on its 64-bit words;
    the locale \<open>generation_filter\<close> is its contract, interpreted on these operations.
  \<^item> \<open>Egress\<close> (\<^verbatim>\<open>parse_ipv4\<close>, \<^verbatim>\<open>path_egress\<close>, the maps): the whole handler as a function of the
    packet, the CPU, the clock and the maps; it never reads outside the packet.
    \<open>Parsing\<close> says which bytes it takes for the headers, \<open>Detection\<close> that retransmissions are reported
    and what a report implies. \<open>Packet_Counts\<close>: what one run changes in the counters, the filter and the
    ring buffer, and that the totals of the debug counters are the numbers of the packets of each class.
  \<^item> \<open>Ideal_Filter\<close>: the duplicate filter is two sets of bits, one for each of the last two epochs;
    the events of a run are those of this description.
  \<^item> \<open>Map_Sizes\<close>: the declarations of the maps; which tables fit the prefix maps, and that
    the bits of the filter are mapped one to one onto the words of its array. The locale \<open>bounded_lpm_trie\<close> extends \<open>lpm_trie\<close>.
  \<^item> \<open>Bloom_Race\<close>: setting a bit and rolling the epoch as step relations over the single accesses to
    shared memory, interleaved between CPUs: what can be lost there.
  \<^item> \<open>Interleave\<close>: threads under a schedule. The locales \<open>wait_free\<close> and \<open>tallied\<close> say when every
    schedule ends and when contributions add up; both are interpreted on the TC program.
  \<^item> \<open>Egress_Race\<close>: the whole TC program cut into its accesses to the maps, for any number of packets
    on any CPUs; one run after the other is the sequential program, and 41 steps end a run.
    \<open>Race_Counts\<close>: counters and events do not depend on the schedule. \<open>Race_Detection\<close>: when a repeated
    segment is reported under concurrency. \<open>Race_Reports\<close>: what a report implies, and a race that
    can make one up.
  \<^item> \<open>Net\<close> (Go's \<^verbatim>\<open>net.ParseCIDR\<close>), \<open>Config\<close> (\<^verbatim>\<open>config.go\<close>), \<open>Loader\<close> (\<^verbatim>\<open>load.go\<close>): validation,
    zone numbers, prefix tables, and what the filled maps answer. The locale \<open>lpm_trie\<close> is the
    contract of the kernel's prefix map, interpreted on a reference implementation.
  \<^item> \<open>Interfaces\<close> (\<^verbatim>\<open>interfaces.go\<close>): the interfaces named or discovered.
  \<^item> \<open>Attach\<close> (\<^verbatim>\<open>attach.go\<close>, \<^verbatim>\<open>Collection.AddLink\<close> and \<^verbatim>\<open>Close\<close>): attaching, rolling back, detaching
    and cleaning up. The locales \<open>tc_kernel\<close> and \<open>reliable_tc_kernel\<close> hold what the code relies on,
    interpreted on a reference world of filters.
  \<^item> \<open>Reader\<close> (\<^verbatim>\<open>main.go\<close>): decoding of events, the counters, the reader loop; \<open>Accumulator_Race\<close>
    interleaves the counting with the snapshots.
  \<^item> \<open>Ema\<close> (\<^verbatim>\<open>ema.go\<close>, \<^verbatim>\<open>Config.Alpha\<close>): the ring of samples refines the history of samples; the
    percentages stay in range.
  \<^item> \<open>Publish\<close> (\<^verbatim>\<open>exporter.go\<close>, \<^verbatim>\<open>logsummary.go\<close>, \<^verbatim>\<open>publish\<close> in \<^verbatim>\<open>main.go\<close>): the poll loop, from the
    records read to the gauges and the log; the line logged last always shows the present states.
    \<open>Rounding\<close>: how far the percentage on the gauge is from the true one in \<^verbatim>\<open>float64\<close>.
  \<^item> \<open>Startup\<close> (\<^verbatim>\<open>main\<close>): from the configuration to the running poll loop and the ways the process
    ends, and what it leaves behind in the kernel.
  \<^item> \<open>Helper_Defs\<close>, \<open>Helpers\<close>, \<open>Tracing\<close> (the headers \<^verbatim>\<open>bpf_helper_defs.h\<close>, \<^verbatim>\<open>bpf_helpers.h\<close>,
    \<^verbatim>\<open>bpf_tracing.h\<close>): the table of helpers, the printing macros, whose calls fit the prototypes of
    the table, and the macros that read registers and pass arguments.
  \<^item> This theory joins configuration, loader, TC program, reader, window and gauges: from the packets to
    the percentage that is exported.

  \<^bold>\<open>Modelling.\<close> C integers are words of their width. A read outside the packet, a Go index out of range
  and a division by zero are \<open>None\<close>; errors are the left injection of a sum. What is not under
  \<^verbatim>\<open>src\<close> is a parameter: the kernel (record \<open>kernel\<close>: layout of the TCP header, prefix maps; the clock
  and the reservations of the ring buffer come with each invocation), \<^verbatim>\<open>netlink\<close> (record \<open>netlink\<close>),
  the host (record \<open>host\<close>), YAML decoding. Assumptions about them are hypotheses of the theorems, and
  each has an instance that meets it. Loops over Go maps take their order as an argument where it
  could matter. A \<^verbatim>\<open>float64\<close> is a real number and every operation rounds by a parameter;
  \<open>float64\<close> in \<open>Rounding\<close> is its instance for double precision.

  \<^bold>\<open>Termination.\<close> Every function is total; no fuel is used in the model of the program's loops. A run of
  the TC program that is interleaved with others takes at most 41 steps, which a measure on its program
  points shows. The
  reader loop and the poll loop, which run for ever, are functions of the finite sequence of read
  results and ticks so far. The search for a free filter handle ends because the handle grows up to a
  bound. The parser of IPv6 addresses in \<open>Net\<close> counts the eight groups an address can have.

  \<^bold>\<open>Not modelled.\<close> The generated loaders and object files (\<^verbatim>\<open>packetloss_bpfel\<close>, \<^verbatim>\<open>packetloss_bpfeb\<close>);
  the HTTP handlers, profiling and flags of \<^verbatim>\<open>main\<close>; the Prometheus library behind the gauges; the prose
  of the helper header, which tells what helpers of the kernel do whose code is not here; attributes and
  section names that only steer compiler and linker; tests and installation scripts.
\<close>

subsection \<open>From the configuration to the counters\<close>

text \<open>The remote zones user space counts under are the zones the destination map answers with.\<close>

lemma RemoteZones_facts:
  assumes "numbered c" and "range_order c ord"
  shows "distinct (map DstZone (RemoteZones ord c))" and "distinct (map rz_ZoneID (RemoteZones ord c))"
    and "(\<exists>rz\<in>set (RemoteZones ord c). DstZone rz = name \<and> rz_ZoneID rz = z) \<longleftrightarrow>
      name \<noteq> SourceZone c \<and> zoneIDs c name = Some z"
proof -
  let ?ns = "sort (filter (\<lambda>name. name \<noteq> SourceZone c) ord)"
  let ?id = "\<lambda>name. case zoneIDs c name of None \<Rightarrow> 0 | Some z \<Rightarrow> z"
  have d: "distinct ?ns" and set: "set ?ns = fst ` set (Zones c) - {SourceZone c}"
    using assms(2) by (auto simp: range_order_def)
  show "distinct (map DstZone (RemoteZones ord c))" using d by (simp add: RemoteZones_def comp_def)
  have some: "zoneIDs c n = Some (?id n)" if "n \<in> set ?ns" for n
  proof -
    have "n \<in> dom (zoneIDs c)" using that set assms(1) by (auto simp: numbered_def)
    then show ?thesis by auto
  qed
  have "inj_on ?id (set ?ns)"
  proof (rule inj_onI)
    fix m n assume mn: "m \<in> set ?ns" "n \<in> set ?ns" "?id m = ?id n"
    then have "zoneIDs c m = zoneIDs c n" using some by metis
    moreover have "m \<in> dom (zoneIDs c)" "n \<in> dom (zoneIDs c)" using some mn by blast+
    ultimately show "m = n" using assms(1) by (auto simp: numbered_def inj_on_def)
  qed
  with d show "distinct (map rz_ZoneID (RemoteZones ord c))"
    by (simp add: RemoteZones_def comp_def distinct_map)
  have "(\<exists>rz\<in>set (RemoteZones ord c). DstZone rz = name \<and> rz_ZoneID rz = z) \<longleftrightarrow>
      (\<exists>n\<in>set ?ns. n = name \<and> ?id n = z)"
    by (simp add: RemoteZones_def)
  also have "\<dots> \<longleftrightarrow> name \<noteq> SourceZone c \<and> zoneIDs c name = Some z"
    using some set assms(1) by (auto simp: numbered_def)
  finally show "(\<exists>rz\<in>set (RemoteZones ord c). DstZone rz = name \<and> rz_ZoneID rz = z) \<longleftrightarrow>
      name \<noteq> SourceZone c \<and> zoneIDs c name = Some z" .
qed

text \<open>The zone numbers of the events that a packet sends, given its class.\<close>

definition sent_zones :: "kernel \<Rightarrow> bpf_state \<Rightarrow> invocation \<Rightarrow> u8 list" where
  "sent_zones k s iv =
     (case classify k s (iv_skb iv) of
        Zoned sg z \<Rightarrow> (if iv_reserve iv = None then [] else [z])
      | _ \<Rightarrow> [])"

lemma egress_effect_zones:
  "map ev_dst_zone_id (stats_rb (egress_effect k iv s)) = map ev_dst_zone_id (stats_rb s) @ sent_zones k s iv"
  by (auto simp: egress_effect_def sent_zones_def filter_step_bits event_of_def Let_def
      split: packet_class.split option.split)

lemma sent_zones_cong:
  "zone_lpm s = zone_lpm t \<Longrightarrow> src_zone_lpm s = src_zone_lpm t \<Longrightarrow> sent_zones k s iv = sent_zones k t iv"
  using classify_cong [of s t k "iv_skb iv"] by (simp add: sent_zones_def)

lemma run_egress_zones:
  "map ev_dst_zone_id (stats_rb (foldl (\<lambda>s iv. egress_effect k iv s) s ivs)) =
     map ev_dst_zone_id (stats_rb s) @ concat (map (sent_zones k s) ivs)"
proof (induction ivs arbitrary: s)
  case (Cons iv ivs)
  have "sent_zones k (egress_effect k iv s) = sent_zones k s" by (rule ext, rule sent_zones_cong) simp_all
  with Cons show ?case by (simp add: egress_effect_zones)
qed simp

lemma filter_sent_zones:
  "length (filter (\<lambda>z. z = y) (concat (map (sent_zones k s) ivs))) = length (filter (\<lambda>iv. sent_zones k s iv = [y]) ivs)"
proof (induction ivs)
  case (Cons iv ivs)
  have "sent_zones k s iv = [] \<or> (\<exists>z. sent_zones k s iv = [z])"
    by (simp add: sent_zones_def split: packet_class.split)
  with Cons show ?case by auto
qed simp

lemma sent_zonesD: "z \<in> set (sent_zones k s iv) \<Longrightarrow> \<exists>sg. classify k s (iv_skb iv) = Zoned sg z"
  by (cases "classify k s (iv_skb iv)") (auto simp: sent_zones_def split: if_splits)

lemma buildZoneIndex_iff:
  assumes "distinct (map rz_ZoneID zones)"
  shows "buildZoneIndex zones z = Some i \<longleftrightarrow> i < length zones \<and> rz_ZoneID (zones ! i) = z"
proof
  assume ix: "buildZoneIndex zones z = Some i"
  then have "z \<in> rz_ZoneID ` set zones" using buildZoneIndex_dom [of zones] by blast
  then obtain j where j: "j < length zones" "rz_ZoneID (zones ! j) = z" by (auto simp: in_set_conv_nth)
  with buildZoneIndex_nth [OF assms j(1)] ix show "i < length zones \<and> rz_ZoneID (zones ! i) = z" by simp
qed (use buildZoneIndex_nth [OF assms] in auto)

text \<open>Records that arrive whole, one after the other.\<close>

definition reads_of :: "byte_order \<Rightarrow> stats_event list \<Rightarrow> (read_result \<times> bool) list" where
  "reads_of bo evs = map (\<lambda>ev. (Got (encode_event bo ev), False)) evs"

lemma handled_reads_of: "st \<noteq> Stopped \<Longrightarrow> handled st (reads_of bo evs) = map (encode_event bo) evs"
proof (induction evs arbitrary: st)
  case Nil
  then show ?case by (cases st) (simp_all add: reads_of_def)
next
  case (Cons ev evs)
  then show ?case by (cases st) (simp_all add: reads_of_def)
qed

lemma event_counts:
  "known_event bo ix i (encode_event bo ev) \<longleftrightarrow> ix (ev_dst_zone_id ev) = Some i"
  "unknown_event bo ix (encode_event bo ev) \<longleftrightarrow> ix (ev_dst_zone_id ev) = None"
  using parse_encode [of bo ev "[]"] by (simp_all add: known_event_def unknown_event_def)

lemma events_counted:
  assumes "distinct (map rz_ZoneID zones)" and "map ev_dst_zone_id evs = ids"
  shows "\<exists>st acc. reader_loop bo (buildZoneIndex zones) Blocking (reads_of bo evs) (newAccumulator zones) = Some (st, acc) \<and>
    (\<forall>i<length zones. acc_segs acc ! i = of_nat (length (filter (\<lambda>z. z = rz_ZoneID (zones ! i)) ids))) \<and>
    acc_unknown acc = of_nat (length (filter (\<lambda>z. buildZoneIndex zones z = None) ids))"
proof -
  let ?ix = "buildZoneIndex zones" and ?raws = "map (encode_event bo) evs" and ?acc = "newAccumulator zones"
  obtain acc where acc: "handle_all bo ?ix ?raws ?acc = Some acc"
    and n: "\<forall>i<length zones. acc_segs acc ! i = of_nat (length (filter (known_event bo ?ix i) ?raws))"
    and u: "acc_unknown acc = of_nat (length (filter (unknown_event bo ?ix) ?raws))"
    using handle_all_counts [OF newAccumulator_wf, of bo zones ?raws] by (auto simp: newAccumulator_def)
  have "map_option snd (reader_loop bo ?ix Blocking (reads_of bo evs) ?acc) = Some acc"
    using reader_loop_handles [of bo ?ix Blocking "reads_of bo evs" ?acc] acc by (simp add: handled_reads_of)
  then obtain st where read: "reader_loop bo ?ix Blocking (reads_of bo evs) ?acc = Some (st, acc)" by auto
  have known: "?ix z = Some i \<longleftrightarrow> z = rz_ZoneID (zones ! i)" if "i < length zones" for z i
    using buildZoneIndex_iff [OF assms(1)] that by auto
  have "length (filter (known_event bo ?ix i) ?raws) = length (filter (\<lambda>z. z = rz_ZoneID (zones ! i)) ids)"
    if "i < length zones" for i
    using known [OF that] by (simp add: filter_map comp_def event_counts flip: assms(2))
  moreover have "length (filter (unknown_event bo ?ix) ?raws) = length (filter (\<lambda>z. ?ix z = None) ids)"
    by (simp add: filter_map comp_def event_counts flip: assms(2))
  ultimately show ?thesis using read n u by auto
qed

text \<open>What it means for the key of a parsed network to cover an address.\<close>

lemma parsed_net_covers:
  assumes "ParseCIDR sub = Some (Prefix e)" and "lpm_covers bo (entry_key bo e) a"
  shows "length (net_ip (Prefix e)) = 16 \<or> net_v4 (Prefix e) \<and> net_covers (Prefix e) (mem_of_word bo 4 a)"
proof (cases "length (net_ip (Prefix e)) = 4")
  case True
  then have v4: "net_v4 (Prefix e)" using ParseCIDR_shape(2) [OF assms(1)] by (simp add: net_v4_def net_len_def)
  have "word_of_mem bo (mem_of_word bo 4 a) = a" by simp
  with entry_key_v4(2) [OF v4, of "mem_of_word bo 4 a" bo] assms(2) v4 show ?thesis by simp
qed (use ParseCIDR_shape(1) [OF assms(1)] in auto)

text \<open>What the loaded destination map answers belongs to a remote zone of the configuration.\<close>

lemma loaded_zone_is_remote:
  assumes "config_wf c" and "range_order c ord1" and "range_order c ord2" and "range_order c ord3"
    and val: "Validate ord1 ord2 c = Inr c'" and ds: "ZoneLPMEntries ord3 c' = Inr ds"
    and trie: "lpm_trie (k_order k) (k_lpm_lookup k) (k_lpm_update k)"
    and load: "Load_bpf k (Some (bpf_init Map.empty Map.empty)) ds ss = Inr s"
    and hit: "k_lpm_lookup k (zone_lpm s) (32, a) = Some z"
  shows "\<exists>name subnets sub net. (name, subnets) \<in> set (Zones c) \<and> name \<noteq> SourceZone c \<and> zoneIDs c' name = Some z \<and>
    sub \<in> set subnets \<and> ParseCIDR sub = Some net \<and>
    (length (net_ip net) = 16 \<or> net_v4 net \<and> net_covers net (mem_of_word (k_order k) 4 a))"
proof -
  note v = Validate_InrD [OF assms(1-3) val]
  have o3: "set ord3 \<subseteq> fst ` set (Zones c')" using assms(4) v(2) by (simp add: range_order_def)
  have wf': "config_wf c'" using assms(1) v(2) by (simp add: config_wf_def)
  obtain e where e: "e \<in> set ds" "ZoneID e = z" "lpm_covers (k_order k) (entry_key (k_order k) e) a"
    using put_entries_lookup(1) [OF trie Load_bpf_InrD(1) [OF load] hit] by blast
  have "ds = concat (map (zone_entries c') (filter (\<lambda>name. name \<noteq> SourceZone c') ord3))"
    using ZoneLPMEntries_ok [OF v(4,1) o3] ds by simp
  with e(1) obtain name where "name \<in> set ord3" "name \<noteq> SourceZone c'" "e \<in> set (zone_entries c' name)" by auto
  moreover from this o3 obtain subnets where "(name, subnets) \<in> set (Zones c')" by force
  ultimately obtain name subnets sub where name: "(name, subnets) \<in> set (Zones c')" "name \<noteq> SourceZone c'"
    and sub: "sub \<in> set subnets" "zoneIDs c' name = Some z" "ParseCIDR sub = Some (Prefix e)"
    using zone_entries_mem [OF wf' v(4,1)] e(2) by blast
  note covered = parsed_net_covers [OF sub(3) e(3)]
  show ?thesis using v(2,3) name sub covered by auto
qed

text \<open>
  C16. The parts agree on the zones: with a validated configuration loaded into the maps, whatever
  packets leave, the reader, built from the same configuration, knows the zone of every event, and
  counts under each remote zone exactly the packets that the TC program put into that zone and got
  room for in the ring buffer (modulo \<open>2^64\<close>); and a packet is put into a zone only when the
  configuration gives that zone an IPv4 subnet whose network bits are those of the destination's
  address, or an IPv6 subnet, which the program takes to hold every address.
\<close>

theorem counted_under_the_configured_zone:
  assumes "config_wf c" and "range_order c ord1" and "range_order c ord2" and "range_order c ord3" and "range_order c ord4"
    and "Validate ord1 ord2 c = Inr c'" and "ZoneLPMEntries ord3 c' = Inr ds"
    and "lpm_trie (k_order k) (k_lpm_lookup k) (k_lpm_update k)"
    and "Load_bpf k (Some (bpf_init Map.empty Map.empty)) ds ss = Inr s"
    and "run_egress k ivs s = Some s'"
  shows "\<exists>st acc. reader_loop (k_order k) (buildZoneIndex (RemoteZones ord4 c')) Blocking (reads_of (k_order k) (stats_rb s'))
           (newAccumulator (RemoteZones ord4 c')) = Some (st, acc) \<and>
     acc_unknown acc = 0 \<and>
     (\<forall>i<length (RemoteZones ord4 c'). acc_segs acc ! i =
        of_nat (length (filter (\<lambda>iv. sent_zones k s iv = [rz_ZoneID (RemoteZones ord4 c' ! i)]) ivs))) \<and>
     (\<forall>iv sg z. classify k s (iv_skb iv) = Zoned sg z \<longrightarrow>
        (\<exists>name subnets sub net. (name, subnets) \<in> set (Zones c) \<and> name \<noteq> SourceZone c \<and> zoneIDs c' name = Some z \<and>
           sub \<in> set subnets \<and> ParseCIDR sub = Some net \<and>
           (length (net_ip net) = 16 \<or> net_v4 net \<and> net_covers net (mem_of_word (k_order k) 4 (sg_daddr sg)))))"
proof -
  let ?bo = "k_order k" and ?zones = "RemoteZones ord4 c'"
  let ?ix = "buildZoneIndex ?zones"
  note v = Validate_InrD [OF assms(1-3,6)]
  have o4: "range_order c' ord4" using assms(5) v(2) by (simp add: range_order_def)
  note rz = RemoteZones_facts [OF v(1) o4]
  have zone: "\<exists>name subnets sub net. (name, subnets) \<in> set (Zones c) \<and> name \<noteq> SourceZone c \<and> zoneIDs c' name = Some z \<and>
      sub \<in> set subnets \<and> ParseCIDR sub = Some net \<and>
      (length (net_ip net) = 16 \<or> net_v4 net \<and> net_covers net (mem_of_word ?bo 4 (sg_daddr sg)))"
    if "classify k s (iv_skb iv) = Zoned sg z" for iv sg z
    using that loaded_zone_is_remote [OF assms(1-4,6-9), of "sg_daddr sg" z]
    by (auto simp: classify_def split: option.splits sum.splits)
  have known: "\<exists>i. ?ix z = Some i" if cl: "classify k s (iv_skb iv) = Zoned sg z" for iv sg z
  proof -
    obtain name where "name \<noteq> SourceZone c'" "zoneIDs c' name = Some z" using zone [OF cl] v(3) by auto
    then show ?thesis using rz(3) [of name z] buildZoneIndex_iff [OF rz(2)] by (metis in_set_conv_nth)
  qed
  have ids: "map ev_dst_zone_id (stats_rb s') = concat (map (sent_zones k s) ivs)"
    using run_egress_zones [where k = k and ivs = ivs and s = s] assms(10) Load_bpf_InrD(3) [OF assms(9)]
    by (simp add: run_egress_eq bpf_init_def) (metis (no_types, lifting) append_Nil bpf_state.select_convs list.map_disc_iff)
  have "filter (\<lambda>z. ?ix z = None) (concat (map (sent_zones k s) ivs)) = []"
    using known by (fastforce simp: filter_empty_conv dest: sent_zonesD)
  with events_counted [OF rz(2) ids, of ?bo] zone show ?thesis by (auto simp: filter_sent_zones)
qed

definition numbered_sample :: config where
  "numbered_sample = sample_config\<lparr>zoneIDs := [''c'' \<mapsto> 1, ''f'' \<mapsto> 2]\<rparr>"

definition numbered_dst :: "zone_entry list" where
  "numbered_dst = map (\<lambda>e. e\<lparr>ZoneID := 1\<rparr>) sample_dst"

lemma numbered_sample_tables:
  "Validate [''c'', ''f''] [''f'', ''c''] sample_config = Inr numbered_sample"
  "ZoneLPMEntries [''f'', ''c''] numbered_sample = Inr numbered_dst"
  by (simp_all add: Validate_def sample_config_def default_config_def ParseCIDR_10_0 ParseCIDR_10_1 ParseCIDR_192
      assignZoneIDs_def Let_def second_def numbered_sample_def number_zones_def numbered_dst_def sample_dst_def)

theorem counted_under_the_configured_zone_witness:
  "\<exists>s s' st acc.
     Load_bpf (ref_kernel Little) (Some (bpf_init Map.empty Map.empty)) numbered_dst sample_src = Inr s \<and>
     run_egress (ref_kernel Little) [sample_invocation 48 1 0x18 0] s = Some s' \<and>
     reader_loop Little (buildZoneIndex (RemoteZones [''c'', ''f''] numbered_sample)) Blocking (reads_of Little (stats_rb s'))
       (newAccumulator (RemoteZones [''c'', ''f''] numbered_sample)) = Some (st, acc) \<and> acc_unknown acc = 0"
proof -
  have wf: "config_wf sample_config" and o1: "range_order sample_config [''c'', ''f'']"
    and o2: "range_order sample_config [''f'', ''c'']"
    by (auto simp: config_wf_def range_order_def sample_config_def)
  have "\<forall>e\<in>set (numbered_dst @ sample_src). net_v4 (Prefix e)" using sample_v4 by (auto simp: numbered_dst_def)
  then obtain s where s: "Load_bpf (ref_kernel Little) (Some (bpf_init Map.empty Map.empty)) numbered_dst sample_src = Inr s"
    using Load_bpf_ref lpmKey_v4 by blast
  obtain s' where s': "run_egress (ref_kernel Little) [sample_invocation 48 1 0x18 0] s = Some s'"
    using run_egress_total by blast
  from counted_under_the_configured_zone [OF wf o1 o2 o2 o1 numbered_sample_tables ref_kernel_trie s s'] s s' show ?thesis
    by auto
qed

subsection \<open>From the packets to the percentage\<close>

text \<open>
  The ticks of the poll loop with the packets between them: the TC program runs, the reader empties the
  ring buffer, and the debug counters are read. \<open>cpus\<close> are the possible CPUs.
\<close>

record tick_batch =
  tb_now :: int
  tb_events :: "stats_event list"
  tb_dbg :: "debug_counters option"

fun tc_ticks :: "kernel \<Rightarrow> nat list \<Rightarrow> (int \<times> invocation list) list \<Rightarrow> bpf_state \<Rightarrow> tick_batch list option" where
  "tc_ticks k cpus [] s = Some []"
| "tc_ticks k cpus ((now, ivs) # ts) s =
     (case run_egress k ivs s of
        None \<Rightarrow> None
      | Some s' \<Rightarrow>
          map_option ((#) \<lparr>tb_now = now, tb_events = stats_rb s', tb_dbg = ReadDebugCounters cpus s'\<rparr>)
            (tc_ticks k cpus ts (s'\<lparr>stats_rb := []\<rparr>)))"

definition poll_input :: "byte_order \<Rightarrow> tick_batch \<Rightarrow> tick_input" where
  "poll_input bo b = \<lparr>ti_reads = reads_of bo (tb_events b), ti_now = tb_now b, ti_dbg = tb_dbg b\<rparr>"

lemma tc_ticks_batches:
  "stats_rb s = [] \<Longrightarrow> \<exists>bs. tc_ticks k cpus ticks s = Some bs \<and>
     map (\<lambda>b. map ev_dst_zone_id (tb_events b)) bs = map (\<lambda>(now, ivs). concat (map (sent_zones k s) ivs)) ticks"
proof (induction ticks arbitrary: s)
  case (Cons t ticks)
  obtain now ivs where t: "t = (now, ivs)" by (cases t)
  let ?s1 = "foldl (\<lambda>s iv. egress_effect k iv s) s ivs"
  have same: "sent_zones k (?s1\<lparr>stats_rb := []\<rparr>) = sent_zones k s" by (rule ext, rule sent_zones_cong) simp_all
  from Cons.IH [of "?s1\<lparr>stats_rb := []\<rparr>"] obtain bs where "tc_ticks k cpus ticks (?s1\<lparr>stats_rb := []\<rparr>) = Some bs"
    "map (\<lambda>b. map ev_dst_zone_id (tb_events b)) bs = map (\<lambda>(now, ivs). concat (map (sent_zones k s) ivs)) ticks"
    unfolding same by auto
  with Cons.prems run_egress_zones [of k s ivs] show ?case by (simp add: t run_egress_eq)
qed simp

lemma reader_after_reads_of: "rd \<noteq> Stopped \<Longrightarrow> reader_after rd (reads_of bo evs) \<noteq> Stopped"
proof (induction evs arbitrary: rd)
  case Nil
  then show ?case by (cases rd) (simp_all add: reads_of_def)
next
  case (Cons ev evs)
  then show ?case by (cases rd) (simp_all add: reads_of_def)
qed

lemma batches_poll_input:
  "rd \<noteq> Stopped \<Longrightarrow> batches rd (map (poll_input bo) bs) = map (\<lambda>b. (tb_now b, map (encode_event bo) (tb_events b))) bs"
  by (induction bs arbitrary: rd) (simp_all add: poll_input_def handled_reads_of reader_after_reads_of)

text \<open>The events of the zone \<open>z\<close>, and those among them that report a retransmission.\<close>

definition zone_events :: "u8 \<Rightarrow> stats_event list \<Rightarrow> stats_event list" where
  "zone_events z evs = filter (\<lambda>ev. ev_dst_zone_id ev = z) evs"

definition retrans_events :: "u8 \<Rightarrow> stats_event list \<Rightarrow> stats_event list" where
  "retrans_events z evs = filter (\<lambda>ev. ev_dst_zone_id ev = z \<and> ev_is_retrans ev \<noteq> 0) evs"

lemma zone_count_events:
  assumes "distinct (map rz_ZoneID zones)" and "i < length zones"
  shows "zone_count bo (buildZoneIndex zones) i (map (encode_event bo) evs) =
    \<lparr>Segments = of_nat (length (zone_events (rz_ZoneID (zones ! i)) evs)),
     Retrans = of_nat (length (retrans_events (rz_ZoneID (zones ! i)) evs))\<rparr>"
proof -
  have known: "buildZoneIndex zones z = Some i \<longleftrightarrow> z = rz_ZoneID (zones ! i)" for z
    using buildZoneIndex_iff [OF assms(1)] assms(2) by auto
  have "retrans_event bo ix i (encode_event bo ev) \<longleftrightarrow> ix (ev_dst_zone_id ev) = Some i \<and> ev_is_retrans ev \<noteq> 0" for ix ev
    using parse_encode [of bo ev "[]"] by (simp add: retrans_event_def)
  then show ?thesis
    by (simp add: zone_count_def filter_map comp_def event_counts known zone_events_def retrans_events_def)
qed

lemma last_n_map: "last_n n (map f xs) = map f (last_n n xs)"
  by (simp add: last_n_def drop_map)

lemma sum_list_of_nat: "(\<Sum>x\<leftarrow>xs. of_nat (f x)) = (of_nat (\<Sum>x\<leftarrow>xs. f x) :: u64)"
  by (induction xs) simp_all

lemma length_zone_events_concat:
  "length (zone_events z (concat xss)) = (\<Sum>xs\<leftarrow>xss. length (zone_events z xs))"
  "length (retrans_events z (concat xss)) = (\<Sum>xs\<leftarrow>xss. length (retrans_events z xs))"
  by (simp_all add: zone_events_def retrans_events_def filter_concat length_concat comp_def)

lemma retrans_events_le: "length (retrans_events z evs) \<le> length (zone_events z evs)"
  by (induction evs) (simp_all add: zone_events_def retrans_events_def)

lemma run_abs_snoc: "run_abs F c cap (ps @ [(now, d)]) a = abs_update F c cap now d (run_abs F c cap ps a)"
  by (simp add: run_abs_def)

lemma abs_update_instant:
  "(\<Sum>x\<leftarrow>last_n cap (az_hist a @ [sample_of d]). seg x) \<noteq> 0 \<Longrightarrow> az_instant (abs_update F c cap now d a) =
     instant_of F (\<Sum>x\<leftarrow>last_n cap (az_hist a @ [sample_of d]). ret x) (\<Sum>x\<leftarrow>last_n cap (az_hist a @ [sample_of d]). seg x)"
  by (simp add: abs_update_def Let_def)

text \<open>The instant percentage is the quotient of the sums over the window, rounded at every operation.\<close>

lemma run_abs_instant:
  fixes ps :: "(int \<times> nat \<times> nat) list" and cap :: nat
  defines "S \<equiv> (\<Sum>(now, s, r)\<leftarrow>last_n cap ps. s)" and "R \<equiv> (\<Sum>(now, s, r)\<leftarrow>last_n cap ps. r)"
  assumes "S < 2 ^ 64" and "R \<le> S" and "0 < S"
  shows "az_instant (run_abs F c cap (map (\<lambda>(now, s, r). (now, \<lparr>Segments = of_nat s, Retrans = of_nat r\<rparr>)) ps) abs_init) =
    fl_round F (fl_round F (100 * fl_round F (real R)) / fl_round F (real S))"
proof -
  let ?conv = "map (\<lambda>(now, s, r). (now, \<lparr>Segments = of_nat s, Retrans = of_nat r\<rparr>))"
  have "ps \<noteq> []" using assms(5) by (auto simp: S_def last_n_def)
  then obtain qs now s r where ps: "ps = qs @ [(now, s, r)]" by (metis rev_exhaust surj_pair)
  have sums: "(\<Sum>x\<leftarrow>last_n cap (map (\<lambda>(now, s, r). \<lparr>seg = of_nat s, ret = of_nat r\<rparr>) ps). seg x) = of_nat S"
    "(\<Sum>x\<leftarrow>last_n cap (map (\<lambda>(now, s, r). \<lparr>seg = of_nat s, ret = of_nat r\<rparr>) ps). ret x) = of_nat R"
    by (simp_all add: last_n_map S_def R_def comp_def case_prod_unfold sum_list_of_nat)
  have hist: "az_hist (run_abs F c cap (?conv qs) abs_init) @ [sample_of \<lparr>Segments = of_nat s, Retrans = of_nat r\<rparr>] =
      map (\<lambda>(now, s, r). \<lparr>seg = of_nat s, ret = of_nat r\<rparr>) ps"
    by (simp add: ps run_abs_hist abs_init_def sample_of_def comp_def case_prod_unfold)
  have un: "unat (of_nat S :: u64) = S" "unat (of_nat R :: u64) = R" using assms(3,4) by (simp_all add: unat_of_nat)
  then have "(of_nat S :: u64) \<noteq> 0" using assms(5) by (metis less_irrefl unat_0)
  with sums have "az_instant (run_abs F c cap (?conv ps) abs_init) = instant_of F (of_nat R) (of_nat S)"
    using abs_update_instant [of cap "run_abs F c cap (?conv qs) abs_init" "\<lparr>Segments = of_nat s, Retrans = of_nat r\<rparr>"]
    unfolding hist by (simp add: ps run_abs_snoc)
  then show ?thesis using un by (simp add: instant_of_def float64_of_uint64_def)
qed

text \<open>The events of a zone in the last ticks are the packets put into the zone, and no more than all packets.\<close>

lemma zone_packets_of_ticks:
  assumes "map (\<lambda>b. map ev_dst_zone_id (tb_events b)) bs = map (\<lambda>(now, ivs). concat (map (sent_zones k s) ivs)) ticks"
  shows "length (zone_events z (concat (map tb_events (last_n n bs)))) =
     (\<Sum>(now, ivs)\<leftarrow>last_n n ticks. length (filter (\<lambda>iv. sent_zones k s iv = [z]) ivs))"
proof -
  have "map (\<lambda>b. length (zone_events z (tb_events b))) bs = map (\<lambda>ids. length (filter (\<lambda>y. y = z) ids)) (map (\<lambda>b. map ev_dst_zone_id (tb_events b)) bs)"
    by (simp add: zone_events_def filter_map comp_def)
  also have "\<dots> = map (\<lambda>(now, ivs). length (filter (\<lambda>iv. sent_zones k s iv = [z]) ivs)) ticks"
    unfolding assms by (simp add: filter_sent_zones comp_def case_prod_unfold)
  finally have "map (\<lambda>b. length (zone_events z (tb_events b))) (last_n n bs) =
      map (\<lambda>(now, ivs). length (filter (\<lambda>iv. sent_zones k s iv = [z]) ivs)) (last_n n ticks)"
    by (simp flip: last_n_map)
  then show ?thesis by (simp add: length_zone_events_concat comp_def)
qed

lemma zone_packets_le:
  "(\<Sum>(now, ivs)\<leftarrow>last_n n ticks. length (filter (\<lambda>iv. sent_zones k s iv = [z]) ivs)) \<le> (\<Sum>(now, ivs)\<leftarrow>ticks. length ivs)"
proof -
  have "(\<Sum>(now, ivs)\<leftarrow>last_n n ticks. length (filter (\<lambda>iv. sent_zones k s iv = [z]) ivs))
      \<le> (\<Sum>(now, ivs)\<leftarrow>ticks. length (filter (\<lambda>iv. sent_zones k s iv = [z]) ivs))" by (rule sum_list_last_n_le)
  also have "\<dots> \<le> (\<Sum>(now, ivs)\<leftarrow>ticks. length ivs)" by (rule sum_list_mono) auto
  finally show ?thesis .
qed

text \<open>
  C3. What the exporter is for: with a validated configuration loaded into the maps, whatever
  packets leave between the ticks, after the last tick the percentage of a remote zone is computed
  from \<open>S\<close>, the packets of that zone within the last \<open>cap\<close> ticks, and \<open>R\<close>, those of them reported as
  retransmissions, by \<open>100 R / S\<close> rounded down to two decimals, where each operation on floating point
  numbers rounds as the machine does; the packets of the zone are those the TC program put there and got
  room for in the ring buffer. With the accuracy of IEEE 754 the value that is shown is at most one hundredth
  and \<open>1 / 10^12\<close> below the true percentage, and at most \<open>1 / 10^12\<close> above it.
\<close>

theorem exported_percentage:
  assumes "config_wf c" and "range_order c ord1" and "range_order c ord2" and "range_order c ord4"
    and "Validate ord1 ord2 c = Inr c'"
    and "Load_bpf k (Some (bpf_init Map.empty Map.empty)) ds ss = Inr s"
    and "(\<Sum>(now, ivs)\<leftarrow>ticks. length ivs) < 2 ^ 64" and "i < length (RemoteZones ord4 c')"
  shows "\<exists>cap p0 bs p out. cap = max 1 (nat (InstantWindow c' div PollInterval c')) \<and> start_polls c' (RemoteZones ord4 c') = Some p0 \<and>
     tc_ticks k cpus ticks s = Some bs \<and>
     run_polls F (k_order k) (buildZoneIndex (RemoteZones ord4 c')) verbose (map (poll_input (k_order k)) bs) Blocking p0 = Some (p, out) \<and>
     (let rz = RemoteZones ord4 c' ! i; evs = concat (map tb_events (last_n cap bs));
          S = length (zone_events (rz_ZoneID rz) evs); R = length (retrans_events (rz_ZoneID rz) evs)
      in S = (\<Sum>(now, ivs)\<leftarrow>last_n cap ticks. length (filter (\<lambda>iv. sent_zones k s iv = [rz_ZoneID rz]) ivs)) \<and>
         (0 < S \<longrightarrow> (\<exists>v. percent (ps_prom p) (rz_SourceZone rz, DstZone rz) = Some v \<and>
            v = fl_round F (of_int \<lfloor>fl_round F (fl_round F (fl_round F (100 * fl_round F (real R)) / fl_round F (real S)) * 100)\<rfloor> / 100) \<and>
            (float_accurate F \<longrightarrow> 100 * real R / real S - 1 / 100 - 1 / 10 ^ 12 \<le> v \<and> v \<le> 100 * real R / real S + 1 / 10 ^ 12))))"
proof -
  let ?zones = "RemoteZones ord4 c'" and ?bo = "k_order k"
  let ?rz = "?zones ! i"
  let ?z = "rz_ZoneID ?rz"
  note v = Validate_InrD [OF assms(1-3,5)]
  have o4: "range_order c' ord4" using assms(4) v(2) by (simp add: range_order_def)
  note rz = RemoteZones_facts [OF v(1) o4]
  let ?cap = "max 1 (nat (InstantWindow c' div PollInterval c'))"
  have cap: "instantWindowCap c' = Some ?cap"
    using v(5,6) by (auto simp: instantWindowCap_def Let_def signed_divide_int_def sgn_if)
  from poll_inv_start [OF cap rz(1), of F] obtain p0 where p0: "start_polls c' ?zones = Some p0"
    and inv: "poll_inv F c' ?cap ?zones (replicate (length ?zones) abs_init) p0" by blast
  have "stats_rb s = []" using Load_bpf_InrD(3) [OF assms(6)] by (metis bpf_init_def bpf_state.select_convs(5))
  from tc_ticks_batches [OF this, of k cpus ticks] obtain bs where bs: "tc_ticks k cpus ticks s = Some bs"
    and ids: "map (\<lambda>b. map ev_dst_zone_id (tb_events b)) bs = map (\<lambda>(now, ivs). concat (map (sent_zones k s) ivs)) ticks" by blast
  let ?ps = "map (\<lambda>b. (tb_now b, length (zone_events ?z (tb_events b)), length (retrans_events ?z (tb_events b)))) bs"
  define evs where "evs = concat (map tb_events (last_n ?cap bs))"
  define S where "S = length (zone_events ?z evs)"
  define R where "R = length (retrans_events ?z evs)"
  have S: "S = (\<Sum>(now, s, r)\<leftarrow>last_n ?cap ?ps. s)" and R: "R = (\<Sum>(now, s, r)\<leftarrow>last_n ?cap ?ps. r)"
    by (simp_all add: S_def R_def evs_def length_zone_events_concat last_n_map comp_def)
  note packets = zone_packets_of_ticks [OF ids, where z = ?z and n = ?cap, folded evs_def S_def]
  have small: "S < 2 ^ 64" unfolding packets using zone_packets_le [where n = ?cap and ticks = ticks and k = k and s = s and z = ?z] assms(7) by linarith
  have "R \<le> S" by (simp add: R_def S_def retrans_events_le)
  note instant = run_abs_instant [where F = F and ps = ?ps and cap = ?cap and c = c', folded S R, OF small this]
  let ?shown = "map (\<lambda>j. run_abs F c' ?cap (map (\<lambda>(now, raws). (now, zone_count ?bo (buildZoneIndex ?zones) j raws))
      (batches Blocking (map (poll_input ?bo) bs))) (replicate (length ?zones) abs_init ! j)) [0..<length ?zones]"
  from run_polls_shows [OF inv rz(1), of ?bo verbose "map (poll_input ?bo) bs" Blocking] obtain p out where
    run: "run_polls F ?bo (buildZoneIndex ?zones) verbose (map (poll_input ?bo) bs) Blocking p0 = Some (p, out)"
    and sh: "bs = [] \<or> shows_zones F ?zones ?shown (ps_prom p)" by (auto simp: Let_def)
  let ?v = "fl_round F (of_int \<lfloor>fl_round F (fl_round F (fl_round F (100 * fl_round F (real R)) / fl_round F (real S)) * 100)\<rfloor> / 100)"
  have "percent (ps_prom p) (rz_SourceZone ?rz, DstZone ?rz) = Some ?v" if "0 < S"
  proof -
    have shown: "?shown ! i = run_abs F c' ?cap (map (\<lambda>(now, s, r). (now, \<lparr>Segments = of_nat s, Retrans = of_nat r\<rparr>)) ?ps) abs_init"
      using assms(8) by (simp add: batches_poll_input zone_count_events [OF rz(2)] comp_def)
    have "az_instant (?shown ! i) = fl_round F (fl_round F (100 * fl_round F (real R)) / fl_round F (real S))"
      unfolding shown by (rule instant [OF that])
    moreover have "bs \<noteq> []" using that by (auto simp: S_def evs_def last_n_def zone_events_def)
    ultimately show ?thesis using sh assms(8) by (simp add: shows_zones_def Let_def floorToTwoDecimals_def)
  qed
  moreover have "100 * real R / real S - 1 / 100 - 1 / 10 ^ 12 \<le> ?v \<and> ?v \<le> 100 * real R / real S + 1 / 10 ^ 12"
    if "0 < S" "float_accurate F"
    using exported_bounds [OF that(2) \<open>R \<le> S\<close> that(1) small] .
  ultimately have "0 < S \<longrightarrow> (\<exists>v. percent (ps_prom p) (rz_SourceZone ?rz, DstZone ?rz) = Some v \<and> v = ?v \<and>
      (float_accurate F \<longrightarrow> 100 * real R / real S - 1 / 100 - 1 / 10 ^ 12 \<le> v \<and> v \<le> 100 * real R / real S + 1 / 10 ^ 12))" by blast
  with p0 bs run packets show ?thesis unfolding Let_def S_def R_def evs_def by blast
qed

lemma numbered_classify:
  assumes "Load_bpf (ref_kernel Little) (Some (bpf_init Map.empty Map.empty)) numbered_dst sample_src = Inr s"
  shows "classify (ref_kernel Little) s (sample_skb 48 q 0x18) = Zoned (sample_segment q 0x18 8) 1"
proof -
  let ?k = "ref_kernel Little"
  note put = Load_bpf_InrD(1,2) [OF assms]
  have v4: "\<forall>e\<in>set numbered_dst. net_v4 (Prefix e)" "\<forall>e\<in>set sample_src. net_v4 (Prefix e)"
    using sample_v4 by (auto simp: numbered_dst_def)
  have cov: "\<exists>e\<in>set numbered_dst. net_covers (Prefix e) [10, 1, 2, 3]" "\<exists>e\<in>set sample_src. net_covers (Prefix e) [192, 168, 0, 1]"
    by (auto simp: numbered_dst_def sample_dst_def sample_src_def net_covers_def net_len_def Mask_Size_cidr_mask mask_bits_def upt_rec)
  have "k_lpm_lookup ?k (zone_lpm s) (32, word_of_mem Little [10, 1, 2, 3]) = Some 1"
    using loaded_lookup_v4 [OF ref_kernel_trie put(1) v4(1), of "[10, 1, 2, 3]"] cov(1)
    by (auto simp: numbered_dst_def split: option.splits)
  moreover have "k_lpm_lookup ?k (src_zone_lpm s) (32, word_of_mem Little [192, 168, 0, 1]) \<noteq> None"
    using loaded_lookup_v4 [OF ref_kernel_trie put(2) v4(2), of "[192, 168, 0, 1]"] cov(2) by (auto split: option.splits)
  ultimately show ?thesis by (auto simp: classify_def parse_sample_data) (auto simp: sample_segment_def)
qed

text \<open>Two copies of a segment: the second is reported.\<close>

lemma numbered_events:
  assumes load: "Load_bpf (ref_kernel Little) (Some (bpf_init Map.empty Map.empty)) numbered_dst sample_src = Inr s"
    and run: "run_egress (ref_kernel Little) [sample_invocation 48 1 0x18 5, sample_invocation 48 1 0x18 9] s = Some s'"
  shows "map (\<lambda>ev. (ev_dst_zone_id ev, ev_is_retrans ev)) (stats_rb s') = [(1, 0), (1, 1)]"
proof -
  note s = Load_bpf_InrD(3) [OF load]
  have "filter_rel 0 (bloom_epoch s) (bloom_bits s) ideal_init"
    using filter_rel_init by (subst (1 2) s) (simp add: bpf_init_def)
  moreover have "stats_rb s = []" by (subst s) (simp add: bpf_init_def)
  ultimately have "stats_rb s' = ideal_events (ref_kernel Little) s [sample_invocation 48 1 0x18 5, sample_invocation 48 1 0x18 9] ideal_init"
    using ideal_events_run [of 0 s ideal_init "[sample_invocation 48 1 0x18 5, sample_invocation 48 1 0x18 9]" s "ref_kernel Little"] run
    by (simp add: run_egress_eq)
  then show ?thesis
    by (simp add: sample_invocation_def numbered_classify [OF load] ideal_check_def ideal_roll_def ideal_init_def segment_key_sample
        ideal_lookup_def event_of_def bloom_key_bits_def BLOOM_EPOCH_NS_def)
      (rule exI, rule disjI1, rule refl)
qed

theorem exported_percentage_witness:
  "\<exists>s bs p0 p out.
     Load_bpf (ref_kernel Little) (Some (bpf_init Map.empty Map.empty)) numbered_dst sample_src = Inr s \<and>
     tc_ticks (ref_kernel Little) [0] [(0, [sample_invocation 48 1 0x18 5, sample_invocation 48 1 0x18 9]), (1, [])] s = Some bs \<and>
     start_polls numbered_sample (RemoteZones [''c'', ''f''] numbered_sample) = Some p0 \<and>
     run_polls float64 Little (buildZoneIndex (RemoteZones [''c'', ''f''] numbered_sample)) False (map (poll_input Little) bs)
       Blocking p0 = Some (p, out) \<and>
     percent (ps_prom p) (''f'', ''c'') = Some 50 \<and> float_accurate float64"
proof -
  let ?ivs = "[sample_invocation 48 1 0x18 5, sample_invocation 48 1 0x18 9]"
  let ?ticks = "[(0, ?ivs), (1, [])]"
  have wf: "config_wf sample_config" and o1: "range_order sample_config [''c'', ''f'']"
    and o2: "range_order sample_config [''f'', ''c'']"
    by (auto simp: config_wf_def range_order_def sample_config_def)
  have "\<forall>e\<in>set (numbered_dst @ sample_src). net_v4 (Prefix e)" using sample_v4 by (auto simp: numbered_dst_def)
  then obtain s where s: "Load_bpf (ref_kernel Little) (Some (bpf_init Map.empty Map.empty)) numbered_dst sample_src = Inr s"
    using Load_bpf_ref lpmKey_v4 by blast
  obtain s' where s': "run_egress (ref_kernel Little) ?ivs s = Some s'" using run_egress_total by blast
  note flags = numbered_events [OF s s']
  have "length (zone_events 1 (stats_rb s')) = length (filter (\<lambda>(z, r). z = 1) [(1 :: u8, 0 :: u8), (1, 1)])"
    "length (retrans_events 1 (stats_rb s')) = length (filter (\<lambda>(z, r). z = 1 \<and> r \<noteq> 0) [(1 :: u8, 0 :: u8), (1, 1)])"
    by (simp_all only: zone_events_def retrans_events_def filter_map length_map comp_def case_prod_conv flip: flags)
  then have counts: "length (zone_events 1 (stats_rb s')) = 2" "length (retrans_events 1 (stats_rb s')) = 1" by simp_all
  let ?bs = "[\<lparr>tb_now = 0, tb_events = stats_rb s', tb_dbg = ReadDebugCounters [0] s'\<rparr>,
      \<lparr>tb_now = 1, tb_events = [], tb_dbg = ReadDebugCounters [0] (s'\<lparr>stats_rb := []\<rparr>)\<rparr>]"
  have bs: "tc_ticks (ref_kernel Little) [0] ?ticks s = Some ?bs" by (simp add: s' del: run_egress.simps(2))
  have rz: "RemoteZones [''c'', ''f''] numbered_sample = [\<lparr>DstZone = ''c'', rz_ZoneID = 1, rz_SourceZone = ''f''\<rparr>]"
    by (simp add: RemoteZones_def numbered_sample_def sample_config_def)
  have cap: "max 1 (nat (InstantWindow numbered_sample div PollInterval numbered_sample)) = 10"
    by (simp add: numbered_sample_def sample_config_def default_config_def second_def)
  have small: "(\<Sum>(now, ivs)\<leftarrow>?ticks. length ivs) < 2 ^ 64" and i: "0 < length (RemoteZones [''c'', ''f''] numbered_sample)"
    by (simp_all add: rz)
  have evs: "concat (map tb_events (last_n 10 ?bs)) = stats_rb s'" by (simp add: last_n_def)
  from exported_percentage [OF wf o1 o2 o1 numbered_sample_tables(1) s small i, of "[0]" float64 False] obtain p0 bs p out where
    run: "start_polls numbered_sample (RemoteZones [''c'', ''f''] numbered_sample) = Some p0"
      "tc_ticks (ref_kernel Little) [0] ?ticks s = Some bs"
      "run_polls float64 Little (buildZoneIndex (RemoteZones [''c'', ''f''] numbered_sample)) False (map (poll_input Little) bs) Blocking p0 = Some (p, out)"
    and pc: "0 < length (zone_events 1 (concat (map tb_events (last_n 10 bs)))) \<longrightarrow>
      (\<exists>v. percent (ps_prom p) (''f'', ''c'') = Some v \<and> v = fl_round float64 (of_int \<lfloor>fl_round float64 (fl_round float64
          (fl_round float64 (100 * fl_round float64 (real (length (retrans_events 1 (concat (map tb_events (last_n 10 bs))))))) /
           fl_round float64 (real (length (zone_events 1 (concat (map tb_events (last_n 10 bs))))))) * 100)\<rfloor> / 100))"
    unfolding cap Let_def rz nth_Cons_0 resolved_zone.simps ref_kernel_sel by blast
  have "bs = ?bs" using run(2) unfolding bs by simp
  then have e: "concat (map tb_events (last_n 10 bs)) = stats_rb s'" using evs by simp
  have r: "fl_round float64 1 = 1" "fl_round float64 2 = 2" "fl_round float64 100 = 100" "fl_round float64 50 = 50"
    "fl_round float64 5000 = 5000"
    using double_round_int [of 1] double_round_int [of 2] double_round_int [of 100] double_round_int [of 50] double_round_int [of 5000]
    by (simp_all add: float64_def)
  have "percent (ps_prom p) (''f'', ''c'') = Some 50" using pc unfolding e counts by (simp add: r)
  with s run float64_accurate show ?thesis by blast
qed

end
